(* ===== verification/Prelude.thy ===== *)
theory Prelude
  imports Main "HOL-Library.Word" "HOL-Library.Monad_Syntax"
begin

text \<open>
  Shared vocabulary of the development.

  The C program manipulates byte arrays through pointers. A byte array is modelled by the list
  of the bytes that have been initialised so far, counted from its base; the capacity the code
  gave the array is an argument of the operations that write it. Every access is checked:
  reading a byte that is not initialised, or writing outside the capacity, is undefined
  behaviour of the C program and is the value \<open>None\<close>. A theorem that an operation returns
  \<open>Some\<close> is therefore a memory-safety theorem about the code it models.

  The theory also holds \<open>fd_set\<close> (a bit set of \<open>FD_SETSIZE\<close> bits, where touching a bit
  outside the set is undefined behaviour), the character classes of the C locale, and the
  decimal printing that \<open>sprintf\<close> is used for.
\<close>

section \<open>Collections\<close>

named_theorems mem_simps \<open>evaluation and inversion of checked memory accesses\<close>
named_theorems frame_simps \<open>fields an operation leaves alone\<close>

section \<open>Characters\<close>

abbreviation NUL :: char where "NUL \<equiv> CHR 0x00"
abbreviation TAB :: char where "TAB \<equiv> CHR 0x09"
abbreviation LF :: char where "LF \<equiv> CHR 0x0A"
abbreviation VT :: char where "VT \<equiv> CHR 0x0B"
abbreviation FF :: char where "FF \<equiv> CHR 0x0C"
abbreviation CR :: char where "CR \<equiv> CHR 0x0D"
abbreviation SP :: char where "SP \<equiv> CHR 0x20"

text \<open>
  \<open>isspace\<close>, \<open>isdigit\<close> and \<open>tolower\<close> of the C locale. The bytes 128 to 255 are in no
  class and have no lower case.
\<close>

definition isspace :: "char \<Rightarrow> bool" where
  "isspace c \<longleftrightarrow> c = SP \<or> c = TAB \<or> c = LF \<or> c = VT \<or> c = FF \<or> c = CR"

definition isdigit :: "char \<Rightarrow> bool" where
  "isdigit c \<longleftrightarrow> 48 \<le> (of_char c :: nat) \<and> (of_char c :: nat) \<le> 57"

definition tolower :: "char \<Rightarrow> char" where
  "tolower c =
     (if 65 \<le> (of_char c :: nat) \<and> (of_char c :: nat) \<le> 90
      then char_of ((of_char c :: nat) + 32) else c)"

lemma isspace_NUL [simp]: "\<not> isspace NUL"
  by (simp add: isspace_def)

lemma isdigit_NUL [simp]: "\<not> isdigit NUL"
  by (simp add: isdigit_def)

lemma tolower_NUL [simp]: "tolower NUL = NUL"
  by (simp add: tolower_def)

lemma of_char_eq_0 [simp]: "(of_char c :: nat) = 0 \<longleftrightarrow> c = NUL"
  using of_char_eq_iff [of c NUL, where 'a = nat] by simp

lemma of_char_tolower:
  "(of_char (tolower c) :: nat) =
     (if 65 \<le> (of_char c :: nat) \<and> (of_char c :: nat) \<le> 90 then of_char c + 32 else of_char c)"
  by (simp add: tolower_def of_char_of)

lemma tolower_eq_NUL [simp]: "tolower c = NUL \<longleftrightarrow> c = NUL"
  using of_char_tolower [of c] of_char_eq_0 [of "tolower c"] of_char_eq_0 [of c]
  by (auto split: if_splits)

lemma NUL_eq_tolower [simp]: "NUL = tolower c \<longleftrightarrow> c = NUL"
  by (metis tolower_eq_NUL)

section \<open>Checked memory\<close>

text \<open>
  \<open>mem\<close> is the initialised prefix of an array. \<open>mem_get m i\<close> is \<open>m[i]\<close>.
  \<open>mem_put cap i bs m\<close> writes the bytes \<open>bs\<close> from index \<open>i\<close> on into an array of
  \<open>cap\<close> bytes. \<open>cstr_at m i\<close> reads the NUL-terminated string that starts at \<open>m + i\<close>
  and \<open>cstrn_at m i n\<close> reads at most \<open>n\<close> bytes of it, as \<open>strncat\<close> does.
\<close>

type_synonym mem = "char list"

definition mem_get :: "mem \<Rightarrow> nat \<Rightarrow> char option" where
  "mem_get m i = (if i < length m then Some (m ! i) else None)"

definition mem_put :: "nat \<Rightarrow> nat \<Rightarrow> char list \<Rightarrow> mem \<Rightarrow> mem option" where
  "mem_put cap i bs m =
     (if i \<le> length m \<and> i + length bs \<le> cap
      then Some (take i m @ bs @ drop (i + length bs) m) else None)"

definition cstr_at :: "mem \<Rightarrow> nat \<Rightarrow> string option" where
  "cstr_at m i =
     (let s = takeWhile (\<lambda>c. c \<noteq> NUL) (drop i m)
      in if i + length s < length m then Some s else None)"

definition cstrn_at :: "mem \<Rightarrow> nat \<Rightarrow> nat \<Rightarrow> string option" where
  "cstrn_at m i n =
     (let s = takeWhile (\<lambda>c. c \<noteq> NUL) (take n (drop i m))
      in if length s = n \<or> i + length s < length m then Some s else None)"

text \<open>The string an array holds, and the array a string literal is.\<close>

definition cstr :: "mem \<Rightarrow> string" where
  "cstr m = takeWhile (\<lambda>c. c \<noteq> NUL) m"

definition lit :: "string \<Rightarrow> mem" where
  "lit s = s @ [NUL]"

text \<open>
  An array is a proper string when a terminator lies within it; a proper string never overruns
  its capacity when the array respects it.
\<close>

definition is_cstr :: "mem \<Rightarrow> bool" where
  "is_cstr m \<longleftrightarrow> NUL \<in> set m"

definition no_nul :: "string \<Rightarrow> bool" where
  "no_nul s \<longleftrightarrow> NUL \<notin> set s"

lemma mem_get_Some [mem_simps]: "mem_get m i = Some c \<longleftrightarrow> i < length m \<and> m ! i = c"
  by (simp add: mem_get_def)

lemma mem_get_in [simp]: "i < length m \<Longrightarrow> mem_get m i = Some (m ! i)"
  by (simp add: mem_get_def)

lemma mem_get_None [mem_simps]: "mem_get m i = None \<longleftrightarrow> length m \<le> i"
  by (simp add: mem_get_def)

lemma mem_put_Some [mem_simps]:
  "mem_put cap i bs m = Some m' \<longleftrightarrow>
     i \<le> length m \<and> i + length bs \<le> cap \<and> m' = take i m @ bs @ drop (i + length bs) m"
  by (auto simp: mem_put_def)

lemma mem_put_None [mem_simps]:
  "mem_put cap i bs m = None \<longleftrightarrow> length m < i \<or> cap < i + length bs"
  by (auto simp: mem_put_def)

lemma length_mem_put:
  "mem_put cap i bs m = Some m' \<Longrightarrow> length m' = max (length m) (i + length bs)"
  by (auto simp: mem_put_Some)

lemma mem_put_cap:
  "mem_put cap i bs m = Some m' \<Longrightarrow> length m \<le> cap \<Longrightarrow> length m' \<le> cap"
  by (auto simp: mem_put_Some)

lemma length_takeWhile_dropWhile [simp]:
  "length (takeWhile P xs) + length (dropWhile P xs) = length xs"
  by (induction xs) auto

lemma length_takeWhile_lt:
  "length (takeWhile P xs) < length xs \<longleftrightarrow> (\<exists>x \<in> set xs. \<not> P x)"
  by (induction xs) auto

lemma drop_eq_Cons_iff:
  "drop i m = c # r \<longleftrightarrow> i < length m \<and> m ! i = c \<and> drop (Suc i) m = r"
proof (cases "i < length m")
  case True
  then show ?thesis by (simp add: Cons_nth_drop_Suc [symmetric])
qed simp

lemma takeWhile_no_nul [simp]: "no_nul s \<Longrightarrow> takeWhile (\<lambda>c. c \<noteq> NUL) s = s"
  by (auto simp: no_nul_def takeWhile_eq_all_conv)

lemma no_nul_takeWhile [simp]: "no_nul (takeWhile (\<lambda>c. c \<noteq> NUL) s)"
  by (auto simp: no_nul_def dest: set_takeWhileD)

lemma no_nul_simps [simp]:
  "no_nul []" "no_nul (c # s) \<longleftrightarrow> c \<noteq> NUL \<and> no_nul s"
  "no_nul (s @ t) \<longleftrightarrow> no_nul s \<and> no_nul t"
  by (auto simp: no_nul_def)

lemma no_nul_take [simp]: "no_nul s \<Longrightarrow> no_nul (take n s)"
  by (auto simp: no_nul_def dest: in_set_takeD)

lemma no_nul_drop [simp]: "no_nul s \<Longrightarrow> no_nul (drop n s)"
  by (auto simp: no_nul_def dest: in_set_dropD)

lemma no_nul_cstr [simp]: "no_nul (cstr m)"
  by (simp add: cstr_def)

lemma cstr_append_NUL [simp]: "no_nul s \<Longrightarrow> cstr (s @ NUL # r) = s"
  by (auto simp: cstr_def no_nul_def takeWhile_append takeWhile_eq_all_conv)

lemma cstr_lit [simp]: "no_nul s \<Longrightarrow> cstr (lit s) = s"
  by (simp add: lit_def)

lemma is_cstr_append_NUL [simp]: "is_cstr (s @ NUL # r)" "is_cstr (lit s)" "\<not> is_cstr []"
  by (simp_all add: is_cstr_def lit_def)

lemma length_cstr: "is_cstr m \<Longrightarrow> length (cstr m) < length m"
  by (auto simp: cstr_def is_cstr_def length_takeWhile_lt)

lemma is_cstr_split:
  assumes "is_cstr m"
  obtains r where "m = cstr m @ NUL # r"
proof -
  from assms obtain s r where m: "m = s @ NUL # r" and "NUL \<notin> set s"
    unfolding is_cstr_def by (meson split_list_first)
  then have "cstr m = s" by (simp add: no_nul_def)
  with m that show ?thesis by simp
qed

lemma cstr_at_cstr [mem_simps]: "is_cstr m \<Longrightarrow> cstr_at m 0 = Some (cstr m)"
  using length_cstr [of m] by (simp add: cstr_at_def cstr_def)

lemma cstr_at_no_nul: "cstr_at m i = Some s \<Longrightarrow> no_nul s"
  by (auto simp: cstr_at_def Let_def split: if_splits)

lemma cstr_at_drop: "cstr_at m i = cstr_at (drop i m) 0"
  by (auto simp: cstr_at_def Let_def)

lemma cstr_at_lit [simp]: "no_nul s \<Longrightarrow> cstr_at (lit s) 0 = Some s"
  by (simp add: cstr_at_cstr)

lemma cstrn_at_no_nul: "cstrn_at m i n = Some s \<Longrightarrow> no_nul s \<and> length s \<le> n"
  by (auto simp: cstrn_at_def Let_def length_takeWhile_le
      intro!: order_trans [OF length_takeWhile_le] split: if_splits)

text \<open>A read that stays inside the initialised bytes always succeeds.\<close>

lemma cstrn_at_in:
  assumes "i + n \<le> length m"
  shows "cstrn_at m i n = Some (takeWhile (\<lambda>c. c \<noteq> NUL) (take n (drop i m)))"
proof -
  let ?s = "takeWhile (\<lambda>c. c \<noteq> NUL) (take n (drop i m))"
  have "length ?s \<le> n"
    by (rule order_trans [OF length_takeWhile_le]) simp
  with assms have "length ?s = n \<or> i + length ?s < length m" by linarith
  then show ?thesis by (simp add: cstrn_at_def)
qed

text \<open>Storing a string at the base of an array, as \<open>d[0] = 0; strcat(d, s)\<close> does.\<close>

definition str_put :: "nat \<Rightarrow> string \<Rightarrow> mem \<Rightarrow> mem option" where
  "str_put cap s d = mem_put cap 0 (s @ [NUL]) d"

lemma str_put_Some [mem_simps]:
  "str_put cap s d = Some d' \<longleftrightarrow> length s < cap \<and> d' = s @ NUL # drop (Suc (length s)) d"
  by (auto simp: str_put_def mem_put_Some)

lemma str_put_in [simp]:
  "length s < cap \<Longrightarrow> str_put cap s d = Some (s @ NUL # drop (Suc (length s)) d)"
  by (simp add: str_put_Some)

lemma str_put_None [mem_simps]: "str_put cap s d = None \<longleftrightarrow> cap \<le> length s"
  by (auto simp: str_put_def mem_put_None)

lemma str_put_cap: "str_put cap s d = Some d' \<Longrightarrow> length d \<le> cap \<Longrightarrow> length d' \<le> cap"
  by (auto simp: str_put_Some)

section \<open>Postconditions\<close>

text \<open>
  \<open>post m P\<close>: if the computation \<open>m\<close> has no undefined behaviour, its result satisfies \<open>P\<close>.
  \<open>safe m P\<close>: it has no undefined behaviour, and its result satisfies \<open>P\<close>.
\<close>

definition post :: "'a option \<Rightarrow> ('a \<Rightarrow> bool) \<Rightarrow> bool" where
  "post m P \<longleftrightarrow> (\<forall>x. m = Some x \<longrightarrow> P x)"

definition safe :: "'a option \<Rightarrow> ('a \<Rightarrow> bool) \<Rightarrow> bool" where
  "safe m P \<longleftrightarrow> (\<exists>x. m = Some x \<and> P x)"

lemma postI: "(\<And>x. m = Some x \<Longrightarrow> P x) \<Longrightarrow> post m P"
  by (simp add: post_def)

lemma postD: "post m P \<Longrightarrow> m = Some x \<Longrightarrow> P x"
  by (simp add: post_def)

lemma post_simps [simp]:
  "post (Some x) P = P x" "post None P"
  by (simp_all add: post_def)

lemma safe_simps [simp]:
  "safe (Some x) P = P x" "\<not> safe None P"
  by (simp_all add: safe_def)

lemma post_mono: "post m Q \<Longrightarrow> (\<And>x. Q x \<Longrightarrow> P x) \<Longrightarrow> post m P"
  by (simp add: post_def)

lemma safe_mono: "safe m Q \<Longrightarrow> (\<And>x. Q x \<Longrightarrow> P x) \<Longrightarrow> safe m P"
  by (auto simp: safe_def)

lemma post_conj: "post m P \<Longrightarrow> post m Q \<Longrightarrow> post m (\<lambda>x. P x \<and> Q x)"
  by (simp add: post_def)

lemma safe_post: "safe m P \<Longrightarrow> post m P"
  by (auto simp: safe_def post_def)

lemma post_bindI: "post m Q \<Longrightarrow> (\<And>x. Q x \<Longrightarrow> post (f x) P) \<Longrightarrow> post (Option.bind m f) P"
  by (cases m) simp_all

lemma post_bind: "(\<And>x. m = Some x \<Longrightarrow> post (f x) P) \<Longrightarrow> post (Option.bind m f) P"
  by (cases m) simp_all

lemma safe_bindI: "safe m Q \<Longrightarrow> (\<And>x. Q x \<Longrightarrow> safe (f x) P) \<Longrightarrow> safe (Option.bind m f) P"
  by (cases m) simp_all

lemma post_if: "(b \<Longrightarrow> post m P) \<Longrightarrow> (\<not> b \<Longrightarrow> post n P) \<Longrightarrow> post (if b then m else n) P"
  by simp

lemma safe_if: "(b \<Longrightarrow> safe m P) \<Longrightarrow> (\<not> b \<Longrightarrow> safe n P) \<Longrightarrow> safe (if b then m else n) P"
  by simp

section \<open>Descriptor sets\<close>

text \<open>
  \<open>FD_SET\<close>, \<open>FD_CLR\<close> and \<open>FD_ISSET\<close> index a bit array of \<open>FD_SETSIZE\<close> bits without
  checking the descriptor: a descriptor outside \<open>0 .. FD_SETSIZE - 1\<close> is an access outside
  the array.
\<close>

type_synonym fd_set = "int set"

definition FD_SETSIZE :: int where
  "FD_SETSIZE = 1024"

definition fd_ok :: "int \<Rightarrow> bool" where
  "fd_ok fd \<longleftrightarrow> 0 \<le> fd \<and> fd < FD_SETSIZE"

definition FD_SET :: "int \<Rightarrow> fd_set \<Rightarrow> fd_set option" where
  "FD_SET fd S = (if fd_ok fd then Some (insert fd S) else None)"

definition FD_CLR :: "int \<Rightarrow> fd_set \<Rightarrow> fd_set option" where
  "FD_CLR fd S = (if fd_ok fd then Some (S - {fd}) else None)"

definition FD_ISSET :: "int \<Rightarrow> fd_set \<Rightarrow> bool option" where
  "FD_ISSET fd S = (if fd_ok fd then Some (fd \<in> S) else None)"

lemma FD_Some [mem_simps]:
  "FD_SET fd S = Some T \<longleftrightarrow> fd_ok fd \<and> T = insert fd S"
  "FD_CLR fd S = Some T \<longleftrightarrow> fd_ok fd \<and> T = S - {fd}"
  "FD_ISSET fd S = Some b \<longleftrightarrow> fd_ok fd \<and> b = (fd \<in> S)"
  by (auto simp: FD_SET_def FD_CLR_def FD_ISSET_def)

lemma FD_in [simp]:
  "fd_ok fd \<Longrightarrow> FD_SET fd S = Some (insert fd S)"
  "fd_ok fd \<Longrightarrow> FD_CLR fd S = Some (S - {fd})"
  "fd_ok fd \<Longrightarrow> FD_ISSET fd S = Some (fd \<in> S)"
  by (simp_all add: FD_Some)

section \<open>Decimal printing\<close>

text \<open>What \<open>sprintf\<close> prints for \<open>%d\<close> and \<open>%zd\<close>.\<close>

definition digit_char :: "nat \<Rightarrow> char" where
  "digit_char d = char_of (48 + d)"

fun show_nat :: "nat \<Rightarrow> string" where
  "show_nat n = (if n < 10 then [digit_char n] else show_nat (n div 10) @ [digit_char (n mod 10)])"

declare show_nat.simps [simp del]

definition show_int :: "int \<Rightarrow> string" where
  "show_int z = (if z < 0 then CHR ''-'' # show_nat (nat (- z)) else show_nat (nat z))"

lemma of_char_digit: "d < 10 \<Longrightarrow> (of_char (digit_char d) :: nat) = 48 + d"
  by (simp add: digit_char_def of_char_of)

lemma isdigit_digit_char [simp]: "d < 10 \<Longrightarrow> isdigit (digit_char d)"
  by (simp add: isdigit_def of_char_digit)

lemma isdigit_imp: "isdigit c \<Longrightarrow> c \<noteq> NUL \<and> \<not> isspace c"
  by (auto simp: isdigit_def isspace_def)

lemma show_nat_digits: "list_all isdigit (show_nat n) \<and> show_nat n \<noteq> []"
proof (induction n rule: show_nat.induct)
  case (1 n)
  then show ?case
    by (subst (1 2) show_nat.simps) auto
qed

lemma no_nul_show_nat [simp]: "no_nul (show_nat n)"
  using show_nat_digits [of n] by (auto simp: no_nul_def list_all_iff)

lemma no_nul_show_int [simp]: "no_nul (show_int z)"
  by (simp add: show_int_def)

text \<open>A number below \<open>10 ^ k\<close> prints in at most \<open>k\<close> digits.\<close>

lemma length_show_nat: "n < 10 ^ k \<Longrightarrow> 0 < k \<Longrightarrow> length (show_nat n) \<le> k"
proof (induction n arbitrary: k rule: show_nat.induct)
  case (1 n)
  show ?case
  proof (cases "n < 10")
    case True
    with "1.prems" show ?thesis by (simp add: show_nat.simps [of n])
  next
    case False
    with "1.prems"(1) obtain j where k: "k = Suc j" "0 < j"
      by (cases k; cases "k - 1") auto
    with "1.prems"(1) have "n div 10 < 10 ^ j" by (simp add: less_mult_imp_div_less mult.commute)
    with "1.IH" False k have "length (show_nat (n div 10)) \<le> j" by simp
    with False k show ?thesis by (simp add: show_nat.simps [of n])
  qed
qed

end
