(* ===== verification/Utils.thy ===== *)
theory Utils
  imports Prelude
begin

text \<open>
  The string helpers of \<open>utils.c\<close>, on checked memory: \<open>strstrip\<close> in place with its three
  loops, \<open>isnum\<close>, the terminating copies \<open>strncpy0\<close> and \<open>strcpy0\<close>, and the prefix and
  suffix tests, together with the library comparisons they use. Each is related to a function on
  HOL strings, so that the components above reason about strings and not about indices.
\<close>

section \<open>Library comparisons and scans\<close>

text \<open>
  \<open>strneq f a i b j n\<close>: do the strings at \<open>a + i\<close> and \<open>b + j\<close> agree on at most \<open>n\<close>
  bytes, after \<open>f\<close>? It is \<open>strncmp(..) == 0\<close> for the identity and \<open>strncasecmp(..) == 0\<close>
  for \<open>tolower\<close>. \<open>streq\<close> is the unbounded comparison.
\<close>

fun strneq :: "(char \<Rightarrow> char) \<Rightarrow> mem \<Rightarrow> nat \<Rightarrow> mem \<Rightarrow> nat \<Rightarrow> nat \<Rightarrow> bool option" where
  "strneq f a i b j 0 = Some True"
| "strneq f a i b j (Suc n) = do {
     x \<leftarrow> mem_get a i;
     y \<leftarrow> mem_get b j;
     if f x \<noteq> f y then Some False
     else if x = NUL then Some True
     else strneq f a (Suc i) b (Suc j) n }"

definition strcaseeq :: "mem \<Rightarrow> mem \<Rightarrow> bool option" where
  "strcaseeq a b = do {
     s \<leftarrow> cstr_at a 0;
     t \<leftarrow> cstr_at b 0;
     Some (map tolower s = map tolower t) }"

text \<open>\<open>strchr(m + i, c)\<close>: the index of the first \<open>c\<close> before the terminator.\<close>

definition strchr :: "mem \<Rightarrow> nat \<Rightarrow> char \<Rightarrow> nat option option" where
  "strchr m i c = do {
     let s = takeWhile (\<lambda>d. d \<noteq> NUL \<and> d \<noteq> c) (drop i m);
     d \<leftarrow> mem_get m (i + length s);
     Some (if d = c then Some (i + length s) else None) }"

text \<open>
  \<open>atoi\<close>, as the C library computes it: \<open>strtol\<close>, which saturates at the bounds of a 64-bit
  \<open>long\<close>, and then the conversion to a 32-bit \<open>int\<close>, which keeps the low 32 bits.
\<close>

definition digits_val :: "string \<Rightarrow> int" where
  "digits_val s = foldl (\<lambda>n c. 10 * n + (of_char c - 48)) 0 s"

definition atoi :: "string \<Rightarrow> int" where
  "atoi s =
     (let t = dropWhile isspace s;
          neg = (t \<noteq> [] \<and> hd t = CHR ''-'');
          u = (if t \<noteq> [] \<and> (hd t = CHR ''-'' \<or> hd t = CHR ''+'') then tl t else t);
          v = digits_val (takeWhile isdigit u);
          l = (if neg then max (- (2 ^ 63)) (- v) else min (2 ^ 63 - 1) v)
      in sint (word_of_int l :: 32 word))"

section \<open>strstrip\<close>

function skip_space :: "mem \<Rightarrow> nat \<Rightarrow> nat option" where
  "skip_space m p =
     (case mem_get m p of None \<Rightarrow> None
      | Some c \<Rightarrow> if isspace c then skip_space m (Suc p) else Some p)"
  by pat_completeness auto
termination
  by (relation "measure (\<lambda>(m, p). length m - p)") (auto simp: mem_simps)

function back_space :: "mem \<Rightarrow> nat \<Rightarrow> nat \<Rightarrow> nat option" where
  "back_space m p q =
     (case mem_get m q of None \<Rightarrow> None
      | Some c \<Rightarrow> if isspace c \<and> p < q then back_space m p (q - 1) else Some q)"
  by pat_completeness auto
termination
  by (relation "measure (\<lambda>(m, p, q). q)") auto

function copy_down :: "mem \<Rightarrow> nat \<Rightarrow> nat \<Rightarrow> nat \<Rightarrow> (mem \<times> nat) option" where
  "copy_down m r q s =
     (if r < q then
        (case mem_get m r of None \<Rightarrow> None
         | Some c \<Rightarrow> (case mem_put (length m) s [c] m of None \<Rightarrow> None
            | Some m' \<Rightarrow> copy_down m' (Suc r) q (Suc s)))
      else Some (m, s))"
  by pat_completeness auto
termination
  by (relation "measure (\<lambda>(m, r, q, s). q - r)") auto

declare skip_space.simps [simp del] back_space.simps [simp del] copy_down.simps [simp del]

definition strstrip :: "mem \<Rightarrow> mem option" where
  "strstrip str = do {
     p \<leftarrow> skip_space str 0;
     c \<leftarrow> mem_get str p;
     if c = NUL then mem_put (length str) 0 [NUL] str
     else do {
       s \<leftarrow> cstr_at str 0;
       q \<leftarrow> back_space str p (length s - 1);
       str \<leftarrow> mem_put (length str) (Suc q) [NUL] str;
       (str, e) \<leftarrow> copy_down str p (Suc q) 0;
       mem_put (length str) e [NUL] str } }"

section \<open>The other helpers\<close>

function isnum_at :: "mem \<Rightarrow> nat \<Rightarrow> bool option" where
  "isnum_at m p =
     (case mem_get m p of None \<Rightarrow> None
      | Some c \<Rightarrow> if c = NUL then Some True
          else if \<not> isdigit c then Some False
          else isnum_at m (Suc p))"
  by pat_completeness auto
termination
  by (relation "measure (\<lambda>(m, p). length m - p)") (auto simp: mem_simps)

declare isnum_at.simps [simp del]

definition isnum :: "mem \<Rightarrow> bool option" where
  "isnum str = isnum_at str 0"

text \<open>
  \<open>strncpy0(d, s, n)\<close> with \<open>d\<close> an array of \<open>cap\<close> bytes and \<open>s\<close> the pointer \<open>m + i\<close>;
  \<open>strcpy0(d, s)\<close> likewise.
\<close>

definition strncpy0 :: "nat \<Rightarrow> mem \<Rightarrow> mem \<Rightarrow> nat \<Rightarrow> nat \<Rightarrow> mem option" where
  "strncpy0 cap d m i n = do { s \<leftarrow> cstrn_at m i n; str_put cap s d }"

definition strcpy0 :: "nat \<Rightarrow> mem \<Rightarrow> mem \<Rightarrow> nat \<Rightarrow> mem option" where
  "strcpy0 cap d m i = do { s \<leftarrow> cstr_at m i; str_put cap s d }"

definition caseendswith :: "mem option \<Rightarrow> mem option \<Rightarrow> bool option" where
  "caseendswith str suffix =
     (case (str, suffix) of
        (Some str, Some suffix) \<Rightarrow> do {
          s \<leftarrow> cstr_at str 0;
          t \<leftarrow> cstr_at suffix 0;
          if length t > length s then Some False
          else strneq tolower str (length s - length t) suffix 0 (length t) }
      | _ \<Rightarrow> Some False)"

definition strstartswith :: "mem \<Rightarrow> mem \<Rightarrow> bool option" where
  "strstartswith str pre = do {
     t \<leftarrow> cstr_at pre 0;
     strneq id str 0 pre 0 (length t) }"

section \<open>Comparisons as functions on strings\<close>

lemma strneq_take:
  assumes "no_nul s" "no_nul t"
    and "drop i a = s @ NUL # r" "drop j b = t @ NUL # r'"
    and f: "\<And>c. f c = NUL \<longleftrightarrow> c = NUL"
  shows "strneq f a i b j n = Some (map f (take n s) = map f (take n t))"
  using assms(1-4)
proof (induction n arbitrary: s t i j)
  case 0
  then show ?case by simp
next
  case (Suc n)
  note IH = Suc.IH and prems = Suc.prems
  have fN: "f NUL = NUL" by (simp add: f)
  have fc: "f c \<noteq> NUL" if "c \<noteq> NUL" for c using that by (simp add: f)
  show ?case
  proof (cases s)
    case s: Nil
    show ?thesis
    proof (cases t)
      case Nil
      with s prems(3,4) show ?thesis by (simp add: drop_eq_Cons_iff)
    next
      case (Cons d t')
      with s prems fc [of d] show ?thesis by (simp add: drop_eq_Cons_iff fN)
    qed
  next
    case s: (Cons c s')
    show ?thesis
    proof (cases t)
      case Nil
      with s prems fc [of c] show ?thesis by (simp add: drop_eq_Cons_iff fN)
    next
      case t: (Cons d t')
      from prems s t have "strneq f a (Suc i) b (Suc j) n = Some (map f (take n s') = map f (take n t'))"
        by (intro IH) (simp_all add: drop_eq_Cons_iff)
      with prems s t show ?thesis by (auto simp: drop_eq_Cons_iff)
    qed
  qed
qed

lemma strneq_cstr:
  assumes "is_cstr a" "is_cstr b" "\<And>c. f c = NUL \<longleftrightarrow> c = NUL"
  shows "strneq f a 0 b 0 n = Some (map f (take n (cstr a)) = map f (take n (cstr b)))"
proof -
  obtain r r' where "a = cstr a @ NUL # r" "b = cstr b @ NUL # r'"
    using assms(1,2) by (metis is_cstr_split)
  then show ?thesis
    by (intro strneq_take [where r = r and r' = r'] assms) (simp_all flip: drop_0)
qed

lemma strcaseeq_cstr [mem_simps]:
  "is_cstr a \<Longrightarrow> is_cstr b \<Longrightarrow>
     strcaseeq a b = Some (map tolower (cstr a) = map tolower (cstr b))"
  by (simp add: strcaseeq_def mem_simps)

text \<open>The suffix test compares the last bytes, ignoring case; the prefix test the first ones.\<close>

lemma caseendswith_cstr:
  assumes "is_cstr a" "is_cstr b"
  shows "caseendswith (Some a) (Some b) =
    Some (length (cstr b) \<le> length (cstr a) \<and>
      map tolower (drop (length (cstr a) - length (cstr b)) (cstr a)) = map tolower (cstr b))"
proof -
  obtain r r' where ab: "a = cstr a @ NUL # r" "b = cstr b @ NUL # r'"
    using assms by (metis is_cstr_split)
  let ?k = "length (cstr a) - length (cstr b)"
  have "strneq tolower a ?k b 0 (length (cstr b)) =
      Some (map tolower (take (length (cstr b)) (drop ?k (cstr a)))
        = map tolower (take (length (cstr b)) (cstr b)))"
  proof (rule strneq_take)
    show "drop ?k a = drop ?k (cstr a) @ NUL # r"
      by (subst ab(1)) (simp only: drop_append, simp)
    show "drop 0 b = cstr b @ NUL # r'" by (simp flip: ab(2))
  qed simp_all
  then show ?thesis
    using assms by (auto simp: caseendswith_def cstr_at_cstr not_less)
qed

lemma strstartswith_cstr:
  assumes "is_cstr a" "is_cstr b"
  shows "strstartswith a b = Some (take (length (cstr b)) (cstr a) = cstr b)"
  using assms by (simp add: strstartswith_def cstr_at_cstr strneq_cstr)

section \<open>isnum\<close>

lemma isnum_at_drop:
  assumes "drop p m = s @ NUL # r" "no_nul s"
  shows "isnum_at m p = Some (list_all isdigit s)"
  using assms
proof (induction s arbitrary: p)
  case Nil
  then show ?case by (subst isnum_at.simps) (simp add: drop_eq_Cons_iff)
next
  case (Cons c s)
  then have "isnum_at m (Suc p) = Some (list_all isdigit s)"
    by (intro Cons.IH) (simp_all add: drop_eq_Cons_iff)
  with Cons.prems show ?case by (subst isnum_at.simps) (simp add: drop_eq_Cons_iff)
qed

lemma isnum_cstr: "is_cstr m \<Longrightarrow> isnum m = Some (list_all isdigit (cstr m))"
  unfolding isnum_def using isnum_at_drop [of 0 m "cstr m"] is_cstr_split [of m] by force

section \<open>The terminating copies\<close>

lemma strncpy0_Some:
  "strncpy0 cap d m i n = Some d' \<Longrightarrow>
     is_cstr d' \<and> no_nul (cstr d') \<and> length (cstr d') < cap \<and> length (cstr d') \<le> n
     \<and> (length d \<le> cap \<longrightarrow> length d' \<le> cap)"
  by (auto simp: strncpy0_def bind_eq_Some_conv str_put_Some dest!: cstrn_at_no_nul)

text \<open>A copy of a region that is in bounds, with room for its terminator, never overruns.\<close>

lemma strncpy0_in:
  assumes "i + n \<le> length m" "n < cap"
  shows "\<exists>d'. strncpy0 cap d m i n = Some d'
    \<and> cstr d' = takeWhile (\<lambda>c. c \<noteq> NUL) (take n (drop i m)) \<and> is_cstr d'
    \<and> (length d \<le> cap \<longrightarrow> length d' \<le> cap)"
proof -
  let ?s = "takeWhile (\<lambda>c. c \<noteq> NUL) (take n (drop i m))"
  have "length ?s \<le> n"
    by (rule order_trans [OF length_takeWhile_le]) simp
  with assms show ?thesis
    by (auto simp: strncpy0_def cstrn_at_in)
qed

lemma strcpy0_Some:
  "strcpy0 cap d m i = Some d' \<Longrightarrow>
     is_cstr d' \<and> cstr_at m i = Some (cstr d') \<and> length (cstr d') < cap
     \<and> (length d \<le> cap \<longrightarrow> length d' \<le> cap)"
  by (auto simp: strcpy0_def bind_eq_Some_conv str_put_Some
      cstr_append_NUL [OF cstr_at_no_nul])

lemma strcpy0_lit [simp]:
  "no_nul s \<Longrightarrow> length s < cap \<Longrightarrow>
     strcpy0 cap d (lit s) 0 = Some (s @ NUL # drop (Suc (length s)) d)"
  by (simp add: strcpy0_def)

section \<open>strstrip is whitespace trimming\<close>

definition strip :: "string \<Rightarrow> string" where
  "strip s = rev (dropWhile isspace (rev (dropWhile isspace s)))"

lemma skip_space_run:
  assumes "i \<le> j" "j < length m" "\<And>k. i \<le> k \<Longrightarrow> k < j \<Longrightarrow> isspace (m ! k)" "\<not> isspace (m ! j)"
  shows "skip_space m i = Some j"
  using assms
proof (induction m i rule: skip_space.induct)
  case (1 m p)
  show ?case
  proof (cases "p = j")
    case True
    with 1 show ?thesis by (subst skip_space.simps) simp
  next
    case False
    with 1 have "skip_space m (Suc p) = Some j" by simp
    with 1 False show ?thesis by (subst skip_space.simps) simp
  qed
qed

lemma back_space_run:
  assumes "p \<le> j" "j \<le> q" "q < length m"
    "\<And>k. j < k \<Longrightarrow> k \<le> q \<Longrightarrow> isspace (m ! k)" "\<not> isspace (m ! j)"
  shows "back_space m p q = Some j"
  using assms
proof (induction m p q rule: back_space.induct)
  case (1 m p q)
  show ?case
  proof (cases "q = j")
    case True
    with 1 show ?thesis by (subst back_space.simps) simp
  next
    case False
    with 1 have "back_space m p (q - 1) = Some j" by simp
    with 1 False show ?thesis by (subst back_space.simps) simp
  qed
qed

lemma copy_down_run:
  "s \<le> r \<Longrightarrow> r + n \<le> length m \<Longrightarrow>
     copy_down m r (r + n) s = Some (take s m @ take n (drop r m) @ drop (s + n) m, s + n)"
proof (induction n arbitrary: m r s)
  case 0
  then show ?case by (subst copy_down.simps) simp
next
  case (Suc n)
  let ?m = "take s m @ m ! r # drop (Suc s) m"
  have r: "r < length m" using Suc.prems by simp
  have put: "mem_put (length m) s [m ! r] m = Some ?m"
    using Suc.prems by (simp add: mem_put_Some)
  have len: "length ?m = length m" using Suc.prems by simp
  have "copy_down ?m (Suc r) (Suc r + n) (Suc s) =
      Some (take (Suc s) ?m @ take n (drop (Suc r) ?m) @ drop (Suc s + n) ?m, Suc s + n)"
    by (rule Suc.IH) (use Suc.prems len in simp_all)
  moreover have "drop (Suc r) ?m = drop (Suc r) m" "drop (Suc s + n) ?m = drop (Suc s + n) m"
    using Suc.prems by (simp_all add: drop_append min_def drop_Cons' add.commute)
  moreover have "take (Suc n) (drop r m) = m ! r # take n (drop (Suc r) m)"
    using r by (simp add: Cons_nth_drop_Suc [symmetric])
  ultimately show ?case
    using Suc.prems put by (subst copy_down.simps) (simp add: min_def)
qed

lemma strip_split:
  assumes "\<And>c. c \<in> set a \<Longrightarrow> isspace c" "\<And>c. c \<in> set b \<Longrightarrow> isspace c"
    and "t \<noteq> []" "\<not> isspace (hd t)" "\<not> isspace (last t)"
  shows "strip (a @ t @ b) = t"
proof -
  have "dropWhile isspace (a @ t @ b) = t @ b"
    using assms by (simp add: dropWhile_append2) (cases t; simp)
  moreover have "dropWhile isspace (rev (t @ b)) = rev t"
    using assms by (cases t rule: rev_cases) (auto simp: dropWhile_append)
  ultimately show ?thesis by (simp add: strip_def)
qed

lemma strip_all_space: "list_all isspace s \<Longrightarrow> strip s = []"
  by (simp add: strip_def list_all_iff dropWhile_eq_Nil_conv [THEN iffD2])

lemma obtain_trim:
  assumes "\<not> list_all isspace s"
  obtains a t b where "s = a @ t @ b" "\<forall>c \<in> set a. isspace c" "\<forall>c \<in> set b. isspace c"
    "t \<noteq> []" "\<not> isspace (hd t)" "\<not> isspace (last t)"
proof -
  from assms obtain a c u where s: "s = a @ c # u" and c: "\<not> isspace c" and a: "\<forall>c \<in> set a. isspace c"
    by (auto simp: list_all_iff dest!: split_list_first_prop)
  have "\<exists>x \<in> set (c # u). \<not> isspace x" using c by simp
  then obtain t d b where cu: "c # u = t @ d # b" and d: "\<not> isspace d"
    and b: "\<forall>c \<in> set b. isspace c"
    using split_list_last_prop [of "c # u" "\<lambda>x. \<not> isspace x"] by auto
  have "hd (t @ [d]) = c" using cu by (cases t) auto
  with that [of a "t @ [d]" b] s cu a b c d show ?thesis by simp
qed

lemma strstrip_strip:
  assumes "is_cstr m"
  shows "\<exists>m'. strstrip m = Some m' \<and> cstr m' = strip (cstr m) \<and> is_cstr m'
    \<and> length m' = length m"
proof -
  obtain r where m: "m = cstr m @ NUL # r" using assms by (rule is_cstr_split)
  define s where "s = cstr m"
  have nul: "no_nul s" and ms: "m = s @ NUL # r" using m by (simp_all add: s_def)
  show ?thesis
  proof (cases "list_all isspace s")
    case True
    have "skip_space m 0 = Some (length s)"
      using True by (intro skip_space_run) (auto simp: ms nth_append list_all_iff)
    moreover have "mem_get m (length s) = Some NUL" by (simp add: ms mem_get_def)
    moreover have "mem_put (length m) 0 [NUL] m = Some (NUL # drop (Suc 0) m)"
      by (simp add: ms mem_put_def)
    ultimately have "strstrip m = Some (NUL # drop (Suc 0) m)" by (simp add: strstrip_def)
    moreover have "cstr (NUL # drop (Suc 0) m) = []" by (simp add: cstr_def)
    moreover have "length (NUL # drop (Suc 0) m) = length m" by (simp add: ms)
    ultimately show ?thesis
      using True by (simp add: strip_all_space is_cstr_def flip: s_def)
  next
    case False
    then obtain a t b where st: "s = a @ t @ b" and ab: "\<forall>c \<in> set a. isspace c" "\<forall>c \<in> set b. isspace c"
      and t: "t \<noteq> []" "\<not> isspace (hd t)" "\<not> isspace (last t)"
      by (rule obtain_trim)
    let ?p = "length a" and ?q = "length a + length t - 1"
    have p: "skip_space m 0 = Some ?p"
      using ab t by (intro skip_space_run) (auto simp: ms st nth_append hd_conv_nth)
    have hd: "m ! ?p = hd t" using t by (simp add: ms st nth_append hd_conv_nth)
    have "hd t \<noteq> NUL" using nul t by (cases t) (auto simp: st)
    have q: "back_space m ?p (length s - 1) = Some ?q"
    proof (rule back_space_run)
      have "m ! ?q = last t"
        using t by (cases t rule: rev_cases) (auto simp: ms st nth_append)
      then show "\<not> isspace (m ! ?q)" using t by simp
      show "isspace (m ! k)" if "?q < k" "k \<le> length s - 1" for k
        using that t ab by (auto simp: ms st nth_append not_less)
    qed (use t in \<open>cases t; auto simp: ms st\<close>)+
    have Sq: "Suc ?q = length a + length t" using t by (cases t) auto
    define m1 where "m1 = a @ t @ NUL # drop (Suc (length a + length t)) m"
    have lens: "length a + length t < length m" by (simp add: ms st)
    have m1: "mem_put (length m) (Suc ?q) [NUL] m = Some m1"
      unfolding Sq m1_def by (simp add: mem_put_def ms st)
    have len1: "length m1 = length m"
      using m1 [unfolded Sq] lens by (simp add: length_mem_put)
    define m2 where "m2 = t @ drop (length t) m1"
    have "drop (length a) m1 = t @ NUL # drop (Suc (length a + length t)) m"
      by (simp add: m1_def)
    then have m2: "copy_down m1 ?p (Suc ?q) 0 = Some (m2, length t)"
      unfolding Sq using copy_down_run [of 0 ?p "length t" m1] len1 lens by (simp add: m2_def)
    have len2: "length m2 = length m" using len1 lens by (simp add: m2_def)
    have m3: "mem_put (length m) (length t) [NUL] m2 = Some (t @ NUL # drop (Suc (length t)) m2)"
      using len2 lens by (simp add: mem_put_def) (simp add: m2_def)
    have c: "mem_get m ?p = Some (hd t)" using hd lens t by (simp add: mem_get_def)
    have s_at: "cstr_at m 0 = Some s" using assms by (simp add: cstr_at_cstr s_def)
    have "strstrip m = Some (t @ NUL # drop (Suc (length t)) m2)"
      using p c \<open>hd t \<noteq> NUL\<close> q m1 m2 m3 s_at len1 len2 by (simp add: strstrip_def)
    moreover have "strip s = t"
      unfolding st using ab t by (intro strip_split) auto
    moreover have "no_nul t" using nul by (simp add: st)
    moreover have "length (t @ NUL # drop (Suc (length t)) m2) = length m"
      using len2 lens by simp
    ultimately show ?thesis by (simp add: s_def)
  qed
qed

end
