(* ===== verification/OS.thy ===== *)
theory OS
  imports Prelude
begin

text \<open>
  The operating system and the libraries the program calls, as parameters.

  A step of the program may depend on answers from outside: how many bytes a \<open>send\<close> accepted,
  what a \<open>recv\<close> delivered, which descriptor a \<open>pipe\<close> got. The answers are the fields of
  \<open>os\<close>; each is a function of the history of calls so far, so every behaviour of the
  environment is some \<open>os\<close>. The calls that transfer data or create and close descriptors are
  recorded in the history (\<open>trace\<close>, newest first) with their arguments and answers, which is
  what the properties about bytes sent and descriptors closed speak of. Calls that only print to
  the log are not part of the history.

  \<open>os_ok\<close> collects the documented contracts: no call delivers or accepts more bytes than it
  was asked for, descriptors are not negative, a file size is a non-negative 64-bit
  number, a mapping has the length that was asked for,
  \<open>select\<close> answers with descriptors below its first argument that it was asked about.
\<close>

datatype event =
    EvRecv int nat "char list option"
  | EvSend int "char list" int
  | EvRead int nat "char list option"
  | EvWrite int "char list" int
  | EvAccept int "int option"
  | EvPipe "(int \<times> int) option"
  | EvFork "nat option"
  | EvOpen string "int option"
  | EvMmap int int "char list option"
  | EvMunmap int
  | EvClose int
  | EvSslNew int bool
  | EvSslSetFd int bool
  | EvSslAccept int int
  | EvSslFree int
  | EvStat string
  | EvSelect int "(fd_set \<times> fd_set) option"

type_synonym trace = "event list"

record stat_t =
  st_isdir :: bool
  st_size :: int
  st_mtime :: int

text \<open>
  \<open>os_recv\<close> serves \<open>recv\<close> and \<open>SSL_read\<close>, \<open>os_send\<close> serves \<open>send\<close> and \<open>SSL_write\<close>:
  \<open>None\<close> is a negative return, \<open>Some []\<close> is the return value 0. \<open>os_pipe\<close> gives the read and
  the write end. \<open>os_fork\<close> is the answer in the parent. \<open>os_ssl_new\<close> and
  \<open>os_ssl_set_fd\<close> say whether \<open>SSL_new\<close> and \<open>SSL_set_fd\<close> succeed. \<open>os_time\<close> and \<open>os_date\<close> are \<open>time\<close> and
  \<open>strftime\<close> of \<open>localtime\<close>.
\<close>

record os =
  os_recv :: "trace \<Rightarrow> int \<Rightarrow> nat \<Rightarrow> char list option"
  os_send :: "trace \<Rightarrow> int \<Rightarrow> char list \<Rightarrow> int"
  os_read :: "trace \<Rightarrow> int \<Rightarrow> nat \<Rightarrow> char list option"
  os_write :: "trace \<Rightarrow> int \<Rightarrow> char list \<Rightarrow> int"
  os_accept :: "trace \<Rightarrow> int \<Rightarrow> (int \<times> string) option"
  os_pipe :: "trace \<Rightarrow> (int \<times> int) option"
  os_fork :: "trace \<Rightarrow> nat option"
  os_open :: "trace \<Rightarrow> string \<Rightarrow> int option"
  os_stat :: "trace \<Rightarrow> string \<Rightarrow> stat_t option"
  os_mmap :: "trace \<Rightarrow> int \<Rightarrow> int \<Rightarrow> char list option"
  os_ssl_new :: "trace \<Rightarrow> int \<Rightarrow> bool"
  os_ssl_set_fd :: "trace \<Rightarrow> int \<Rightarrow> bool"
  os_ssl_accept :: "trace \<Rightarrow> int \<Rightarrow> int"
  os_select :: "trace \<Rightarrow> int \<Rightarrow> fd_set \<Rightarrow> fd_set \<Rightarrow> (fd_set \<times> fd_set) option"
  os_time :: "trace \<Rightarrow> int"
  os_date :: "int \<Rightarrow> string"

definition DATESZ :: nat where
  "DATESZ = 64"

definition INET_ADDRSTRLEN :: nat where
  "INET_ADDRSTRLEN = 16"

definition os_ok :: "os \<Rightarrow> bool" where
  "os_ok os \<longleftrightarrow>
     (\<forall>tr fd n bs. os_recv os tr fd n = Some bs \<longrightarrow> length bs \<le> n)
     \<and> (\<forall>tr fd n bs. os_read os tr fd n = Some bs \<longrightarrow> length bs \<le> n)
     \<and> (\<forall>tr fd bs. os_send os tr fd bs \<le> int (length bs))
     \<and> (\<forall>tr fd bs. os_write os tr fd bs \<le> int (length bs))
     \<and> (\<forall>tr s fd ad. os_accept os tr s = Some (fd, ad) \<longrightarrow> 0 \<le> fd \<and> no_nul ad
          \<and> length ad < INET_ADDRSTRLEN)
     \<and> (\<forall>tr r w. os_pipe os tr = Some (r, w) \<longrightarrow> 0 \<le> r \<and> 0 \<le> w)
     \<and> (\<forall>tr p fd. os_open os tr p = Some fd \<longrightarrow> 0 \<le> fd)
     \<and> (\<forall>tr p st. os_stat os tr p = Some st \<longrightarrow> 0 \<le> st_size st \<and> st_size st < 2 ^ 63)
     \<and> (\<forall>tr fd n bs. os_mmap os tr fd n = Some bs \<longrightarrow> 0 < n \<and> int (length bs) = n)
     \<and> (\<forall>tr n r w r' w'. os_select os tr n r w = Some (r', w') \<longrightarrow>
          r' \<subseteq> {fd \<in> r. fd < n} \<and> w' \<subseteq> {fd \<in> w. fd < n})
     \<and> (\<forall>t. no_nul (os_date os t) \<and> length (os_date os t) < DATESZ)"

lemma os_okD:
  assumes "os_ok os"
  shows "os_recv os tr fd n = Some bs \<Longrightarrow> length bs \<le> n"
    and "os_read os tr fd n = Some bs \<Longrightarrow> length bs \<le> n"
    and "os_send os tr fd bs \<le> int (length bs)"
    and "os_write os tr fd bs \<le> int (length bs)"
    and "os_accept os tr s = Some (fd, ad) \<Longrightarrow> 0 \<le> fd \<and> no_nul ad \<and> length ad < INET_ADDRSTRLEN"
    and "os_pipe os tr = Some (r, w) \<Longrightarrow> 0 \<le> r \<and> 0 \<le> w"
    and "os_open os tr p = Some fd \<Longrightarrow> 0 \<le> fd"
    and "os_stat os tr p = Some st \<Longrightarrow> 0 \<le> st_size st \<and> st_size st < 2 ^ 63"
    and "os_mmap os tr fd m = Some bs \<Longrightarrow> 0 < m \<and> int (length bs) = m"
    and "no_nul (os_date os t)" "length (os_date os t) < DATESZ"
  using assms by (auto simp: os_ok_def)

lemma os_ok_select:
  assumes "os_ok os" "os_select os tr n r w = Some (r', w')"
  shows "r' \<subseteq> {fd \<in> r. fd < n}" "w' \<subseteq> {fd \<in> w. fd < n}"
proof -
  from assms(1) have "\<forall>tr n r w r' w'. os_select os tr n r w = Some (r', w') \<longrightarrow>
      r' \<subseteq> {fd \<in> r. fd < n} \<and> w' \<subseteq> {fd \<in> w. fd < n}"
    by (simp add: os_ok_def)
  with assms(2) show "r' \<subseteq> {fd \<in> r. fd < n}" "w' \<subseteq> {fd \<in> w. fd < n}" by blast+
qed

text \<open>Descriptors the history has opened and not yet closed.\<close>

fun open_fds :: "trace \<Rightarrow> int set" where
  "open_fds [] = {}"
| "open_fds (e # tr) =
     (case e of
        EvAccept s (Some fd) \<Rightarrow> insert fd (open_fds tr)
      | EvPipe (Some (r, w)) \<Rightarrow> insert r (insert w (open_fds tr))
      | EvOpen p (Some fd) \<Rightarrow> insert fd (open_fds tr)
      | EvClose fd \<Rightarrow> open_fds tr - {fd}
      | _ \<Rightarrow> open_fds tr)"

text \<open>The bytes a history has sent to a socket and written to a pipe, oldest first.\<close>

fun sent_to :: "int \<Rightarrow> trace \<Rightarrow> char list" where
  "sent_to fd [] = []"
| "sent_to fd (e # tr) =
     sent_to fd tr @ (case e of EvSend f bs rc \<Rightarrow> if f = fd then take (nat rc) bs else [] | _ \<Rightarrow> [])"

fun written_to :: "int \<Rightarrow> trace \<Rightarrow> char list" where
  "written_to fd [] = []"
| "written_to fd (e # tr) =
     written_to fd tr @ (case e of EvWrite f bs rc \<Rightarrow> if f = fd then take (nat rc) bs else [] | _ \<Rightarrow> [])"

end
