(* ===== verification/Buffer.thy ===== *)
theory Buffer
  imports Utils OS
begin

text \<open>
  \<open>buffer.c\<close>: the 8192-byte buffer every connection receives into and sends from, and the
  memory-mapped buffer a static file is sent from.

  \<open>data\<close> is the initialised prefix of the allocated array, \<open>sz\<close> the number of bytes in use
  (a signed size: a failed \<open>read\<close> stores -1 in it) and \<open>data_p\<close> the offset of the cursor from
  the base of the array. \<open>buf_reset\<close> keeps the old bytes, so a later operation may still see
  them.
\<close>

definition BUFSZ :: nat where
  "BUFSZ = 8192"

definition CRLF :: string where
  "CRLF = [CR, LF]"

record buf_t =
  sz :: int
  data :: mem
  data_p :: nat

definition buf_new :: buf_t where
  "buf_new = \<lparr>sz = 0, data = [NUL], data_p = 0\<rparr>"

text \<open>Offset of the end of the data in use from the base of the array.\<close>

definition buf_end :: "buf_t \<Rightarrow> int" where
  "buf_end buf = sz buf"

definition buf_rsize :: "buf_t \<Rightarrow> int" where
  "buf_rsize buf = sz buf - int (data_p buf)"

definition buf_reset :: "buf_t \<Rightarrow> buf_t" where
  "buf_reset buf = buf\<lparr>data_p := 0, sz := 0\<rparr>"

text \<open>
  \<open>mmbuf_new\<close>: the bytes are what \<open>mmap\<close> answers for the descriptor and the size, \<open>None\<close>
  when it fails. The buffer is then \<open>NULL\<close>.
\<close>

definition mmbuf_new :: "(int \<Rightarrow> int \<Rightarrow> char list option) \<Rightarrow> int \<Rightarrow> int \<Rightarrow> buf_t option" where
  "mmbuf_new mmap fd n =
     (case mmap fd n of
        None \<Rightarrow> None
      | Some bs \<Rightarrow> Some \<lparr>sz = n, data = bs, data_p = 0\<rparr>)"

text \<open>\<open>mmbuf_free\<close>: the mapping is given back with its size; \<open>NULL\<close> is left alone.\<close>

definition mmbuf_free :: "buf_t option \<Rightarrow> trace \<Rightarrow> trace" where
  "mmbuf_free mmbuf tr = (case mmbuf of None \<Rightarrow> tr | Some b \<Rightarrow> EvMunmap (sz b) # tr)"

text \<open>
  Writing at the cursor of the array or at any other offset (\<open>memcpy\<close>, \<open>recv\<close>, \<open>read\<close>): the
  allocation holds \<open>BUFSZ + 1\<close> bytes. \<open>buf_slice b i n\<close> reads the \<open>n\<close> bytes at offset \<open>i\<close>,
  as \<open>send\<close>, \<open>write\<close> and \<open>memcpy\<close> do.
\<close>

definition buf_write :: "nat \<Rightarrow> char list \<Rightarrow> buf_t \<Rightarrow> buf_t option" where
  "buf_write i bs buf = do {
     m \<leftarrow> mem_put (BUFSZ + 1) i bs (data buf);
     Some (buf\<lparr>data := m\<rparr>) }"

definition buf_slice :: "buf_t \<Rightarrow> nat \<Rightarrow> nat \<Rightarrow> char list option" where
  "buf_slice buf i n =
     (if i + n \<le> length (data buf) then Some (take n (drop i (data buf))) else None)"

text \<open>The bytes handed to \<open>send\<close>: a negative count would be a huge \<open>size_t\<close>.\<close>

definition buf_next :: "buf_t \<Rightarrow> int \<Rightarrow> char list option" where
  "buf_next buf n = (if 0 \<le> n then buf_slice buf (data_p buf) (nat n) else None)"

lemma buf_next_nonneg [simp]: "0 \<le> n \<Longrightarrow> buf_next buf n = buf_slice buf (data_p buf) (nat n)"
  by (simp add: buf_next_def)

lemma buf_next_Some: "buf_next buf n = Some bs \<Longrightarrow> 0 \<le> n \<and> buf_slice buf (data_p buf) (nat n) = Some bs"
  by (simp add: buf_next_def split: if_splits)

section \<open>Well-formed buffers\<close>

text \<open>
  The bytes in use are initialised, the allocation is respected, and the cursor is within the
  data in use.
\<close>

definition buf_ok :: "buf_t \<Rightarrow> bool" where
  "buf_ok buf \<longleftrightarrow>
     0 \<le> sz buf \<and> sz buf \<le> int BUFSZ \<and> nat (sz buf) \<le> length (data buf)
     \<and> length (data buf) \<le> BUFSZ + 1 \<and> int (data_p buf) \<le> sz buf"

text \<open>The unread bytes of a buffer, \<open>[data_p, data + sz)\<close>.\<close>

definition unread :: "buf_t \<Rightarrow> char list" where
  "unread buf = drop (data_p buf) (take (nat (sz buf)) (data buf))"

lemma buf_ok_new [simp]: "buf_ok buf_new"
  by (simp add: buf_ok_def buf_new_def BUFSZ_def)

lemma buf_ok_reset [simp]: "buf_ok buf \<Longrightarrow> buf_ok (buf_reset buf)"
  by (simp add: buf_ok_def buf_reset_def)

lemma buf_reset_simps [simp]:
  "sz (buf_reset buf) = 0" "data_p (buf_reset buf) = 0" "data (buf_reset buf) = data buf"
  "buf_reset (buf_reset buf) = buf_reset buf"
  by (simp_all add: buf_reset_def)

lemma unread_reset [simp]: "unread (buf_reset buf) = []"
  by (simp add: unread_def buf_reset_def)

lemma length_unread: "buf_ok buf \<Longrightarrow> int (length (unread buf)) = buf_rsize buf"
  by (auto simp: unread_def buf_ok_def buf_rsize_def min_def)

lemma buf_slice_unread:
  assumes "buf_ok buf"
  shows "buf_slice buf (data_p buf) (nat (buf_rsize buf)) = Some (unread buf)"
  using assms by (auto simp: buf_slice_def unread_def buf_ok_def buf_rsize_def drop_take nat_diff_distrib)

text \<open>Appending at the end of the data in use, as \<open>recv\<close> does, extends the unread bytes.\<close>

lemma buf_write_append:
  assumes "buf_ok buf" "nat (sz buf) + length bs \<le> BUFSZ"
  shows "\<exists>buf'. buf_write (nat (sz buf)) bs buf = Some buf' \<and> sz buf' = sz buf
    \<and> data_p buf' = data_p buf
    \<and> buf_ok (buf'\<lparr>sz := sz buf + int (length bs)\<rparr>)
    \<and> unread (buf'\<lparr>sz := sz buf + int (length bs)\<rparr>) = unread buf @ bs
    \<and> take (nat (sz buf)) (data buf') = take (nat (sz buf)) (data buf)"
proof -
  let ?n = "nat (sz buf)"
  let ?m = "take ?n (data buf) @ bs @ drop (?n + length bs) (data buf)"
  have n: "nat (sz buf + int (length bs)) = ?n + length bs"
    using assms by (simp add: buf_ok_def nat_add_distrib)
  have dp: "data_p buf \<le> ?n" using assms(1) unfolding buf_ok_def by linarith
  have "buf_write ?n bs buf = Some (buf\<lparr>data := ?m\<rparr>)"
    using assms by (simp add: buf_write_def mem_put_def buf_ok_def)
  moreover have "take (?n + length bs) ?m = take ?n (data buf) @ bs"
    using assms by (simp add: buf_ok_def)
  moreover have "drop (data_p buf) (take ?n (data buf) @ bs) = drop (data_p buf) (take ?n (data buf)) @ bs"
    using assms dp by (simp add: buf_ok_def)
  ultimately show ?thesis
    using assms by (auto simp: buf_ok_def unread_def n)
qed

text \<open>Loading a reset buffer with fresh bytes from its base.\<close>

lemma buf_write_base:
  assumes "length (data buf) \<le> BUFSZ + 1" "length bs \<le> BUFSZ"
  shows "\<exists>buf'. buf_write 0 bs buf = Some buf' \<and> sz buf' = sz buf \<and> data_p buf' = data_p buf
    \<and> take (length bs) (data buf') = bs \<and> length (data buf') \<le> BUFSZ + 1
    \<and> length bs \<le> length (data buf')"
  using assms by (auto simp: buf_write_def mem_put_def)

end
