(* ===== verification/Logging.thy ===== *)
theory Logging
  imports Buffer
begin

text \<open>
  \<open>logging.c\<close>: the log file, its lock, and the two formatted log lines.

  The state is the module's: the descriptor of the log and the three static arrays, and the calls
  made on the descriptor, oldest first. \<open>vsprintf\<close> and \<open>sprintf\<close> write without a bound, so
  \<open>None\<close> is a line that does not fit its array. The date is what \<open>strftime\<close> stores.
\<close>

definition LINESZ :: nat where
  "LINESZ = BUFSZ"

definition LOG_DATESZ :: nat where
  "LOG_DATESZ = 64"

datatype lk_op = F_LOCK | F_ULOCK | F_TEST | F_TLOCK

datatype log_call =
    LogOpen string int
  | LogLockf int lk_op int
  | LogWrite int "char list"
  | LogSync int
  | LogClose int

record log_t =
  log_fd :: int
  log_dt :: mem
  log_buf :: mem
  log_wrapped :: mem
  log_calls :: "log_call list"

text \<open>What the environment answers: \<open>open\<close>, \<open>lockf\<close>, and the date, at a point of the history.\<close>

record log_os =
  lo_open :: "log_call list \<Rightarrow> string \<Rightarrow> int"
  lo_lockf :: "log_call list \<Rightarrow> int \<Rightarrow> lk_op \<Rightarrow> int"
  lo_date :: "log_call list \<Rightarrow> string"

definition log_state0 :: log_t where
  "log_state0 = \<lparr>log_fd = - 1, log_dt = replicate LOG_DATESZ NUL, log_buf = replicate (LINESZ + 1) NUL,
     log_wrapped = replicate (LINESZ + LOG_DATESZ + 10) NUL, log_calls = []\<rparr>"

definition log_do :: "log_call \<Rightarrow> log_t \<Rightarrow> log_t" where
  "log_do c l = l\<lparr>log_calls := log_calls l @ [c]\<rparr>"

definition log_lockf :: "log_os \<Rightarrow> lk_op \<Rightarrow> log_t \<Rightarrow> int \<times> log_t" where
  "log_lockf lo oper l =
     (let r = lo_lockf lo (log_calls l) (log_fd l) oper in (r, log_do (LogLockf (log_fd l) oper r) l))"

definition log_lock :: "log_os \<Rightarrow> log_t \<Rightarrow> log_t" where
  "log_lock lo l = snd (log_lockf lo F_LOCK l)"

definition log_unlock :: "log_os \<Rightarrow> log_t \<Rightarrow> log_t" where
  "log_unlock lo l = snd (log_lockf lo F_ULOCK l)"

text \<open>
  A second call is refused. When the lock test fails the descriptor stays set, so \<open>log_inited\<close>
  then says yes.
\<close>

definition log_init :: "log_os \<Rightarrow> string \<Rightarrow> log_t \<Rightarrow> int \<times> log_t" where
  "log_init lo fname l =
     (if 0 < log_fd l then (- 1, l)
      else
        (let fd = lo_open lo (log_calls l) fname;
             l = (log_do (LogOpen fname fd) l)\<lparr>log_fd := fd\<rparr>;
             (r, l) = log_lockf lo F_TEST l
         in if r < 0 then (- 1, l) else (1, l)))"

definition log_inited :: "log_t \<Rightarrow> bool" where
  "log_inited l \<longleftrightarrow> 0 < log_fd l"

section \<open>Lines\<close>

text \<open>
  \<open>vsprintf\<close> for the conversions the program uses: \<open>%s\<close>, \<open>%d\<close>, \<open>%zd\<close> and \<open>%zu\<close>. An
  argument of the wrong kind, or a missing one, is undefined behaviour.
\<close>

datatype log_arg = ArgS string | ArgI int

fun log_format :: "string \<Rightarrow> log_arg list \<Rightarrow> string option" where
  "log_format [] as = Some []"
| "log_format (c # cs) as =
     (if c \<noteq> CHR ''%'' then map_option ((#) c) (log_format cs as)
      else
        (case cs of
           [] \<Rightarrow> None
         | d # ds \<Rightarrow>
             (case as of
                [] \<Rightarrow> None
              | ArgS s # as \<Rightarrow> if d = CHR ''s'' then map_option ((@) s) (log_format ds as) else None
              | ArgI z # as \<Rightarrow>
                  if d = CHR ''d'' then map_option ((@) (show_int z)) (log_format ds as)
                  else if d = CHR ''z'' then
                    (case ds of
                       [] \<Rightarrow> None
                     | e # es \<Rightarrow>
                         if e = CHR ''d'' \<or> e = CHR ''u''
                         then map_option ((@) (show_int z)) (log_format es as) else None)
                  else None)))"

definition prepare_datetime :: "log_os \<Rightarrow> log_t \<Rightarrow> log_t option" where
  "prepare_datetime lo l = do {
     m \<leftarrow> str_put LOG_DATESZ (lo_date lo (log_calls l)) (log_dt l);
     Some (l\<lparr>log_dt := m\<rparr>) }"

text \<open>What the two functions share; \<open>mark\<close> stands between the date and the line.\<close>

definition log_marked :: "string \<Rightarrow> log_os \<Rightarrow> string \<Rightarrow> log_arg list \<Rightarrow> log_t \<Rightarrow> log_t option" where
  "log_marked mark lo fmt as l = do {
     let l = log_lock lo l;
     s \<leftarrow> log_format fmt as;
     m \<leftarrow> str_put (LINESZ + 1) s (log_buf l);
     l \<leftarrow> prepare_datetime lo (l\<lparr>log_buf := m\<rparr>);
     d \<leftarrow> cstr_at (log_dt l) 0;
     t \<leftarrow> cstr_at (log_buf l) 0;
     w \<leftarrow> str_put (LINESZ + LOG_DATESZ + 10) (d @ mark @ t @ [LF]) (log_wrapped l);
     let l = l\<lparr>log_wrapped := w\<rparr>;
     out \<leftarrow> cstr_at w 0;
     Some (log_unlock lo (log_do (LogWrite (log_fd l) out) l)) }"

definition log_line :: "log_os \<Rightarrow> string \<Rightarrow> log_arg list \<Rightarrow> log_t \<Rightarrow> log_t option" where
  "log_line = log_marked '' - ''"

definition log_errln :: "log_os \<Rightarrow> string \<Rightarrow> log_arg list \<Rightarrow> log_t \<Rightarrow> log_t option" where
  "log_errln = log_marked '' !!! ERROR !!! ''"

definition log_raw :: "log_os \<Rightarrow> char list \<Rightarrow> log_t \<Rightarrow> log_t" where
  "log_raw lo bs l =
     (let l = log_lock lo l;
          l = log_do (LogWrite (log_fd l) bs) l;
          l = log_do (LogWrite (log_fd l) [LF]) l
      in log_unlock lo l)"

definition log_flush :: "log_t \<Rightarrow> log_t" where
  "log_flush l = log_do (LogSync (log_fd l)) l"

definition log_stop :: "log_t \<Rightarrow> log_t" where
  "log_stop l = (if 0 < log_fd l then log_do (LogClose (log_fd l)) l else l)"

section \<open>The arrays are large enough for short dates\<close>

text \<open>The date contract of \<open>strftime\<close>: a string that fits its array.\<close>

definition log_os_ok :: "log_os \<Rightarrow> bool" where
  "log_os_ok lo \<longleftrightarrow> (\<forall>cs. no_nul (lo_date lo cs) \<and> length (lo_date lo cs) < LOG_DATESZ)"

text \<open>
  The bytes on the descriptor: lock, the line, unlock. The line must fit \<open>line\<close>, and with the date
  and the mark it must fit \<open>wrapped\<close>.
\<close>

lemma log_marked_run:
  assumes lo: "log_os_ok lo" and s: "log_format fmt as = Some s" "no_nul s" "no_nul mark"
  shows "log_marked mark lo fmt as l =
    (let r = lo_lockf lo (log_calls l) (log_fd l) F_LOCK;
         cs = log_calls l @ [LogLockf (log_fd l) F_LOCK r];
         out = lo_date lo cs @ mark @ s @ [LF];
         cs' = cs @ [LogWrite (log_fd l) out]
     in if length s \<le> LINESZ \<and> length out < LINESZ + LOG_DATESZ + 10
        then Some (l\<lparr>log_dt := lo_date lo cs @ NUL # drop (Suc (length (lo_date lo cs))) (log_dt l),
          log_buf := s @ NUL # drop (Suc (length s)) (log_buf l),
          log_wrapped := out @ NUL # drop (Suc (length out)) (log_wrapped l),
          log_calls := cs' @ [LogLockf (log_fd l) F_ULOCK (lo_lockf lo cs' (log_fd l) F_ULOCK)]\<rparr>)
        else None)"
proof -
  have d: "no_nul (lo_date lo cs)" "length (lo_date lo cs) < LOG_DATESZ" for cs
    using lo by (auto simp: log_os_ok_def)
  have c: "cstr_at (x @ NUL # y) 0 = Some x" if "no_nul x" for x y
    using that by (simp add: cstr_at_cstr)
  have n: "no_nul (lo_date lo cs @ mark @ s @ [LF])" for cs using d s by simp
  have n': "cstr_at (lo_date lo cs @ mark @ s @ LF # NUL # y) 0 = Some (lo_date lo cs @ mark @ s @ [LF])" for cs y
    using c [OF n, of cs y] by simp
  have p: "str_put cap x m = (if length x < cap then Some (x @ NUL # drop (Suc (length x)) m) else None)"
    for cap x m by (simp add: str_put_None)
  show ?thesis
    using s(1) d c [OF s(2)] c [OF d(1)]
    by (simp add: log_marked_def log_lock_def log_unlock_def log_lockf_def log_do_def Let_def
        prepare_datetime_def n' p)
qed

end
