(* ===== verification/Header.thy ===== *)
theory Header
  imports Utils
begin

text \<open>
  \<open>header.c\<close>: HTTP headers as a singly linked list behind an empty guard node.

  The operations are modelled twice. The pointer model works on an explicit store of nodes
  (\<open>hdr_store\<close>, a map from addresses to nodes) with the \<open>next\<close> pointers the code writes;
  freed nodes leave the store, so a later access to one is undefined behaviour. The list model is
  what the other components see: the nodes after the guard, first to last, as (key, value)
  strings. The locale \<open>hdr_list\<close> is the contract between the two.
\<close>

definition HDR_KEYSZ :: nat where
  "HDR_KEYSZ = 512"

definition HDR_VALSZ :: nat where
  "HDR_VALSZ = 4096"

section \<open>The linked list\<close>

record hdr_node =
  hdr_key :: mem
  hdr_val :: mem
  hdr_next :: "nat option"

type_synonym hdr_store = "nat \<rightharpoonup> hdr_node"

text \<open>
  \<open>hdr_new h p key val\<close> builds a node at \<open>p\<close>, the address \<open>malloc\<close> returned; a \<open>NULL\<close>
  argument leaves an empty string.
\<close>

definition hdr_field :: "nat \<Rightarrow> mem option \<Rightarrow> mem option" where
  "hdr_field n src =
     (case src of None \<Rightarrow> Some [NUL] | Some m \<Rightarrow> strncpy0 (n + 1) [] m 0 n)"

definition hdr_new :: "hdr_store \<Rightarrow> nat \<Rightarrow> mem option \<Rightarrow> mem option \<Rightarrow> hdr_store option" where
  "hdr_new h p key val = do {
     k \<leftarrow> hdr_field HDR_KEYSZ key;
     v \<leftarrow> hdr_field HDR_VALSZ val;
     Some (h(p \<mapsto> \<lparr>hdr_key = k, hdr_val = v, hdr_next = None\<rparr>)) }"

partial_function (option) hdr_free :: "hdr_store \<Rightarrow> nat option \<Rightarrow> hdr_store option" where
  "hdr_free h q =
     (case q of None \<Rightarrow> Some h
      | Some p \<Rightarrow> (case h p of None \<Rightarrow> None
          | Some n \<Rightarrow> hdr_free (h(p := None)) (hdr_next n)))"

definition hdr_insert :: "hdr_store \<Rightarrow> nat \<Rightarrow> nat \<Rightarrow> hdr_store option" where
  "hdr_insert h hdrs hdr = do {
     n \<leftarrow> h hdr;
     g \<leftarrow> h hdrs;
     let h = h(hdr \<mapsto> n\<lparr>hdr_next := hdr_next g\<rparr>);
     g \<leftarrow> h hdrs;
     Some (h(hdrs \<mapsto> g\<lparr>hdr_next := Some hdr\<rparr>)) }"

definition hdr_reset :: "hdr_store \<Rightarrow> nat \<Rightarrow> hdr_store option" where
  "hdr_reset h hdrs = do {
     g \<leftarrow> h hdrs;
     h \<leftarrow> hdr_free h (hdr_next g);
     g \<leftarrow> h hdrs;
     Some (h(hdrs \<mapsto> g\<lparr>hdr_next := None\<rparr>)) }"

section \<open>The list of headers\<close>

type_synonym hdr = "string \<times> string"

definition hdr_pair :: "mem \<Rightarrow> mem \<Rightarrow> hdr option" where
  "hdr_pair key val = do {
     k \<leftarrow> hdr_field HDR_KEYSZ (Some key);
     v \<leftarrow> hdr_field HDR_VALSZ (Some val);
     Some (cstr k, cstr v) }"

definition hdrs_insert :: "hdr list \<Rightarrow> hdr \<Rightarrow> hdr list" where
  "hdrs_insert hdrs hdr = hdr # hdrs"

definition hdrs_reset :: "hdr list \<Rightarrow> hdr list" where
  "hdrs_reset hdrs = []"

definition hdr_ok :: "hdr \<Rightarrow> bool" where
  "hdr_ok kv \<longleftrightarrow> no_nul (fst kv) \<and> length (fst kv) \<le> HDR_KEYSZ
     \<and> no_nul (snd kv) \<and> length (snd kv) \<le> HDR_VALSZ"

lemma hdr_field_Some:
  "hdr_field n src = Some m \<Longrightarrow> is_cstr m \<and> length (cstr m) \<le> n \<and> length m \<le> n + 1"
  by (auto simp: hdr_field_def is_cstr_def cstr_def split: option.splits dest: strncpy0_Some)

lemma hdr_field_cstr:
  assumes "is_cstr m"
  shows "\<exists>d. hdr_field n (Some m) = Some d \<and> cstr d = take n (cstr m) \<and> is_cstr d"
proof -
  obtain r where m: "m = cstr m @ NUL # r" using assms by (rule is_cstr_split)
  define s where "s = cstr m"
  have ms: "m = s @ NUL # r" and nul: "no_nul s" using m by (simp_all add: s_def)
  have "takeWhile (\<lambda>c. c \<noteq> NUL) (take n m) = take n s"
    using nul by (cases "n \<le> length s") (auto simp: ms take_Cons' takeWhile_append no_nul_def dest: in_set_takeD)
  moreover have "length (take n s) = n \<or> length (take n s) < length m" by (auto simp: ms)
  ultimately have "cstrn_at m 0 n = Some (take n s)" by (simp add: cstrn_at_def)
  with nul show ?thesis
    by (simp add: hdr_field_def strncpy0_def flip: s_def)
qed

lemma hdr_pair_cstr [mem_simps]:
  assumes "is_cstr k" "is_cstr v"
  shows "hdr_pair k v = Some (take HDR_KEYSZ (cstr k), take HDR_VALSZ (cstr v))"
  using hdr_field_cstr [OF assms(1), of HDR_KEYSZ] hdr_field_cstr [OF assms(2), of HDR_VALSZ]
  by (auto simp: hdr_pair_def)

lemma hdr_pair_ok: "hdr_pair k v = Some kv \<Longrightarrow> hdr_ok kv"
  by (auto simp: hdr_pair_def hdr_ok_def bind_eq_Some_conv dest!: hdr_field_Some)

section \<open>The contract\<close>

text \<open>
  \<open>repr s ps xs\<close>: the state \<open>s\<close> holds the headers \<open>xs\<close>, in the nodes at \<open>ps\<close>. \<open>add\<close> builds a
  header from a key and a value and puts it in front; it gets the address of the new node, which
  must be \<open>fresh\<close>. \<open>clear\<close> empties the list, and its nodes may be given out again.
\<close>

locale hdr_list =
  fixes repr :: "'s \<Rightarrow> nat list \<Rightarrow> hdr list \<Rightarrow> bool"
    and fresh :: "'s \<Rightarrow> nat \<Rightarrow> bool"
    and add :: "'s \<Rightarrow> nat \<Rightarrow> mem \<Rightarrow> mem \<Rightarrow> 's option"
    and clear :: "'s \<Rightarrow> 's option"
  assumes add_front:
      "repr s ps xs \<Longrightarrow> fresh s p \<Longrightarrow> is_cstr k \<Longrightarrow> is_cstr v \<Longrightarrow>
         \<exists>s' kv. add s p k v = Some s' \<and> hdr_pair k v = Some kv \<and> repr s' (p # ps) (hdrs_insert xs kv)
           \<and> (\<forall>q. fresh s' q \<longleftrightarrow> fresh s q \<and> q \<noteq> p)"
    and clear_empty:
      "repr s ps xs \<Longrightarrow> \<exists>s'. clear s = Some s' \<and> repr s' [] (hdrs_reset xs)
         \<and> (\<forall>q. fresh s' q \<longleftrightarrow> fresh s q \<or> q \<in> set ps)"
begin

text \<open>A run of insertions, and the headers it leaves: the last one inserted comes first.\<close>

lemma add_run:
  assumes "repr s ps xs" "distinct (map fst es)" "\<forall>(p, k, v) \<in> set es. fresh s p \<and> is_cstr k \<and> is_cstr v"
  shows "\<exists>s'. foldl (\<lambda>so (p, k, v). Option.bind so (\<lambda>s. add s p k v)) (Some s) es = Some s'
    \<and> repr s' (rev (map fst es) @ ps) (rev (map (\<lambda>(p, k, v). the (hdr_pair k v)) es) @ xs)
    \<and> (\<forall>q. fresh s' q \<longleftrightarrow> fresh s q \<and> q \<notin> fst ` set es)"
  using assms
proof (induction es arbitrary: s ps xs)
  case Nil
  then show ?case by simp
next
  case (Cons e es)
  obtain p k v where e: "e = (p, k, v)" by (cases e)
  with Cons.prems obtain s' kv where s': "add s p k v = Some s'" "hdr_pair k v = Some kv"
    "repr s' (p # ps) (hdrs_insert xs kv)" "\<forall>q. fresh s' q \<longleftrightarrow> fresh s q \<and> q \<noteq> p"
    using add_front [of s ps xs p k v] by auto
  have "\<forall>(q, k, v) \<in> set es. fresh s' q \<and> is_cstr k \<and> is_cstr v"
    using Cons.prems s'(4) by (force simp: e)
  with Cons.IH [OF s'(3)] Cons.prems(2) s' show ?case
    by (auto simp: hdrs_insert_def e)
qed

text \<open>Whatever was inserted, clearing leaves nothing, and what is fresh afterwards was so before.\<close>

lemma add_clear:
  assumes "repr s [] []" "distinct (map fst es)" "\<forall>(p, k, v) \<in> set es. fresh s p \<and> is_cstr k \<and> is_cstr v"
    and "foldl (\<lambda>so (p, k, v). Option.bind so (\<lambda>s. add s p k v)) (Some s) es = Some s'"
  shows "\<exists>s''. clear s' = Some s'' \<and> repr s'' [] [] \<and> (\<forall>q. fresh s'' q \<longleftrightarrow> fresh s q)"
proof -
  have r: "repr s' (rev (map fst es)) (rev (map (\<lambda>(p, k, v). the (hdr_pair k v)) es))"
    and f: "\<forall>q. fresh s' q \<longleftrightarrow> fresh s q \<and> q \<notin> fst ` set es"
    using add_run [OF assms(1-3)] assms(4) by auto
  obtain s'' where "clear s' = Some s''" "repr s'' [] []"
      "\<forall>q. fresh s'' q \<longleftrightarrow> fresh s' q \<or> q \<in> fst ` set es"
    using clear_empty [OF r] by (auto simp: hdrs_reset_def)
  with f assms(3) show ?thesis by force
qed

end

section \<open>The linked list implements the list\<close>

text \<open>
  \<open>chain h q ps\<close>: following \<open>next\<close> from \<open>q\<close> visits exactly the nodes at \<open>ps\<close>, which are
  distinct, and ends in \<open>NULL\<close>.
\<close>

fun chain :: "hdr_store \<Rightarrow> nat option \<Rightarrow> nat list \<Rightarrow> bool" where
  "chain h q [] \<longleftrightarrow> q = None"
| "chain h q (p # ps) \<longleftrightarrow>
     q = Some p \<and> p \<notin> set ps \<and> (case h p of None \<Rightarrow> False | Some n \<Rightarrow> chain h (hdr_next n) ps)"

definition node_pair :: "hdr_node \<Rightarrow> hdr" where
  "node_pair n = (cstr (hdr_key n), cstr (hdr_val n))"

text \<open>The header list \<open>xs\<close> hangs off the guard node at \<open>g\<close>.\<close>

definition hdrs_at :: "hdr_store \<Rightarrow> nat \<Rightarrow> nat list \<Rightarrow> hdr list \<Rightarrow> bool" where
  "hdrs_at h g ps xs \<longleftrightarrow>
     (\<exists>gn. h g = Some gn \<and> g \<notin> set ps \<and> chain h (hdr_next gn) ps)
     \<and> map (\<lambda>p. map_option node_pair (h p)) ps = map Some xs"

lemma chain_cong:
  "\<forall>p \<in> set ps. h p = h' p \<Longrightarrow> chain h q ps = chain h' q ps"
  by (induction ps arbitrary: q) (auto split: option.splits)

lemma chain_distinct: "chain h q ps \<Longrightarrow> distinct ps \<and> set ps \<subseteq> dom h"
  by (induction ps arbitrary: q) (auto split: option.splits)

text \<open>\<open>hdr_free\<close> on a chain terminates, frees every node of it once and no other node.\<close>

lemma hdr_free_chain:
  "chain h q ps \<Longrightarrow> hdr_free h q = Some (h |` (- set ps))"
proof (induction ps arbitrary: h q)
  case Nil
  then show ?case by (simp add: hdr_free.simps)
next
  case (Cons p ps)
  then obtain n where n: "q = Some p" "p \<notin> set ps" "h p = Some n" "chain h (hdr_next n) ps"
    by (auto split: option.splits)
  then have "chain (h(p := None)) (hdr_next n) ps"
    by (subst chain_cong [of _ _ h]) auto
  then have "hdr_free (h(p := None)) (hdr_next n) = Some ((h(p := None)) |` (- set ps))"
    by (rule Cons.IH)
  moreover have "(h(p := None)) |` (- set ps) = h |` (- set (p # ps))"
    by (auto simp: restrict_map_def fun_eq_iff)
  ultimately show ?case using n by (subst hdr_free.simps) simp
qed

lemma hdr_new_insert:
  assumes "hdrs_at h g ps xs" "p \<notin> dom h" "hdr_field HDR_KEYSZ (Some k) = Some mk"
    "hdr_field HDR_VALSZ (Some v) = Some mv"
  shows "\<exists>h'. Option.bind (hdr_new h p (Some k) (Some v)) (\<lambda>h. hdr_insert h g p) = Some h'
    \<and> hdrs_at h' g (p # ps) ((cstr mk, cstr mv) # xs) \<and> dom h' = insert p (dom h)"
proof -
  from assms(1) obtain gn where g: "h g = Some gn" "g \<notin> set ps" "chain h (hdr_next gn) ps"
    by (auto simp: hdrs_at_def)
  have pg: "p \<noteq> g" "p \<notin> set ps" using assms(2) g chain_distinct by blast+
  let ?h = "h(p \<mapsto> \<lparr>hdr_key = mk, hdr_val = mv, hdr_next = hdr_next gn\<rparr>,
              g \<mapsto> gn\<lparr>hdr_next := Some p\<rparr>)"
  have "Option.bind (hdr_new h p (Some k) (Some v)) (\<lambda>h. hdr_insert h g p) = Some ?h"
    using assms(3,4) g pg by (simp add: hdr_new_def hdr_insert_def)
  moreover have "chain ?h (hdr_next gn) ps"
    using g pg by (subst chain_cong [of _ _ h]) auto
  moreover have "map (\<lambda>p. map_option node_pair (?h p)) ps
      = map (\<lambda>p. map_option node_pair (h p)) ps"
    by (rule map_cong) (use g pg in auto)
  then have "map (\<lambda>p. map_option node_pair (?h p)) ps = map Some xs"
    using assms(1) unfolding hdrs_at_def by (rule trans [OF _ conjunct2])
  ultimately show ?thesis
    using g pg by (auto simp: hdrs_at_def node_pair_def)
qed

lemma hdr_reset_chain:
  assumes "hdrs_at h g ps xs"
  shows "\<exists>h'. hdr_reset h g = Some h' \<and> hdrs_at h' g [] [] \<and> dom h' = dom h - set ps"
proof -
  from assms obtain gn where g: "h g = Some gn" "g \<notin> set ps" "chain h (hdr_next gn) ps"
    by (auto simp: hdrs_at_def)
  let ?h = "(h |` (- set ps))(g \<mapsto> gn\<lparr>hdr_next := None\<rparr>)"
  have "hdr_reset h g = Some ?h"
    using g hdr_free_chain [OF g(3)] by (simp add: hdr_reset_def)
  moreover have "dom ?h = dom h - set ps" using g by (auto split: if_splits)
  ultimately show ?thesis by (auto simp: hdrs_at_def)
qed

text \<open>A header list of the program: a store, its guard node, and the nodes after it.\<close>

type_synonym hdr_obj = "hdr_store \<times> nat"

definition obj_repr :: "hdr_obj \<Rightarrow> nat list \<Rightarrow> hdr list \<Rightarrow> bool" where
  "obj_repr s ps xs \<longleftrightarrow> hdrs_at (fst s) (snd s) ps xs"

definition obj_fresh :: "hdr_obj \<Rightarrow> nat \<Rightarrow> bool" where
  "obj_fresh s p \<longleftrightarrow> p \<notin> dom (fst s)"

definition obj_add :: "hdr_obj \<Rightarrow> nat \<Rightarrow> mem \<Rightarrow> mem \<Rightarrow> hdr_obj option" where
  "obj_add s p k v = do {
     h \<leftarrow> hdr_new (fst s) p (Some k) (Some v);
     h \<leftarrow> hdr_insert h (snd s) p;
     Some (h, snd s) }"

definition obj_clear :: "hdr_obj \<Rightarrow> hdr_obj option" where
  "obj_clear s = do { h \<leftarrow> hdr_reset (fst s) (snd s); Some (h, snd s) }"

interpretation hl: hdr_list obj_repr obj_fresh obj_add obj_clear
proof
  fix s :: hdr_obj and ps xs p k v
  assume a: "obj_repr s ps xs" "obj_fresh s p" "is_cstr k" "is_cstr v"
  then obtain mk mv where m: "hdrs_at (fst s) (snd s) ps xs"
    "hdr_field HDR_KEYSZ (Some k) = Some mk" "hdr_field HDR_VALSZ (Some v) = Some mv"
    by (auto simp: obj_repr_def dest!: hdr_field_cstr [of k HDR_KEYSZ] hdr_field_cstr [of v HDR_VALSZ])
  from hdr_new_insert [OF m(1) _ m(2,3), of p] a(2) obtain h' where
    h': "Option.bind (hdr_new (fst s) p (Some k) (Some v)) (\<lambda>h. hdr_insert h (snd s) p) = Some h'"
    "hdrs_at h' (snd s) (p # ps) ((cstr mk, cstr mv) # xs)" "dom h' = insert p (dom (fst s))"
    by (auto simp: obj_fresh_def)
  then have "obj_add s p k v = Some (h', snd s)"
    by (auto simp: obj_add_def bind_eq_Some_conv)
  moreover have "hdr_pair k v = Some (cstr mk, cstr mv)" using m by (simp add: hdr_pair_def)
  ultimately show "\<exists>s' kv. obj_add s p k v = Some s' \<and> hdr_pair k v = Some kv
      \<and> obj_repr s' (p # ps) (hdrs_insert xs kv) \<and> (\<forall>q. obj_fresh s' q \<longleftrightarrow> obj_fresh s q \<and> q \<noteq> p)"
    using h' by (auto simp: obj_repr_def obj_fresh_def hdrs_insert_def)
next
  fix s :: hdr_obj and ps xs
  assume "obj_repr s ps xs"
  then have "hdrs_at (fst s) (snd s) ps xs" by (simp add: obj_repr_def)
  from hdr_reset_chain [OF this] show "\<exists>s'. obj_clear s = Some s' \<and> obj_repr s' [] (hdrs_reset xs)
      \<and> (\<forall>q. obj_fresh s' q \<longleftrightarrow> obj_fresh s q \<or> q \<in> set ps)"
    by (auto simp: obj_clear_def obj_repr_def obj_fresh_def hdrs_reset_def)
qed

text \<open>A new list: the guard node alone.\<close>

lemma guard_repr: "\<exists>h. hdr_new Map.empty g None None = Some h \<and> obj_repr (h, g) [] [] \<and> dom h = {g}"
  by (auto simp: hdr_new_def hdr_field_def obj_repr_def hdrs_at_def split: if_splits)

definition obj_add_all :: "(nat \<times> mem \<times> mem) list \<Rightarrow> hdr_obj \<Rightarrow> hdr_obj option" where
  "obj_add_all es s = foldl (\<lambda>so (p, k, v). Option.bind so (\<lambda>s. obj_add s p k v)) (Some s) es"

end
