(* ===== verification/Request.thy ===== *)
theory Request
  imports Buffer Header
begin

text \<open>
  \<open>request.c\<close>: the request record and the incremental request parser (the printer is in
  \<open>Request_Pack\<close>).

  The parser works on a buffer of whole lines with a cursor and is modelled step by step: the two
  cursor macros, the end-of-line test (which looks at the byte before the cursor), the request
  line, one header line, and the loop over header lines. Its status codes are the negative return
  values of the code; undefined behaviour is \<open>None\<close>.
\<close>

definition REQ_URISZ :: nat where
  "REQ_URISZ = 2048"

definition REQ_VERSZ :: nat where
  "REQ_VERSZ = 32"

definition REQ_HOSTSZ :: nat where
  "REQ_HOSTSZ = 256"

datatype http_method = M_GET | M_HEAD | M_POST | M_OTHER

datatype http_scheme = HTTP | HTTPS

datatype req_phase_t = REQ_START | REQ_HEADER | REQ_BODY | REQ_DONE | REQ_ABORT

datatype req_kind = REQ_STATIC | REQ_DYNAMIC

text \<open>
  Strings are their arrays, since the parser can reach bytes an earlier request left in \<open>uri\<close>.
  \<open>params\<close> is the offset of the parameters in \<open>uri\<close>. The address and the port are
  uninitialised until the connection is accepted.
\<close>

record req_t =
  req_addr :: mem
  req_port :: "int option"
  req_meth :: http_method
  req_version :: mem
  req_scheme :: http_scheme
  req_uri :: mem
  req_params :: "nat option"
  req_host :: mem
  req_clen :: int
  req_alive :: bool
  req_hdrs :: "hdr list"
  req_rsize :: int
  req_phase :: req_phase_t
  req_last_buf :: buf_t
  req_type :: req_kind

text \<open>\<open>s[0] = 0\<close> on an array that has room for it.\<close>

definition clear0 :: "mem \<Rightarrow> mem" where
  "clear0 m = NUL # drop 1 m"

definition req_reset :: "req_t \<Rightarrow> req_t" where
  "req_reset req = req\<lparr>
     req_meth := M_OTHER,
     req_uri := clear0 (req_uri req),
     req_params := None,
     req_version := clear0 (req_version req),
     req_host := clear0 (req_host req),
     req_clen := - 1,
     req_rsize := 0,
     req_alive := True,
     req_hdrs := hdrs_reset (req_hdrs req),
     req_phase := REQ_START,
     req_type := REQ_STATIC\<rparr>"

definition req_new :: req_t where
  "req_new = req_reset \<lparr>
     req_addr = [], req_port = None, req_meth = M_OTHER, req_version = [],
     req_scheme = HTTP, req_uri = [], req_params = None, req_host = [],
     req_clen = 0, req_alive = False, req_hdrs = [], req_rsize = 0,
     req_phase = REQ_START, req_last_buf = buf_new, req_type = REQ_STATIC\<rparr>"

definition req_method :: "req_t \<Rightarrow> string" where
  "req_method req =
     (case req_meth req of
        M_GET \<Rightarrow> ''GET'' | M_HEAD \<Rightarrow> ''HEAD'' | M_POST \<Rightarrow> ''POST'' | M_OTHER \<Rightarrow> ''OTHER'')"

section \<open>The cursor\<close>

text \<open>White space other than the line feed.\<close>

definition issp :: "char \<Rightarrow> bool" where
  "issp c \<longleftrightarrow> c = SP \<or> c = TAB \<or> c = CR \<or> c = VT \<or> c = FF"

text \<open>\<open>while (i < end && P(m[i])) i++\<close>.\<close>

function scan :: "(char \<Rightarrow> bool) \<Rightarrow> mem \<Rightarrow> nat \<Rightarrow> nat \<Rightarrow> nat option" where
  "scan P m e i =
     (if i < e then
        (case mem_get m i of None \<Rightarrow> None
         | Some c \<Rightarrow> if P c then scan P m e (Suc i) else Some i)
      else Some i)"
  by pat_completeness auto
termination
  by (relation "measure (\<lambda>(P, m, e, i). e - i)") auto

declare scan.simps [simp del]

definition buf_e :: "buf_t \<Rightarrow> nat" where
  "buf_e buf = nat (buf_end buf)"

definition proceed_inline :: "buf_t \<Rightarrow> (nat \<times> buf_t) option" where
  "proceed_inline buf = do {
     p \<leftarrow> scan issp (data buf) (buf_e buf) (data_p buf);
     d \<leftarrow> scan (\<lambda>c. \<not> isspace c) (data buf) (buf_e buf) p;
     Some (p, buf\<lparr>data_p := d\<rparr>) }"

definition proceed_line :: "buf_t \<Rightarrow> (nat \<times> buf_t) option" where
  "proceed_line buf = do {
     p \<leftarrow> scan issp (data buf) (buf_e buf) (data_p buf);
     d \<leftarrow> scan (\<lambda>c. c \<noteq> LF) (data buf) (buf_e buf) p;
     Some (p, buf\<lparr>data_p := d\<rparr>) }"

text \<open>
  \<open>p == data_p && p < end && p[-1] == '\r' && p[0] == '\n'\<close>; at the base of the array
  \<open>p[-1]\<close> is outside it.
\<close>

definition eol :: "nat \<Rightarrow> buf_t \<Rightarrow> bool option" where
  "eol p buf =
     (if p = data_p buf \<and> int p < buf_end buf then
        (if p = 0 then None
         else do {
           c \<leftarrow> mem_get (data buf) (p - 1);
           if c \<noteq> CR then Some False
           else do { d \<leftarrow> mem_get (data buf) p; Some (d = LF) } })
      else Some False)"

section \<open>The request line\<close>

definition issp_at :: "mem \<Rightarrow> nat \<Rightarrow> bool option" where
  "issp_at m i = do { c \<leftarrow> mem_get m i; Some (issp c) }"

text \<open>
  Which method is it? The token is compared on its first bytes only; the byte after them in the
  buffer must be white space of the line.
\<close>

definition parse_method :: "mem \<Rightarrow> mem \<Rightarrow> nat \<Rightarrow> http_method option option" where
  "parse_method tok m p = do {
     g \<leftarrow> strneq tolower tok 0 (lit ''GET'') 0 3;
     g \<leftarrow> (if g then issp_at m (p + 3) else Some False);
     if g then Some (Some M_GET)
     else do {
       h \<leftarrow> strneq tolower tok 0 (lit ''HEAD'') 0 4;
       h \<leftarrow> (if h then issp_at m (p + 4) else Some False);
       if h then Some (Some M_HEAD)
       else do {
         q \<leftarrow> strneq tolower tok 0 (lit ''POST'') 0 4;
         q \<leftarrow> (if q then issp_at m (p + 4) else Some False);
         Some (if q then Some M_POST else None) } } }"

text \<open>
  \<open>strcpy0(uri, uri + j)\<close>: a copy within one array. Where the string is not shorter than the
  distance the copied objects overlap, which \<open>strcat\<close> does not allow.
\<close>

definition strcpy0_self :: "nat \<Rightarrow> mem \<Rightarrow> nat \<Rightarrow> mem option" where
  "strcpy0_self cap d j = do {
     s \<leftarrow> cstr_at d j;
     if j \<le> length s then None else str_put cap s d }"

text \<open>The absolute form: only a URI that is exactly the scheme prefix takes this path.\<close>

definition parse_abs_uri :: "mem \<Rightarrow> mem \<Rightarrow> (mem \<times> mem) option" where
  "parse_abs_uri uri host = do {
     h \<leftarrow> strcaseeq uri (lit ''http://'');
     host_start \<leftarrow>
       (if h then Some (Some 8)
        else do { hs \<leftarrow> strcaseeq uri (lit ''https://''); Some (if hs then Some 9 else None) });
     host_end \<leftarrow> (case host_start of None \<Rightarrow> Some None | Some i \<Rightarrow> strchr uri i CHR ''/'');
     (case (host_start, host_end) of
        (Some i, Some j) \<Rightarrow> do {
          host \<leftarrow> strncpy0 (REQ_HOSTSZ + 1) host uri i (j - i);
          uri \<leftarrow> strcpy0_self (REQ_URISZ + 1) uri j;
          Some (uri, host) }
      | _ \<Rightarrow> Some (uri, host)) }"

definition parse_uri :: "req_t \<Rightarrow> mem \<Rightarrow> nat \<Rightarrow> nat \<Rightarrow> req_t option" where
  "parse_uri req m p n = do {
     uri \<leftarrow> mem_put (REQ_URISZ + 1) 0 [NUL] (req_uri req);
     uri \<leftarrow> strncpy0 (REQ_URISZ + 1) uri m p (min REQ_URISZ n);
     (uri, host) \<leftarrow> parse_abs_uri uri (req_host req);
     dyn \<leftarrow> strstartswith uri (lit ''/cgi/'');
     let req = req\<lparr>req_host := host, req_type := (if dyn then REQ_DYNAMIC else req_type req)\<rparr>;
     params \<leftarrow> strchr uri 0 CHR ''?'';
     (case params of
        None \<Rightarrow> Some (req\<lparr>req_uri := uri, req_params := None\<rparr>)
      | Some k \<Rightarrow> do {
          uri \<leftarrow> mem_put (REQ_URISZ + 1) k [NUL] uri;
          Some (req\<lparr>req_uri := uri, req_params := Some (Suc k)\<rparr>) }) }"

text \<open>
  Phase START. The result is \<open>Some rc\<close> in its first component when the parser returns here, and
  \<open>None\<close> when it goes on.
\<close>

definition abort_with :: "int \<Rightarrow> req_t \<Rightarrow> buf_t \<Rightarrow> int option \<times> req_t \<times> buf_t" where
  "abort_with rc req buf = (Some rc, req\<lparr>req_phase := REQ_ABORT\<rparr>, buf)"

definition parse_start :: "req_t \<Rightarrow> buf_t \<Rightarrow> (int option \<times> req_t \<times> buf_t) option" where
  "parse_start req buf = do {
     (p, buf) \<leftarrow> proceed_inline buf;
     tok \<leftarrow> strncpy0 9 [] (data buf) p (min 8 (data_p buf - p));
     t \<leftarrow> cstr_at tok 0;
     if length t = 0 then Some (abort_with (- 400) req buf)
     else do {
       mo \<leftarrow> parse_method tok (data buf) p;
       (case mo of
          None \<Rightarrow> Some (abort_with (- 501) req buf)
        | Some me \<Rightarrow> do {
            let req = req\<lparr>req_meth := me\<rparr>;
            (p, buf) \<leftarrow> proceed_inline buf;
            req \<leftarrow> parse_uri req (data buf) p (data_p buf - p);
            (p, buf) \<leftarrow> proceed_inline buf;
            ver \<leftarrow> strncpy0 (REQ_VERSZ + 1) (req_version req) (data buf) p
                     (min REQ_VERSZ (data_p buf - p));
            let req = req\<lparr>req_version := ver\<rparr>;
            (p, buf) \<leftarrow> proceed_inline buf;
            e \<leftarrow> eol p buf;
            if \<not> e then Some (abort_with (- 400) req buf)
            else Some (None, req\<lparr>req_phase := REQ_HEADER\<rparr>,
                       buf\<lparr>data_p := Suc (data_p buf)\<rparr>) }) } }"

section \<open>Header lines\<close>

datatype hdr_step = Ret int | Stop | Next

text \<open>What a header does: the four comparisons with the header names, in the code's order.\<close>

definition apply_header :: "req_t \<Rightarrow> mem \<Rightarrow> mem \<Rightarrow> (hdr_step \<times> req_t) option" where
  "apply_header req key val = do {
     is_host \<leftarrow> strcaseeq key (lit ''Host'');
     if is_host then do {
       h \<leftarrow> strcpy0 (REQ_HOSTSZ + 1) (req_host req) val 0;
       Some (Next, req\<lparr>req_host := h\<rparr>) }
     else do {
       is_clen \<leftarrow> strcaseeq key (lit ''Content-Length'');
       if is_clen then do {
         num \<leftarrow> isnum val;
         v \<leftarrow> cstr_at val 0;
         if num then Some (Next, req\<lparr>req_clen := atoi v\<rparr>)
         else Some (Ret (- 400), req\<lparr>req_phase := REQ_ABORT\<rparr>) }
       else do {
         is_conn \<leftarrow> strcaseeq key (lit ''Connection'');
         if is_conn then do {
           close \<leftarrow> strcaseeq val (lit ''close'');
           Some (Next, if close then req\<lparr>req_alive := False\<rparr> else req) }
         else do {
           kv \<leftarrow> hdr_pair key val;
           Some (Next, req\<lparr>req_hdrs := hdrs_insert (req_hdrs req) kv\<rparr>) } } } }"

text \<open>The blank line: the body begins, and its length must be known for a POST.\<close>

definition finish_header :: "req_t \<Rightarrow> hdr_step \<times> req_t" where
  "finish_header req =
     (let req = req\<lparr>req_phase := REQ_BODY\<rparr> in
      if req_clen req < 0 then
        (if req_meth req = M_POST then (Ret (- 411), req\<lparr>req_phase := REQ_ABORT\<rparr>)
         else (Stop, req\<lparr>req_clen := 0, req_rsize := 0\<rparr>))
      else (Stop, req\<lparr>req_rsize := req_clen req\<rparr>))"

definition header_line :: "req_t \<Rightarrow> buf_t \<Rightarrow> (hdr_step \<times> req_t \<times> buf_t) option" where
  "header_line req buf = do {
     (p, buf) \<leftarrow> proceed_line buf;
     e \<leftarrow> eol p buf;
     if e then
       (let (st, req) = finish_header req
        in Some (st, req, buf\<lparr>data_p := Suc (data_p buf)\<rparr>))
     else do {
       q \<leftarrow> scan (\<lambda>c. c \<noteq> CHR '':'') (data buf) (data_p buf) p;
       colon \<leftarrow> (if q = p then Some False
                 else do { c \<leftarrow> mem_get (data buf) q; Some (c = CHR '':'') });
       if \<not> colon then Some (Ret (- 400), req\<lparr>req_phase := REQ_ABORT\<rparr>, buf)
       else do {
         key \<leftarrow> strncpy0 (HDR_KEYSZ + 1) [] (data buf) p (min HDR_KEYSZ (q - p));
         val \<leftarrow> strncpy0 (HDR_VALSZ + 1) [] (data buf) (q + 1)
                  (min HDR_VALSZ (data_p buf - q - 1));
         key \<leftarrow> strstrip key;
         val \<leftarrow> strstrip val;
         (st, req) \<leftarrow> apply_header req key val;
         Some (st, req, buf) } } }"

lemma scan_bounds: "scan P m e i = Some j \<Longrightarrow> i \<le> j \<and> (i \<le> e \<longrightarrow> j \<le> e)"
proof (induction P m e i rule: scan.induct)
  case (1 P m e i)
  show ?case
  proof (cases "i < e \<and> (\<exists>c. mem_get m i = Some c \<and> P c)")
    case True
    with "1.prems" have "scan P m e (Suc i) = Some j" by (subst (asm) scan.simps) auto
    with True "1.IH" show ?thesis by fastforce
  next
    case False
    with "1.prems" have "j = i"
      by (subst (asm) scan.simps) (auto split: if_splits option.splits)
    then show ?thesis by simp
  qed
qed

lemma proceed_frame:
  "proceed_line buf = Some (p, buf') \<Longrightarrow>
     data_p buf \<le> p \<and> p \<le> data_p buf' \<and> sz buf' = sz buf \<and> data buf' = data buf"
  "proceed_inline buf = Some (p, buf') \<Longrightarrow>
     data_p buf \<le> p \<and> p \<le> data_p buf' \<and> sz buf' = sz buf \<and> data buf' = data buf"
  by (auto simp: proceed_line_def proceed_inline_def bind_eq_Some_conv
      dest!: scan_bounds [THEN conjunct1])

lemma header_line_frame:
  "header_line req buf = Some (st, req', buf') \<Longrightarrow>
     data_p buf \<le> data_p buf' \<and> sz buf' = sz buf \<and> data buf' = data buf"
  unfolding header_line_def
  by (simp only: bind_eq_Some_conv split_paired_Ex prod.case split: if_splits prod.splits)
    (auto split: prod.splits dest: proceed_frame)

function parse_headers :: "req_t \<Rightarrow> buf_t \<Rightarrow> (int option \<times> req_t \<times> buf_t) option" where
  "parse_headers req buf =
     (if int (data_p buf) < buf_end buf then
        (case header_line req buf of
           None \<Rightarrow> None
         | Some (st, req', buf') \<Rightarrow>
             (case st of
                Ret rc \<Rightarrow> Some (Some rc, req', buf')
              | Stop \<Rightarrow> Some (None, req', buf')
              | Next \<Rightarrow> parse_headers req' (buf'\<lparr>data_p := Suc (data_p buf')\<rparr>)))
      else Some (None, req, buf))"
  by pat_completeness auto
termination
  by (relation "measure (\<lambda>(req, buf). nat (sz buf) - data_p buf)")
    (auto simp: buf_end_def dest!: header_line_frame)

declare parse_headers.simps [simp del]

definition req_parse :: "req_t \<Rightarrow> buf_t \<Rightarrow> (int \<times> req_t \<times> buf_t) option" where
  "req_parse req buf = do {
     (r, req, buf) \<leftarrow>
       (if req_phase req = REQ_START then parse_start req buf else Some (None, req, buf));
     (case r of
        Some rc \<Rightarrow> Some (rc, req, buf)
      | None \<Rightarrow> do {
          (r, req, buf) \<leftarrow>
            (if req_phase req = REQ_HEADER then parse_headers req buf else Some (None, req, buf));
          Some (case r of Some rc \<Rightarrow> rc | None \<Rightarrow> int (data_p buf), req, buf) }) }"

end
