(* ===== verification/Response.thy ===== *)
theory Response
  imports Request OS
begin

text \<open>
  \<open>response.c\<close> and \<open>config.h\<close>: the response record, the status titles and error pages, the
  lookup of a static file (\<open>resp_mmap\<close>, \<open>resp_build\<close>) and the serialisation of the response
  header (\<open>resp_hdr\<close>). The file system is a parameter (\<open>os_stat\<close>, \<open>os_open\<close>,
  \<open>os_mmap\<close>).
\<close>

record conf_t =
  conf_http_port :: int
  conf_https_port :: int
  conf_log :: mem
  conf_lock :: mem
  conf_www :: mem
  conf_cgi :: mem
  conf_prv :: mem
  conf_crt :: mem

definition VERSION :: string where
  "VERSION = ''Liso/1.0''"

datatype resp_phase_t = RESP_READY | RESP_HEADER | RESP_BODY | RESP_ABORT | RESP_DISABLED

record resp_t =
  resp_phase :: resp_phase_t
  resp_status :: int
  resp_clen :: int
  resp_alive :: bool
  resp_hdrs :: "hdr list"
  resp_mmbuf :: "buf_t option"

section \<open>Titles and error pages\<close>

definition page_of :: "string list \<Rightarrow> string" where
  "page_of ls = concat (map (\<lambda>l. l @ CRLF) ls)"

definition resp_title :: "int \<Rightarrow> string" where
  "resp_title code =
     (if code = 200 then ''200 OK''
      else if code = 400 then ''400 Bad Request''
      else if code = 404 then ''404 Not Found''
      else if code = 411 then ''411 Length Required''
      else if code = 500 then ''500 Internal Server Error''
      else if code = 501 then ''501 Not Implemented''
      else if code = 503 then ''503 Service Unavailable''
      else ''500 Internal Server Error'')"

definition msg400 :: string where
  "msg400 = page_of
    [''<html>'',
     ''<head><title>400 Bad Request</title></head>'',
     ''<body bgcolor=\"white\">'',
     ''<center><h1>400 Bad Request</h1></center>'',
     ''</body>'',
     ''</html>'']"

definition msg404 :: string where
  "msg404 = page_of
    [''<html>'',
     ''<head><title>404 Not Found</title></head>'',
     ''<body bgcolor=\"white\">'',
     ''<center><h1>404 Not Found</h1></center>'',
     ''</body>'',
     ''</html>'']"

definition msg411 :: string where
  "msg411 = page_of
    [''<html>'',
     ''<head><title>411 Length Required</title></head>'',
     ''<body bgcolor=\"white\">'',
     ''<center><h1>411 Length Required</h1></center>'',
     ''</body>'',
     ''</html>'']"

definition msg500 :: string where
  "msg500 = page_of
    [''<html>'',
     ''<head><title>500 Internal Server Error</title></head>'',
     ''<body bgcolor=\"white\">'',
     ''<center><h1>500 Internal Server Error</h1></center>'',
     ''</body>'',
     ''</html>'']"

definition msg501 :: string where
  "msg501 = page_of
    [''<html>'',
     ''<head><title>501 Not Implemented</title>title></head>head>'',
     ''<body bgcolor=\"white\">'',
     ''<center><h1>501 Not Implemented</h1>h1></center>center>'',
     ''</body>'',
     ''</html>'']"

definition msg503 :: string where
  "msg503 = page_of
    [''<html>'',
     ''<head><title>503 Service Temporarily Unavailable</title>title></head>head>'',
     ''<body bgcolor=\"white\">'',
     ''<center><h1>503 Service Temporarily Unavailable</h1>h1></center>center>'',
     ''</body>'',
     ''</html>'']"

definition resp_msg :: "int \<Rightarrow> string" where
  "resp_msg code =
     (if code = 400 then msg400
      else if code = 404 then msg404
      else if code = 411 then msg411
      else if code = 500 then msg500
      else if code = 501 then msg501
      else if code = 503 then msg503
      else msg500)"

section \<open>The record\<close>

text \<open>\<open>resp_reset\<close> is the new record and the release of the mapping, if there is one.\<close>

definition resp_clear :: "resp_t \<Rightarrow> resp_t" where
  "resp_clear resp = resp\<lparr>
     resp_phase := RESP_READY,
     resp_status := 200,
     resp_clen := 0,
     resp_alive := True,
     resp_mmbuf := None,
     resp_hdrs := hdrs_reset (resp_hdrs resp)\<rparr>"

definition resp_reset :: "resp_t \<Rightarrow> trace \<Rightarrow> resp_t \<times> trace" where
  "resp_reset resp tr = (resp_clear resp, mmbuf_free (resp_mmbuf resp) tr)"

definition resp_free :: "resp_t \<Rightarrow> trace \<Rightarrow> trace" where
  "resp_free resp tr = (if resp_mmbuf resp \<noteq> None then mmbuf_free (resp_mmbuf resp) tr else tr)"

definition resp_new :: resp_t where
  "resp_new = resp_clear \<lparr>
     resp_phase = RESP_READY, resp_status = 0, resp_clen = 0, resp_alive = False,
     resp_hdrs = [], resp_mmbuf = None\<rparr>"

section \<open>Static files\<close>

definition any_suffix :: "mem \<Rightarrow> string list \<Rightarrow> bool option" where
  "any_suffix path sfxs =
     foldr (\<lambda>s rest. do {
       b \<leftarrow> caseendswith (Some path) (Some (lit s));
       if b then Some True else rest }) sfxs (Some False)"

text \<open>\<open>fill_ctype\<close> writes the media type into \<open>ctype\<close>, the value array of a header node.\<close>

definition fill_ctype :: "mem \<Rightarrow> mem \<Rightarrow> mem option" where
  "fill_ctype path ctype = do {
     html \<leftarrow> any_suffix path [''.html'', ''.htm''];
     if html then strcpy0 (HDR_VALSZ + 1) ctype (lit ''text/html'') 0
     else do {
     css \<leftarrow> any_suffix path [''.css''];
     if css then strcpy0 (HDR_VALSZ + 1) ctype (lit ''text/css'') 0
     else do {
     js \<leftarrow> any_suffix path [''.js''];
     if js then strcpy0 (HDR_VALSZ + 1) ctype (lit ''application/javascript'') 0
     else do {
     png \<leftarrow> any_suffix path [''png''];
     if png then strcpy0 (HDR_VALSZ + 1) ctype (lit ''image/png'') 0
     else do {
     jpg \<leftarrow> any_suffix path [''.jpg'', ''.jpeg''];
     if jpg then strcpy0 (HDR_VALSZ + 1) ctype (lit ''image/jpeg'') 0
     else do {
     gif \<leftarrow> any_suffix path [''.gif''];
     if gif then strcpy0 (HDR_VALSZ + 1) ctype (lit ''image/gif'') 0
     else strcpy0 (HDR_VALSZ + 1) ctype (lit ''text/plain'') 0 } } } } } }"

text \<open>
  \<open>resp_mmap\<close>: the size of the file, or -1. \<open>st\<close> is the caller's \<open>struct stat\<close>, \<open>None\<close> while
  it is not filled in. The descriptor is closed only when the mapping succeeds.
\<close>

definition resp_mmap ::
  "os \<Rightarrow> resp_t \<Rightarrow> mem \<Rightarrow> stat_t option \<Rightarrow> trace \<Rightarrow> (int \<times> resp_t \<times> stat_t option \<times> trace) option" where
  "resp_mmap os resp path st tr = do {
     p \<leftarrow> cstr_at path 0;
     (case os_stat os tr p of
        None \<Rightarrow> Some (- 1, resp, st, EvStat p # tr)
      | Some s \<Rightarrow>
          (let tr = EvStat p # tr in
           if st_isdir s then Some (- 1, resp, Some s, tr)
           else
             (let o1 = os_open os tr p; tr = EvOpen p o1 # tr in
              case o1 of
                None \<Rightarrow> Some (- 1, resp, Some s, tr)
              | Some fd \<Rightarrow>
                  (let mm = mmbuf_new (os_mmap os tr) fd (st_size s);
                       tr = EvMmap fd (st_size s) (os_mmap os tr fd (st_size s)) # tr;
                       resp = resp\<lparr>resp_mmbuf := mm\<rparr> in
                   case mm of
                     None \<Rightarrow> Some (- 1, resp, Some s, tr)
                   | Some m \<Rightarrow> Some (st_size s, resp, Some s, EvClose fd # tr))))) }"

definition default_pages :: "string list" where
  "default_pages = [''index.html'', ''index.htm'']"

definition PATHSZ :: nat where
  "PATHSZ = REQ_URISZ * 3"

fun try_pages ::
  "os \<Rightarrow> resp_t \<Rightarrow> mem \<Rightarrow> nat \<Rightarrow> stat_t option \<Rightarrow> string list \<Rightarrow> trace \<Rightarrow>
     (bool \<times> resp_t \<times> mem \<times> stat_t option \<times> trace) option" where
  "try_pages os resp path path_p st [] tr = Some (False, resp, path, st, tr)"
| "try_pages os resp path path_p st (page # pages) tr = do {
     t \<leftarrow> cstrn_at (lit page) 0 REQ_URISZ;
     path \<leftarrow> mem_put PATHSZ path_p (t @ [NUL]) path;
     (rc, resp, st, tr) \<leftarrow> resp_mmap os resp path st tr;
     if 0 \<le> rc then Some (True, resp, path, st, tr)
     else try_pages os resp path path_p st pages tr }"

text \<open>\<open>www\<close> and the URI, one after the other, in an array of \<open>REQ_URISZ * 3\<close> bytes.\<close>

definition build_path :: "conf_t \<Rightarrow> req_t \<Rightarrow> mem option" where
  "build_path conf req = do {
     path \<leftarrow> strncpy0 PATHSZ [] (conf_www conf) 0 REQ_URISZ;
     s \<leftarrow> cstr_at path 0;
     t \<leftarrow> cstrn_at (req_uri req) 0 REQ_URISZ;
     mem_put PATHSZ (length s) (t @ [NUL]) path }"

text \<open>The file itself, else the default pages below it. \<open>path_p[-1]\<close> needs a non-empty path.\<close>

definition find_file ::
  "os \<Rightarrow> resp_t \<Rightarrow> mem \<Rightarrow> trace \<Rightarrow> (bool \<times> resp_t \<times> mem \<times> stat_t option \<times> trace) option" where
  "find_file os resp path tr = do {
     (rc, resp, st, tr) \<leftarrow> resp_mmap os resp path None tr;
     if 0 \<le> rc then Some (True, resp, path, st, tr)
     else do {
       s \<leftarrow> cstr_at path 0;
       c \<leftarrow> (if s = [] then None else mem_get path (length s - 1));
       (path, path_p) \<leftarrow>
         (if c \<noteq> CHR ''/'' then do {
            path \<leftarrow> mem_put PATHSZ (length s) ''/'' path;
            Some (path, Suc (length s)) }
          else Some (path, length s));
       try_pages os resp path path_p st default_pages tr } }"

text \<open>
  The entity headers of a response to GET and HEAD: the value array of each node is filled after
  the node is made.
\<close>

definition entity_hdrs :: "os \<Rightarrow> mem \<Rightarrow> stat_t \<Rightarrow> hdr list \<Rightarrow> hdr list option" where
  "entity_hdrs os path st hdrs = do {
     (k, v) \<leftarrow> hdr_pair (lit ''Content-Type'') (lit []);
     v \<leftarrow> fill_ctype path (lit v);
     let hdrs = hdrs_insert hdrs (k, cstr v);
     (k, v) \<leftarrow> hdr_pair (lit ''Last-Modified'') (lit []);
     let d = os_date os (st_mtime st);
     if length d < DATESZ then Some (hdrs_insert hdrs (k, d)) else None }"

text \<open>
  \<open>resp_build\<close> returns the file size converted to the enumeration type \<open>bool\<close>, an unsigned
  32-bit integer: the low 32 bits decide.
\<close>

definition resp_build ::
  "os \<Rightarrow> resp_t \<Rightarrow> req_t \<Rightarrow> conf_t \<Rightarrow> trace \<Rightarrow> (bool \<times> resp_t \<times> trace) option" where
  "resp_build os resp req conf tr = do {
     let resp = resp\<lparr>resp_alive := req_alive req\<rparr>;
     path \<leftarrow> build_path conf req;
     (mmapped, resp, path, st, tr) \<leftarrow> find_file os resp path tr;
     if \<not> mmapped then Some (False, resp\<lparr>resp_status := 404\<rparr>, tr)
     else do {
       st \<leftarrow> st;
       let resp = resp\<lparr>resp_clen := st_size st\<rparr>;
       hdrs \<leftarrow>
         (if req_meth req = M_GET \<or> req_meth req = M_HEAD
          then entity_hdrs os path st (resp_hdrs resp) else Some (resp_hdrs resp));
       Some ((word_of_int (st_size st) :: 32 word) \<noteq> 0, resp\<lparr>resp_hdrs := hdrs\<rparr>, tr) } }"

section \<open>Serialising the header\<close>

text \<open>One \<open>sprintf(hdr_p, ..); hdr_p += strlen(hdr_p)\<close> into an array of \<open>BUFSZ + 1\<close> bytes.\<close>

definition emit :: "string \<Rightarrow> mem \<times> nat \<Rightarrow> (mem \<times> nat) option" where
  "emit s out = do {
     m \<leftarrow> mem_put (BUFSZ + 1) (snd out) (s @ [NUL]) (fst out);
     k \<leftarrow> cstr_at m (snd out);
     Some (m, snd out + length k) }"

fun emit_all :: "string list \<Rightarrow> mem \<times> nat \<Rightarrow> (mem \<times> nat) option" where
  "emit_all [] out = Some out"
| "emit_all (s # ss) out = do { out \<leftarrow> emit s out; emit_all ss out }"

definition hdr_lines :: "os \<Rightarrow> resp_t \<Rightarrow> trace \<Rightarrow> string list" where
  "hdr_lines os resp tr =
     [''HTTP/1.1 '' @ resp_title (resp_status resp) @ CRLF,
      ''Date: '' @ os_date os (os_time os tr) @ CRLF,
      ''Server: '' @ VERSION @ CRLF,
      ''Connection: '' @ (if resp_alive resp then ''keep-alive'' else ''close'') @ CRLF,
      ''Content-Length: '' @ show_int (resp_clen resp) @ CRLF]
     @ map (\<lambda>(k, v). k @ '': '' @ v @ CRLF) (resp_hdrs resp)
     @ [CRLF]"

definition resp_hdr :: "os \<Rightarrow> resp_t \<Rightarrow> mem \<Rightarrow> trace \<Rightarrow> (int \<times> mem) option" where
  "resp_hdr os resp hdr tr = do {
     (m, n) \<leftarrow> emit_all (hdr_lines os resp tr) (hdr, 0);
     Some (int n, m) }"

end
