(* ===== verification/Cgi.thy ===== *)
theory Cgi
  imports Response
begin

text \<open>
  \<open>cgi.c\<close>: the CGI record with its six pipe ends, the environment handed to the CGI program,
  the fork (the server's side and the child's side), and the forwarding of the program's standard
  error to the log.

  The environment array has \<open>ENVP_CNT\<close> slots, one of which must hold the final \<open>NULL\<close>, and
  \<open>convert_key\<close> writes into a static array of \<open>HDR_KEYSZ + 5\<close> bytes; writing past either is
  undefined behaviour.
\<close>

definition PREFIX :: string where
  "PREFIX = ''/cgi''"

definition ENVP_CNT :: nat where
  "ENVP_CNT = 64"

definition ENVSZ :: nat where
  "ENVSZ = 2048"

definition ERRSZ :: nat where
  "ERRSZ = 2048"

datatype cgi_phase_t =
    CGI_IDLE | CGI_READY | CGI_SRV_TO_CGI | CGI_CGI_TO_SRV | CGI_DONE | CGI_ABORT | CGI_DISABLED

datatype buf_phase_t = BUF_RECV | BUF_SEND

record cgi_t =
  cgi_phase :: cgi_phase_t
  cgi_pid :: "int option"
  srv_out :: int
  srv_in :: int
  srv_err :: int
  cgi_in :: int
  cgi_out :: int
  cgi_err :: int
  cgi_buf_phase :: buf_phase_t

text \<open>\<open>close_pipe(&fd)\<close>: the new value of the descriptor.\<close>

definition close_pipe :: "int \<Rightarrow> trace \<Rightarrow> int \<times> trace" where
  "close_pipe fd tr = (if 0 \<le> fd then (- 1, EvClose fd # tr) else (fd, tr))"

definition cgi_reset :: "cgi_t \<Rightarrow> trace \<Rightarrow> cgi_t \<times> trace" where
  "cgi_reset cgi tr =
     (let (so, tr) = close_pipe (srv_out cgi) tr;
          (si, tr) = close_pipe (srv_in cgi) tr;
          (ci, tr) = close_pipe (cgi_in cgi) tr;
          (co, tr) = close_pipe (cgi_out cgi) tr;
          (se, tr) = close_pipe (srv_err cgi) tr;
          (ce, tr) = close_pipe (cgi_err cgi) tr
      in (cgi\<lparr>cgi_phase := CGI_IDLE, srv_out := so, srv_in := si, cgi_in := ci,
              cgi_out := co, srv_err := se, cgi_err := ce, cgi_buf_phase := BUF_RECV\<rparr>, tr))"

definition cgi_new :: cgi_t where
  "cgi_new = fst (cgi_reset \<lparr>
     cgi_phase = CGI_IDLE, cgi_pid = None, srv_out = - 1, srv_in = - 1, srv_err = - 1,
     cgi_in = - 1, cgi_out = - 1, cgi_err = - 1, cgi_buf_phase = BUF_RECV\<rparr> [])"

section \<open>The environment\<close>

text \<open>
  One \<open>snprintf\<close> into a buffer of \<open>ENVSZ\<close> bytes, copied into the next slot. Writing slot
  \<open>ENVP_CNT\<close> is outside the array.
\<close>

definition add_entry :: "string \<Rightarrow> string list \<Rightarrow> string list option" where
  "add_entry s envp =
     (if length envp < ENVP_CNT then Some (envp @ [take (ENVSZ - 1) s]) else None)"

definition conv_char :: "char \<Rightarrow> char" where
  "conv_char c =
     (if 97 \<le> (of_char c :: nat) \<and> (of_char c :: nat) \<le> 122 then char_of ((of_char c :: nat) - 97 + 65)
      else if c = CHR ''-'' then CHR ''_'' else c)"

text \<open>The loop: \<open>i\<close> counts the bytes, \<open>p\<close> is where \<open>to\<close> points in the array \<open>m\<close>.\<close>

fun conv_loop :: "string \<Rightarrow> nat \<Rightarrow> nat \<Rightarrow> mem \<Rightarrow> mem option" where
  "conv_loop [] i p m = mem_put (HDR_KEYSZ + 5) p [NUL] m"
| "conv_loop (c # cs) i p m =
     (if c \<noteq> NUL \<and> i < HDR_KEYSZ then do {
        m \<leftarrow> mem_put (HDR_KEYSZ + 5) p [conv_char c] m;
        conv_loop cs (Suc i) (Suc p) m }
      else mem_put (HDR_KEYSZ + 5) p [NUL] m)"

definition convert_key :: "string \<Rightarrow> string option" where
  "convert_key k = do {
     m \<leftarrow> mem_put (HDR_KEYSZ + 5) 0 ''HTTP_'' [];
     m \<leftarrow> conv_loop k 0 5 m;
     cstr_at m 0 }"

fun add_hdrs :: "hdr list \<Rightarrow> string list \<Rightarrow> string list option" where
  "add_hdrs [] envp = Some envp"
| "add_hdrs ((k, v) # hs) envp =
     (if length envp < ENVP_CNT then do {
        envp \<leftarrow>
          (if map tolower k = ''content-type'' then add_entry (''CONTENT_TYPE='' @ v) envp
           else do {
             key \<leftarrow> convert_key k;
             add_entry (key @ ''='' @ v) envp });
        add_hdrs hs envp }
      else Some envp)"

definition envp_base :: "req_t \<Rightarrow> string list option" where
  "envp_base req = do {
     info \<leftarrow> cstr_at (req_uri req) (length PREFIX);
     uri \<leftarrow> cstr_at (req_uri req) 0;
     envp \<leftarrow> add_entry (''GATEWAY_INTERFACE='' @ ''CGI/1.1'') [];
     envp \<leftarrow> add_entry (''PATH_INFO='' @ info) envp;
     envp \<leftarrow> add_entry (''REQUEST_URI='' @ uri) envp;
     envp \<leftarrow> add_entry (''REQUEST_METHOD='' @ req_method req) envp;
     envp \<leftarrow>
       (case req_params req of
          None \<Rightarrow> Some envp
        | Some p \<Rightarrow> do { q \<leftarrow> cstr_at (req_uri req) p; add_entry (''QUERY_STRING='' @ q) envp });
     envp \<leftarrow>
       (if 0 < req_clen req then add_entry (''CONTENT_LENGTH='' @ show_int (req_clen req)) envp
        else Some envp);
     envp \<leftarrow> add_entry (''HTTP_CONNECTION='' @ (if req_alive req then ''Keep-alive'' else ''Close'')) envp;
     ad \<leftarrow> cstr_at (req_addr req) 0;
     envp \<leftarrow> add_entry (''REMOTE_ADDR='' @ ad) envp;
     port \<leftarrow> req_port req;
     envp \<leftarrow> add_entry (''SERVER_PORT='' @ show_int port) envp;
     envp \<leftarrow> add_entry (''SERVER_NAME='' @ VERSION) envp;
     envp \<leftarrow> add_entry (''SERVER_SOFTWARE='' @ VERSION) envp;
     envp \<leftarrow> add_entry (''SERVER_PROTOCOL='' @ ''HTTP/1.1'') envp;
     h \<leftarrow> cstr_at (req_host req) 0;
     envp \<leftarrow> add_entry (''HTTP_HOST='' @ h) envp;
     envp \<leftarrow> add_entry (''SCRIPT_NAME='' @ PREFIX) envp;
     (if req_scheme req = HTTPS then add_entry (''HTTPS='' @ ''on'') envp else Some envp) }"

definition envp_new :: "req_t \<Rightarrow> string list option" where
  "envp_new req = do {
     envp \<leftarrow> envp_base req;
     envp \<leftarrow> add_hdrs (req_hdrs req) envp;
     if length envp < ENVP_CNT then Some envp else None }"

section \<open>Starting the CGI program\<close>

text \<open>
  The server's side of \<open>cgi_init\<close>. A failing \<open>pipe\<close> returns at once, without closing the
  pipes made before it.
\<close>

definition cgi_init :: "os \<Rightarrow> cgi_t \<Rightarrow> trace \<Rightarrow> bool \<times> cgi_t \<times> trace" where
  "cgi_init os cgi tr =
     (let p1 = os_pipe os tr; tr = EvPipe p1 # tr in
      case p1 of None \<Rightarrow> (False, cgi, tr) | Some (in_r, in_w) \<Rightarrow>
     (let p2 = os_pipe os tr; tr = EvPipe p2 # tr in
      case p2 of None \<Rightarrow> (False, cgi, tr) | Some (out_r, out_w) \<Rightarrow>
     (let p3 = os_pipe os tr; tr = EvPipe p3 # tr in
      case p3 of None \<Rightarrow> (False, cgi, tr) | Some (err_r, err_w) \<Rightarrow>
     (let cgi = cgi\<lparr>cgi_in := in_r, srv_out := in_w, cgi_out := out_w, srv_in := out_r,
                    cgi_err := err_w, srv_err := err_r\<rparr> in
      if FD_SETSIZE \<le> srv_in cgi \<or> FD_SETSIZE \<le> srv_err cgi then (False, cgi, tr)
      else
        (let f = os_fork os tr; tr = EvFork f # tr in
         case f of
           None \<Rightarrow> (False, cgi\<lparr>cgi_pid := Some (- 1)\<rparr>, tr)
         | Some pid \<Rightarrow>
             (let (ci, tr) = close_pipe (cgi_in cgi) tr;
                  (co, tr) = close_pipe (cgi_out cgi) tr;
                  (ce, tr) = close_pipe (cgi_err cgi) tr
              in (True, cgi\<lparr>cgi_pid := Some (int pid), cgi_in := ci, cgi_out := co, cgi_err := ce,
                            cgi_phase := CGI_SRV_TO_CGI\<rparr>, tr)))))))"

text \<open>
  The child's side, with its own copy of the record: either the new program runs, with the
  environment and the descriptors duplicated onto 0, 1 and 2, or the child exits.
\<close>

datatype child_end =
    ChildExec (ce_file: string) (ce_envp: "string list") (ce_dup: "(int \<times> int) list")
  | ChildExit int

definition cgi_child ::
  "bool \<Rightarrow> cgi_t \<Rightarrow> req_t \<Rightarrow> conf_t \<Rightarrow> trace \<Rightarrow> (child_end \<times> cgi_t \<times> trace) option" where
  "cgi_child exec_ok cgi req conf tr = do {
     file \<leftarrow> cstr_at (conf_cgi conf) 0;
     envp \<leftarrow> envp_new req;
     let (si, tr) = close_pipe (srv_in cgi) tr;
     let (so, tr) = close_pipe (srv_out cgi) tr;
     let (se, tr) = close_pipe (srv_err cgi) tr;
     let cgi = cgi\<lparr>srv_in := si, srv_out := so, srv_err := se\<rparr>;
     let dups = [(cgi_in cgi, 0), (cgi_out cgi, 1), (cgi_err cgi, 2)];
     if exec_ok then Some (ChildExec file envp dups, cgi, tr)
     else
       (let (ci, tr) = close_pipe (cgi_in cgi) tr;
            (co, tr) = close_pipe (cgi_out cgi) tr;
            (ce, tr) = close_pipe (cgi_err cgi) tr
        in Some (ChildExit 1, cgi\<lparr>cgi_in := ci, cgi_out := co, cgi_err := ce\<rparr>, tr)) }"

text \<open>
  \<open>cgi_logerr\<close>: the bytes handed to the log; the static array has \<open>ERRSZ + 1\<close> bytes.
\<close>

definition cgi_logerr :: "os \<Rightarrow> cgi_t \<Rightarrow> trace \<Rightarrow> (char list \<times> trace) option" where
  "cgi_logerr os cgi tr =
     (let r = os_read os tr (srv_err cgi) ERRSZ; tr = EvRead (srv_err cgi) ERRSZ r # tr in
      case r of
        None \<Rightarrow> Some ([], tr)
      | Some bs \<Rightarrow> do { m \<leftarrow> mem_put (ERRSZ + 1) 0 bs []; Some (m, tr) })"

end
