(* ===== verification/Conn.thy ===== *)
theory Conn
  imports Cgi
begin

text \<open>
  \<open>conn.c\<close>: connections and the handlers that receive, parse, serve and stream.

  Connections are objects on a heap: a pointer is a key of \<open>st_heap\<close>, a freed connection leaves
  it, and touching one is undefined behaviour. The buffer, request, response and CGI record of a
  connection belong to it alone and are stored in it. The state record is extensible, because the
  handlers call back into the server, whose state holds more than they know: they are polymorphic
  in the rest of the state, and take the callbacks \<open>succ_cb\<close>, \<open>err_cb\<close> and \<open>fat_cb\<close> as
  arguments, as in the code. A handler returns the code's return value and the new state.
\<close>

type_synonym ptr = nat

record conn_t =
  conn_fd :: int
  conn_idx :: int
  conn_buf :: buf_t
  conn_req :: req_t
  conn_resp :: resp_t
  conn_cgi :: cgi_t
  conn_ssl :: bool
  conn_ssl_accepted :: bool

record cstate =
  st_heap :: "ptr \<rightharpoonup> conn_t"
  st_trace :: trace

definition get_conn :: "ptr \<Rightarrow> 'a cstate_scheme \<Rightarrow> conn_t option" where
  "get_conn c s = st_heap s c"

definition put_conn :: "ptr \<Rightarrow> conn_t \<Rightarrow> 'a cstate_scheme \<Rightarrow> 'a cstate_scheme" where
  "put_conn c k s = s\<lparr>st_heap := (st_heap s)(c \<mapsto> k)\<rparr>"

definition log_ev :: "event \<Rightarrow> 'a cstate_scheme \<Rightarrow> 'a cstate_scheme" where
  "log_ev e s = s\<lparr>st_trace := e # st_trace s\<rparr>"

text \<open>The three callback types: a success and a fatality callback get the connection, an error
  callback the status code as well; the result is 1 for a connection that is alive and -1 for one
  that was closed.\<close>

type_synonym 'a SuccCb = "ptr \<Rightarrow> 'a cstate_scheme \<Rightarrow> (int \<times> 'a cstate_scheme) option"

type_synonym 'a ErrCb = "ptr \<Rightarrow> int \<Rightarrow> 'a cstate_scheme \<Rightarrow> (int \<times> 'a cstate_scheme) option"

type_synonym 'a FatCb = "ptr \<Rightarrow> 'a cstate_scheme \<Rightarrow> (int \<times> 'a cstate_scheme) option"

section \<open>Life of a connection\<close>

definition cn_new :: "int \<Rightarrow> int \<Rightarrow> conn_t" where
  "cn_new fd idx = \<lparr>
     conn_fd = fd, conn_idx = idx, conn_buf = buf_new, conn_req = req_new,
     conn_resp = resp_new, conn_cgi = cgi_new, conn_ssl = False, conn_ssl_accepted = False\<rparr>"

definition cn_free :: "ptr \<Rightarrow> 'a cstate_scheme \<Rightarrow> 'a cstate_scheme option" where
  "cn_free c s = do {
     k \<leftarrow> get_conn c s;
     let s = (if conn_ssl k then log_ev (EvSslFree (conn_fd k)) s else s);
     let s = s\<lparr>st_trace := resp_free (conn_resp k) (st_trace s)\<rparr>;
     Some (s\<lparr>st_heap := (st_heap s)(c := None)\<rparr>) }"

definition cn_init_ssl :: "os \<Rightarrow> ptr \<Rightarrow> 'a cstate_scheme \<Rightarrow> (int \<times> 'a cstate_scheme) option" where
  "cn_init_ssl os c s = do {
     k \<leftarrow> get_conn c s;
     let ok = os_ssl_new os (st_trace s) (conn_fd k);
     let s = log_ev (EvSslNew (conn_fd k) ok) s;
     if \<not> ok then Some (- 1, put_conn c (k\<lparr>conn_ssl := False\<rparr>) s)
     else do {
       let set = os_ssl_set_fd os (st_trace s) (conn_fd k);
       let s = log_ev (EvSslSetFd (conn_fd k) set) s;
       if \<not> set then Some (- 1, put_conn c (k\<lparr>conn_ssl := False\<rparr>) (log_ev (EvSslFree (conn_fd k)) s))
       else Some (1, put_conn c
         (k\<lparr>conn_ssl := True, conn_req := (conn_req k)\<lparr>req_scheme := HTTPS\<rparr>\<rparr>) s) } }"

section \<open>Receiving\<close>

definition smart_recv :: "os \<Rightarrow> int \<Rightarrow> nat \<Rightarrow> 'a cstate_scheme \<Rightarrow> char list option \<times> 'a cstate_scheme" where
  "smart_recv os fd n s =
     (let r = os_recv os (st_trace s) fd n in (r, log_ev (EvRecv fd n r) s))"

definition smart_send :: "os \<Rightarrow> int \<Rightarrow> char list \<Rightarrow> 'a cstate_scheme \<Rightarrow> int \<times> 'a cstate_scheme" where
  "smart_send os fd bs s =
     (let rc = os_send os (st_trace s) fd bs in (rc, log_ev (EvSend fd bs rc) s))"

definition recv_ignore ::
  "os \<Rightarrow> 'a FatCb \<Rightarrow>
     ptr \<Rightarrow> 'a cstate_scheme \<Rightarrow> (int \<times> 'a cstate_scheme) option" where
  "recv_ignore os fat_cb c s = do {
     k \<leftarrow> get_conn c s;
     let (r, s) = smart_recv os (conn_fd k) BUFSZ s;
     (case r of
        None \<Rightarrow> fat_cb c s
      | Some bs \<Rightarrow>
          if bs = [] then fat_cb c s
          else do {
            buf \<leftarrow> buf_write 0 bs (conn_buf k);
            Some (1, put_conn c (k\<lparr>conn_buf := buf\<rparr>) s) }) }"

text \<open>
  \<open>for (p = last_recv_end; p < end; p++) if (*p == '\n') q = p + 1;\<close> with offsets for
  pointers; \<open>q\<close> may start one before the cursor.
\<close>

function last_nl :: "mem \<Rightarrow> nat \<Rightarrow> nat \<Rightarrow> int \<Rightarrow> int option" where
  "last_nl m e p q =
     (if p < e then
        (case mem_get m p of None \<Rightarrow> None
         | Some c \<Rightarrow> last_nl m e (Suc p) (if c = LF then int (Suc p) else q))
      else Some q)"
  by pat_completeness auto
termination
  by (relation "measure (\<lambda>(m, e, p, q). e - p)") auto

declare last_nl.simps [simp del]

text \<open>
  The first half of \<open>cn_parse_req\<close>: copy the whole lines that are there to a fresh buffer, parse
  them, and leave the cursor behind what was parsed. The result is the new connection and the
  status to report, if any.
\<close>

definition parse_lines_of :: "conn_t \<Rightarrow> nat \<Rightarrow> (int option \<times> conn_t) option" where
  "parse_lines_of k last_recv_end =
     (if req_phase (conn_req k) = REQ_START \<or> req_phase (conn_req k) = REQ_HEADER then do {
        let buf = conn_buf k;
        let last_parsed_end = data_p buf;
        q \<leftarrow> last_nl (data buf) (buf_e buf) last_recv_end (int (data_p buf) - 1);
        if int (data_p buf) < q then do {
          let n = nat q - data_p buf;
          bs \<leftarrow> buf_slice buf (data_p buf) n;
          lines \<leftarrow> buf_write 0 bs buf_new;
          let lines = lines\<lparr>sz := int n\<rparr>;
          let buf = buf\<lparr>data_p := nat q\<rparr>;
          (rc, req, _) \<leftarrow> req_parse (conn_req k) lines;
          let k = k\<lparr>conn_req := req, conn_buf := buf\<rparr>;
          if rc < 0 then Some (Some (- rc), k)
          else Some (None, k\<lparr>conn_buf := buf\<lparr>data_p := last_parsed_end + nat rc\<rparr>\<rparr>) }
        else Some (None, k) }
      else Some (None, k))"

text \<open>
  The second half: with the header complete, account for the body bytes in the buffer and put what
  belongs to the next request aside in \<open>last_buf\<close>.
\<close>

definition enter_body :: "conn_t \<Rightarrow> conn_t" where
  "enter_body k =
     (if req_type (conn_req k) = REQ_STATIC
      then k\<lparr>conn_cgi := (conn_cgi k)\<lparr>cgi_phase := CGI_DISABLED\<rparr>\<rparr>
      else k\<lparr>conn_resp := (conn_resp k)\<lparr>resp_phase := RESP_DISABLED\<rparr>,
             conn_cgi := (if cgi_phase (conn_cgi k) = CGI_IDLE
                          then (conn_cgi k)\<lparr>cgi_phase := CGI_READY\<rparr> else conn_cgi k)\<rparr>)"

definition take_body :: "conn_t \<Rightarrow> conn_t option" where
  "take_body k = do {
     let req = conn_req k;
     let buf = conn_buf k;
     let rsize = req_rsize req - buf_rsize buf;
     let req = req\<lparr>req_rsize := rsize\<rparr>;
     if rsize = 0 then Some (k\<lparr>conn_req := req\<lparr>req_phase := REQ_DONE\<rparr>\<rparr>)
     else if rsize < 0 then do {
       let rest_sz = - rsize;
       rest \<leftarrow> (if rest_sz \<le> buf_end buf
                then buf_slice buf (nat (buf_end buf - rest_sz)) (nat rest_sz) else None);
       lb \<leftarrow> buf_write 0 rest ((buf_reset (req_last_buf req))\<lparr>sz := rest_sz\<rparr>);
       Some (k\<lparr>conn_req := req\<lparr>req_phase := REQ_DONE, req_last_buf := lb\<rparr>,
               conn_buf := buf\<lparr>sz := sz buf - rest_sz\<rparr>\<rparr>) }
     else Some (k\<lparr>conn_req := req\<rparr>) }"

definition body_step :: "conn_t \<Rightarrow> conn_t option" where
  "body_step k =
     (if req_phase (conn_req k) = REQ_BODY then do {
        k \<leftarrow> take_body (enter_body k);
        Some (if req_type (conn_req k) = REQ_STATIC
              then k\<lparr>conn_buf := buf_reset (conn_buf k)\<rparr> else k) }
      else Some k)"

definition cn_parse_req ::
  "'a ErrCb \<Rightarrow>
     ptr \<Rightarrow> nat \<Rightarrow> 'a cstate_scheme \<Rightarrow> (int \<times> 'a cstate_scheme) option" where
  "cn_parse_req err_cb c last_recv_end s = do {
     k \<leftarrow> get_conn c s;
     (r, k) \<leftarrow> parse_lines_of k last_recv_end;
     (case r of
        Some status \<Rightarrow> err_cb c status (put_conn c k s)
      | None \<Rightarrow> do { k \<leftarrow> body_step k; Some (1, put_conn c k s) }) }"

definition cn_recv ::
  "os \<Rightarrow> 'a ErrCb \<Rightarrow>
     'a FatCb \<Rightarrow>
     ptr \<Rightarrow> 'a cstate_scheme \<Rightarrow> (int \<times> 'a cstate_scheme) option" where
  "cn_recv os err_cb fat_cb c s = do {
     k \<leftarrow> get_conn c s;
     if conn_ssl k \<and> \<not> conn_ssl_accepted k then
       (let rc = os_ssl_accept os (st_trace s) (conn_fd k);
            s = log_ev (EvSslAccept (conn_fd k) rc) s in
        if rc = 0 then
          fat_cb c (put_conn c (k\<lparr>conn_ssl := False\<rparr>) (log_ev (EvSslFree (conn_fd k)) s))
        else if rc < 0 then Some (1, s)
        else Some (1, put_conn c (k\<lparr>conn_ssl_accepted := True\<rparr>) s))
     else if req_phase (conn_req k) = REQ_ABORT then recv_ignore os fat_cb c s
     else
       (let rsize = int BUFSZ - sz (conn_buf k) in
        if rsize \<le> 0 then do {
          (_, s) \<leftarrow> err_cb c 400 s;
          recv_ignore os fat_cb c s }
        else do {
          let last_recv_end = nat (buf_end (conn_buf k));
          let (r, s) = smart_recv os (conn_fd k) (nat rsize) s;
          (case r of
             None \<Rightarrow>
               fat_cb c (put_conn c (k\<lparr>conn_req := (conn_req k)\<lparr>req_phase := REQ_ABORT\<rparr>\<rparr>) s)
           | Some bs \<Rightarrow> do {
               buf \<leftarrow> buf_write last_recv_end bs (conn_buf k);
               let k = k\<lparr>conn_buf := buf\<lparr>sz := sz buf + int (length bs)\<rparr>\<rparr>;
               if bs = [] then
                 fat_cb c (put_conn c (k\<lparr>conn_req := (conn_req k)\<lparr>req_phase := REQ_ABORT\<rparr>\<rparr>) s)
               else do {
                 (_, s) \<leftarrow> cn_parse_req err_cb c last_recv_end (put_conn c k s);
                 Some (1, s) } }) }) }"

section \<open>Static responses and error pages\<close>

definition cn_prepare_static_header ::
  "os \<Rightarrow> conf_t \<Rightarrow> 'a ErrCb \<Rightarrow>
     ptr \<Rightarrow> 'a cstate_scheme \<Rightarrow> (int \<times> 'a cstate_scheme) option" where
  "cn_prepare_static_header os conf err_cb c s = do {
     k \<leftarrow> get_conn c s;
     (ok, resp, tr) \<leftarrow> resp_build os (conn_resp k) (conn_req k) conf (st_trace s);
     let s = s\<lparr>st_trace := tr\<rparr>;
     let k = k\<lparr>conn_resp := resp\<rparr>;
     if \<not> ok then err_cb c (resp_status resp) (put_conn c k s)
     else do {
       let resp = resp\<lparr>resp_phase := RESP_HEADER\<rparr>;
       let buf = buf_reset (conn_buf k);
       (n, m) \<leftarrow> resp_hdr os resp (data buf) (st_trace s);
       Some (1, put_conn c (k\<lparr>conn_resp := resp, conn_buf := buf\<lparr>data := m, sz := n\<rparr>\<rparr>) s) } }"

text \<open>The error page is built anew in every call.\<close>

definition error_page :: "os \<Rightarrow> conn_t \<Rightarrow> trace \<Rightarrow> conn_t option" where
  "error_page os k tr = do {
     let buf = buf_reset (conn_buf k);
     let resp = (conn_resp k)\<lparr>resp_alive := req_alive (conn_req k)\<rparr>;
     let msg = resp_msg (resp_status resp);
     let resp = resp\<lparr>resp_clen := int (length msg)\<rparr>;
     (n, m) \<leftarrow> resp_hdr os resp (data buf) tr;
     let buf = buf\<lparr>data := m, sz := n\<rparr>;
     buf \<leftarrow> buf_write (nat (buf_end buf)) msg buf;
     Some (k\<lparr>conn_buf := buf\<lparr>sz := sz buf + resp_clen resp\<rparr>, conn_resp := resp\<rparr>) }"

definition cn_send_error_page ::
  "os \<Rightarrow> 'a SuccCb \<Rightarrow>
     'a FatCb \<Rightarrow>
     ptr \<Rightarrow> 'a cstate_scheme \<Rightarrow> (int \<times> 'a cstate_scheme) option" where
  "cn_send_error_page os succ_cb fat_cb c s = do {
     k \<leftarrow> get_conn c s;
     k \<leftarrow> error_page os k (st_trace s);
     let buf = conn_buf k;
     bs \<leftarrow> buf_next buf (buf_rsize buf);
     let (rc, s) = smart_send os (conn_fd k) bs s;
     if rc \<le> 0 then fat_cb c (put_conn c k s)
     else do {
       let buf = buf\<lparr>data_p := data_p buf + nat rc\<rparr>;
       let s = put_conn c (k\<lparr>conn_buf := buf\<rparr>) s;
       if buf_end buf \<le> int (data_p buf) then succ_cb c s else Some (1, s) } }"

text \<open>
  One send of the header, and one send of the body. A HEAD request is over after the first send of
  its header, whether or not all of it was accepted.
\<close>

definition cn_serve_header ::
  "os \<Rightarrow> 'a SuccCb \<Rightarrow>
     'a FatCb \<Rightarrow>
     ptr \<Rightarrow> conn_t \<Rightarrow> 'a cstate_scheme \<Rightarrow> (int \<times> 'a cstate_scheme) option" where
  "cn_serve_header os succ_cb fat_cb c k s = do {
     let buf = conn_buf k;
     let rsize = buf_rsize buf;
     bs \<leftarrow> buf_next buf rsize;
     let (rc, s) = smart_send os (conn_fd k) bs s;
     if rc \<le> 0 then fat_cb c s
     else do {
       let k = k\<lparr>conn_buf := buf\<lparr>data_p := data_p buf + nat rc\<rparr>,
                 conn_resp := (if rc = rsize then (conn_resp k)\<lparr>resp_phase := RESP_BODY\<rparr>
                               else conn_resp k)\<rparr>;
       let s = put_conn c k s;
       over \<leftarrow> (if req_meth (conn_req k) = M_HEAD then Some True
                else do {
                  mm \<leftarrow> resp_mmbuf (conn_resp k);
                  Some (buf_end mm \<le> int (data_p mm)) });
       if over then succ_cb c s else Some (1, s) } }"

definition cn_serve_body ::
  "os \<Rightarrow> 'a SuccCb \<Rightarrow>
     'a FatCb \<Rightarrow>
     ptr \<Rightarrow> conn_t \<Rightarrow> 'a cstate_scheme \<Rightarrow> (int \<times> 'a cstate_scheme) option" where
  "cn_serve_body os succ_cb fat_cb c k s = do {
     mm \<leftarrow> resp_mmbuf (conn_resp k);
     let asize = min (int BUFSZ) (buf_rsize mm);
     bs \<leftarrow> buf_next mm asize;
     let (rc, s) = smart_send os (conn_fd k) bs s;
     if rc \<le> 0 then fat_cb c s
     else do {
       let mm = mm\<lparr>data_p := data_p mm + nat rc\<rparr>;
       let s = put_conn c (k\<lparr>conn_resp := (conn_resp k)\<lparr>resp_mmbuf := Some mm\<rparr>\<rparr>) s;
       if buf_end mm \<le> int (data_p mm) then succ_cb c s else Some (1, s) } }"

definition cn_serve_static ::
  "os \<Rightarrow> 'a SuccCb \<Rightarrow>
     'a FatCb \<Rightarrow>
     ptr \<Rightarrow> 'a cstate_scheme \<Rightarrow> (int \<times> 'a cstate_scheme) option" where
  "cn_serve_static os succ_cb fat_cb c s = do {
     k \<leftarrow> get_conn c s;
     (case resp_phase (conn_resp k) of
        RESP_ABORT \<Rightarrow> cn_send_error_page os succ_cb fat_cb c s
      | RESP_HEADER \<Rightarrow> cn_serve_header os succ_cb fat_cb c k s
      | RESP_BODY \<Rightarrow> cn_serve_body os succ_cb fat_cb c k s
      | _ \<Rightarrow> Some (1, s)) }"

section \<open>Dynamic responses\<close>

definition cn_init_cgi ::
  "os \<Rightarrow> 'a SuccCb \<Rightarrow>
     'a ErrCb \<Rightarrow>
     ptr \<Rightarrow> 'a cstate_scheme \<Rightarrow> (int \<times> 'a cstate_scheme) option" where
  "cn_init_cgi os succ_cb err_cb c s = do {
     k \<leftarrow> get_conn c s;
     let (ok, cgi, tr) = cgi_init os (conn_cgi k) (st_trace s);
     let s = s\<lparr>st_trace := tr\<rparr>;
     if ok then succ_cb c (put_conn c (k\<lparr>conn_cgi := cgi\<lparr>cgi_phase := CGI_SRV_TO_CGI\<rparr>\<rparr>) s)
     else err_cb c 500 (put_conn c
       (k\<lparr>conn_cgi := cgi\<lparr>cgi_phase := CGI_ABORT\<rparr>,
          conn_resp := (conn_resp k)\<lparr>resp_phase := RESP_ABORT\<rparr>\<rparr>) s) }"

text \<open>
  The write loop of \<open>cn_stream_to_cgi\<close>: every \<open>write\<close> starts at the cursor, which the loop does
  not move. The result says whether all was written.
\<close>

function write_loop :: "os \<Rightarrow> int \<Rightarrow> buf_t \<Rightarrow> int \<Rightarrow> trace \<Rightarrow> (bool \<times> trace) option" where
  "write_loop os fd buf rsize tr =
     (if 0 < rsize then
        (case buf_slice buf (data_p buf) (nat rsize) of
           None \<Rightarrow> None
         | Some bs \<Rightarrow>
             (let n = os_write os tr fd bs; tr = EvWrite fd bs n # tr in
              if n \<le> 0 then Some (False, tr)
              else write_loop os fd buf (rsize - n) tr))
      else Some (True, tr))"
  by pat_completeness auto
termination
  by (relation "measure (\<lambda>(os, fd, buf, rsize, tr). nat rsize)") auto

declare write_loop.simps [simp del]

definition cn_stream_to_cgi ::
  "os \<Rightarrow> 'a ErrCb \<Rightarrow>
     ptr \<Rightarrow> 'a cstate_scheme \<Rightarrow> (int \<times> 'a cstate_scheme) option" where
  "cn_stream_to_cgi os err_cb c s = do {
     k \<leftarrow> get_conn c s;
     (done_all, tr) \<leftarrow>
       write_loop os (srv_out (conn_cgi k)) (conn_buf k) (buf_rsize (conn_buf k)) (st_trace s);
     let s = s\<lparr>st_trace := tr\<rparr>;
     if \<not> done_all then err_cb c 500 s
     else Some (1, put_conn c (k\<lparr>conn_buf := buf_reset (conn_buf k)\<rparr>) s) }"

definition cn_stream_from_cgi ::
  "os \<Rightarrow> 'a ErrCb \<Rightarrow>
     ptr \<Rightarrow> 'a cstate_scheme \<Rightarrow> (int \<times> 'a cstate_scheme) option" where
  "cn_stream_from_cgi os err_cb c s = do {
     k \<leftarrow> get_conn c s;
     let fd = srv_in (conn_cgi k);
     let r = os_read os (st_trace s) fd BUFSZ;
     let s = log_ev (EvRead fd BUFSZ r) s;
     (case r of
        None \<Rightarrow>
          err_cb c 500 (put_conn c
            (k\<lparr>conn_buf := (conn_buf k)\<lparr>sz := - 1\<rparr>,
               conn_cgi := (conn_cgi k)\<lparr>cgi_phase := CGI_ABORT\<rparr>\<rparr>) s)
      | Some bs \<Rightarrow> do {
          buf \<leftarrow> buf_write 0 bs (conn_buf k);
          let buf = buf\<lparr>sz := int (length bs)\<rparr>;
          let cgi = (conn_cgi k)\<lparr>cgi_buf_phase := BUF_SEND,
                cgi_phase := (if bs = [] then CGI_DONE else cgi_phase (conn_cgi k))\<rparr>;
          Some (1, put_conn c (k\<lparr>conn_buf := buf, conn_cgi := cgi\<rparr>) s) }) }"

definition cn_serve_dynamic ::
  "os \<Rightarrow> 'a SuccCb \<Rightarrow>
     'a FatCb \<Rightarrow>
     ptr \<Rightarrow> 'a cstate_scheme \<Rightarrow> (int \<times> 'a cstate_scheme) option" where
  "cn_serve_dynamic os succ_cb fat_cb c s = do {
     k \<leftarrow> get_conn c s;
     let buf = conn_buf k;
     let rsize = buf_rsize buf;
     if rsize = 0 \<and> cgi_phase (conn_cgi k) = CGI_DONE then succ_cb c s
     else do {
       bs \<leftarrow> buf_next buf rsize;
       let (rc, s) = smart_send os (conn_fd k) bs s;
       if rc \<le> 0 then fat_cb c s
       else Some (1, put_conn c
         (if rsize - rc = 0 then k\<lparr>conn_cgi := (conn_cgi k)\<lparr>cgi_buf_phase := BUF_RECV\<rparr>\<rparr> else k) s) } }"

end
