(* ===== verification/Pool.thy ===== *)
theory Pool
  imports Conn
begin

text \<open>
  \<open>pool.c\<close>: the pool of connections and the state of the server.

  \<open>server\<close> extends the state the connection handlers know by the fields of \<open>pool_t\<close> and by
  the allocator's next address. \<open>conns\<close> is the initialised prefix of the array of
  \<open>MAX_CONNS + 1\<close> pointers, \<open>None\<close> being \<open>NULL\<close>; reading outside it, or through \<open>NULL\<close>, is
  undefined behaviour.
\<close>

definition MAX_CONNS :: nat where
  "MAX_CONNS = 1014"

record server = cstate +
  sv_next :: ptr
  n_conns :: nat
  conns :: "ptr option list"
  min_max_fd :: int
  max_fd :: int
  read_set :: fd_set
  write_set :: fd_set
  read_ready :: fd_set
  write_ready :: fd_set

lemma MAX_CONNS_FD_SETSIZE: "int MAX_CONNS = FD_SETSIZE - 10"
  by (simp add: MAX_CONNS_def FD_SETSIZE_def)

section \<open>The pointer array\<close>

definition conns_get :: "nat \<Rightarrow> server \<Rightarrow> ptr option" where
  "conns_get i s = (if i < length (conns s) then conns s ! i else None)"

definition conns_put :: "nat \<Rightarrow> ptr option \<Rightarrow> server \<Rightarrow> server option" where
  "conns_put i v s =
     (if i < length (conns s) then Some (s\<lparr>conns := (conns s)[i := v]\<rparr>)
      else if i = length (conns s) \<and> i < MAX_CONNS + 1 then Some (s\<lparr>conns := conns s @ [v]\<rparr>)
      else None)"

section \<open>Operations\<close>

definition pl_new :: "int \<Rightarrow> int \<Rightarrow> trace \<Rightarrow> server option" where
  "pl_new sock ssl_sock tr = do {
     rs \<leftarrow> FD_SET sock {};
     rs \<leftarrow> FD_SET ssl_sock rs;
     Some \<lparr>st_heap = Map.empty, st_trace = tr, sv_next = 0, n_conns = 0, conns = [],
           min_max_fd = max sock ssl_sock, max_fd = max sock ssl_sock,
           read_set = rs, write_set = {}, read_ready = {}, write_ready = {}\<rparr> }"

definition pl_ready :: "server \<Rightarrow> server" where
  "pl_ready s = s\<lparr>read_ready := read_set s, write_ready := write_set s\<rparr>"

definition set_fd_read :: "int \<Rightarrow> server \<Rightarrow> server option" where
  "set_fd_read fd s = do { t \<leftarrow> FD_SET fd (read_set s); Some (s\<lparr>read_set := t\<rparr>) }"

definition clr_fd_read :: "int \<Rightarrow> server \<Rightarrow> server option" where
  "clr_fd_read fd s = do { t \<leftarrow> FD_CLR fd (read_set s); Some (s\<lparr>read_set := t\<rparr>) }"

definition set_fd_write :: "int \<Rightarrow> server \<Rightarrow> server option" where
  "set_fd_write fd s = do { t \<leftarrow> FD_SET fd (write_set s); Some (s\<lparr>write_set := t\<rparr>) }"

definition clr_fd_write :: "int \<Rightarrow> server \<Rightarrow> server option" where
  "clr_fd_write fd s = do { t \<leftarrow> FD_CLR fd (write_set s); Some (s\<lparr>write_set := t\<rparr>) }"

text \<open>\<open>FD_CLR(fd, &read_set); close_pipe(&fd)\<close> for a pipe end that is open.\<close>

definition drop_pipe :: "int \<Rightarrow> server \<Rightarrow> (int \<times> server) option" where
  "drop_pipe fd s =
     (if 0 \<le> fd then do {
        s \<leftarrow> clr_fd_read fd s;
        let (fd, tr) = close_pipe fd (st_trace s);
        Some (fd, s\<lparr>st_trace := tr\<rparr>) }
      else Some (fd, s))"

definition pl_reset_conn :: "ptr \<Rightarrow> server \<Rightarrow> (int \<times> server) option" where
  "pl_reset_conn c s = do {
     k \<leftarrow> get_conn c s;
     s \<leftarrow> set_fd_read (conn_fd k) s;
     s \<leftarrow> clr_fd_write (conn_fd k) s;
     (si, s) \<leftarrow> drop_pipe (srv_in (conn_cgi k)) s;
     (se, s) \<leftarrow> drop_pipe (srv_err (conn_cgi k)) s;
     let (resp, tr) = resp_reset (conn_resp k) (st_trace s);
     let (cgi, tr) = cgi_reset ((conn_cgi k)\<lparr>srv_in := si, srv_err := se\<rparr>) tr;
     Some (1, put_conn c
       (k\<lparr>conn_buf := buf_reset (conn_buf k),
          conn_req := req_reset (conn_req k),
          conn_resp := resp,
          conn_cgi := cgi\<rparr>)
       (s\<lparr>st_trace := tr\<rparr>)) }"

definition pl_add_conn :: "ptr \<Rightarrow> server \<Rightarrow> (int \<times> server) option" where
  "pl_add_conn c s =
     (if MAX_CONNS \<le> n_conns s then Some (- 1, s)
      else do {
        k \<leftarrow> get_conn c s;
        s \<leftarrow> set_fd_read (conn_fd k) s;
        let s = put_conn c (k\<lparr>conn_idx := int (n_conns s)\<rparr>) s;
        s \<leftarrow> conns_put (n_conns s) (Some c) s;
        Some (1, s\<lparr>n_conns := Suc (n_conns s)\<rparr>) })"

text \<open>
  The test compares the \<open>int\<close> index with the \<open>size_t\<close> count, so a negative index fails it too.
  The last connection takes the slot of the deleted one.
\<close>

definition idx_in_pool :: "int \<Rightarrow> nat \<Rightarrow> bool" where
  "idx_in_pool idx n \<longleftrightarrow> (word_of_int idx :: 64 word) < word_of_nat n"

definition pl_del_conn :: "ptr \<Rightarrow> server \<Rightarrow> (int \<times> server) option" where
  "pl_del_conn c s = do {
     k \<leftarrow> get_conn c s;
     if \<not> idx_in_pool (conn_idx k) (n_conns s) then Some (- 1, s)
     else do {
       (_, s) \<leftarrow> pl_reset_conn c s;
       s \<leftarrow> clr_fd_read (conn_fd k) s;
       let s = log_ev (EvClose (conn_fd k)) s;
       let n = n_conns s - 1;
       let i = nat (conn_idx k);
       let s = s\<lparr>n_conns := n\<rparr>;
       l \<leftarrow> conns_get n s;
       s \<leftarrow> conns_put i (Some l) s;
       lk \<leftarrow> get_conn l s;
       let s = put_conn l (lk\<lparr>conn_idx := conn_idx k\<rparr>) s;
       s \<leftarrow> conns_put n None s;
       s \<leftarrow> cn_free c s;
       Some (1, s) } }"

fun free_all :: "nat \<Rightarrow> nat \<Rightarrow> server \<Rightarrow> server option" where
  "free_all i 0 s = Some s"
| "free_all i (Suc n) s = do {
     c \<leftarrow> conns_get i s;
     s \<leftarrow> cn_free c s;
     free_all (Suc i) n s }"

definition pl_free :: "server \<Rightarrow> server option" where
  "pl_free s = free_all 0 (n_conns s) s"

end
