(* ===== verification/Lisod.thy ===== *)
theory Lisod
  imports Pool
begin

text \<open>
  \<open>lisod.c\<close>: accepting connections, the callbacks the connection handlers are given, and the
  select loop.

  The globals \<open>sock\<close>, \<open>ssl_sock\<close> and \<open>conf\<close> are arguments, the pool is the state. The body of
  the loop over connections is split at its comments into steps, composed in the code's order;
  \<open>serve_conn\<close> answers whether the connection is still there (\<open>False\<close> is the code's
  \<open>i -= 1; continue\<close>). The loop over connections has no obvious bound, since a dropped connection
  makes it visit the same index again: it runs on fuel, and running out of it is the outer
  \<open>None\<close> of its result.
\<close>

section \<open>Callbacks\<close>

definition liso_drop_conn :: "ptr \<Rightarrow> server \<Rightarrow> (int \<times> server) option" where
  "liso_drop_conn c s = do { (_, s) \<leftarrow> pl_del_conn c s; Some (- 1, s) }"

definition liso_conn_err :: "ptr \<Rightarrow> int \<Rightarrow> server \<Rightarrow> (int \<times> server) option" where
  "liso_conn_err c status s = do {
     k \<leftarrow> get_conn c s;
     let s = put_conn c
       (k\<lparr>conn_req := (conn_req k)\<lparr>req_phase := REQ_ABORT\<rparr>,
          conn_resp := (conn_resp k)\<lparr>resp_phase := RESP_ABORT, resp_status := status\<rparr>\<rparr>) s;
     s \<leftarrow> set_fd_write (conn_fd k) s;
     Some (1, s) }"

text \<open>
  After a reset the bytes of a pipelined request, if any, are copied back from \<open>last_buf\<close> and
  parsed at once. The size is tested for being non-zero.
\<close>

definition load_piped :: "conn_t \<Rightarrow> conn_t option" where
  "load_piped k = do {
     let lb = req_last_buf (conn_req k);
     bs \<leftarrow> (if 0 \<le> sz lb then buf_slice lb 0 (nat (sz lb)) else None);
     buf \<leftarrow> buf_write 0 bs ((conn_buf k)\<lparr>sz := sz lb\<rparr>);
     Some (k\<lparr>conn_buf := buf, conn_req := (conn_req k)\<lparr>req_last_buf := buf_reset lb\<rparr>\<rparr>) }"

definition liso_reset_or_close :: "ptr \<Rightarrow> server \<Rightarrow> (int \<times> server) option" where
  "liso_reset_or_close c s = do {
     k \<leftarrow> get_conn c s;
     if req_alive (conn_req k) then do {
       (_, s) \<leftarrow> pl_reset_conn c s;
       k \<leftarrow> get_conn c s;
       if sz (req_last_buf (conn_req k)) \<noteq> 0 then do {
         k \<leftarrow> load_piped k;
         (_, s) \<leftarrow> cn_parse_req liso_conn_err c 0 (put_conn c k s);
         k \<leftarrow> get_conn c s;
         if req_phase (conn_req k) = REQ_DONE then do {
           s \<leftarrow> clr_fd_read (conn_fd k) s;
           s \<leftarrow> set_fd_write (conn_fd k) s;
           Some (1, s) }
         else Some (1, s) }
       else Some (1, s) }
     else liso_drop_conn c s }"

definition liso_cgi_inited :: "ptr \<Rightarrow> server \<Rightarrow> (int \<times> server) option" where
  "liso_cgi_inited c s = do {
     k \<leftarrow> get_conn c s;
     s \<leftarrow> set_fd_read (srv_err (conn_cgi k)) s;
     Some (1, s) }"

text \<open>The macros that hand the callbacks to the handlers.\<close>

abbreviation liso_recv :: "os \<Rightarrow> ptr \<Rightarrow> server \<Rightarrow> (int \<times> server) option" where
  "liso_recv os \<equiv> cn_recv os liso_conn_err liso_drop_conn"

abbreviation liso_prepare_static_header :: "os \<Rightarrow> conf_t \<Rightarrow> ptr \<Rightarrow> server \<Rightarrow> (int \<times> server) option" where
  "liso_prepare_static_header os conf \<equiv> cn_prepare_static_header os conf liso_conn_err"

abbreviation liso_serve_static :: "os \<Rightarrow> ptr \<Rightarrow> server \<Rightarrow> (int \<times> server) option" where
  "liso_serve_static os \<equiv> cn_serve_static os liso_reset_or_close liso_drop_conn"

abbreviation liso_init_cgi :: "os \<Rightarrow> ptr \<Rightarrow> server \<Rightarrow> (int \<times> server) option" where
  "liso_init_cgi os \<equiv> cn_init_cgi os liso_cgi_inited liso_conn_err"

abbreviation liso_stream_to_cgi :: "os \<Rightarrow> ptr \<Rightarrow> server \<Rightarrow> (int \<times> server) option" where
  "liso_stream_to_cgi os \<equiv> cn_stream_to_cgi os liso_conn_err"

abbreviation liso_stream_from_cgi :: "os \<Rightarrow> ptr \<Rightarrow> server \<Rightarrow> (int \<times> server) option" where
  "liso_stream_from_cgi os \<equiv> cn_stream_from_cgi os liso_conn_err"

abbreviation liso_serve_dynamic :: "os \<Rightarrow> ptr \<Rightarrow> server \<Rightarrow> (int \<times> server) option" where
  "liso_serve_dynamic os \<equiv> cn_serve_dynamic os liso_reset_or_close liso_drop_conn"

section \<open>Accepting\<close>

text \<open>\<open>malloc\<close> of a connection: an address not given out before.\<close>

definition alloc_conn :: "conn_t \<Rightarrow> server \<Rightarrow> ptr \<times> server" where
  "alloc_conn k s = (sv_next s, put_conn (sv_next s) k (s\<lparr>sv_next := Suc (sv_next s)\<rparr>))"

definition liso_accept_conn ::
  "os \<Rightarrow> conf_t \<Rightarrow> int \<Rightarrow> bool \<Rightarrow> server \<Rightarrow> (ptr option \<times> server) option" where
  "liso_accept_conn os conf sock ctx s =
     (let a = os_accept os (st_trace s) sock; s = log_ev (EvAccept sock (map_option fst a)) s in
      case a of
        None \<Rightarrow> Some (None, s)
      | Some (client_sock, ad) \<Rightarrow>
          if FD_SETSIZE \<le> client_sock then Some (None, log_ev (EvClose client_sock) s)
          else if n_conns s = MAX_CONNS then Some (None, log_ev (EvClose client_sock) s)
          else do {
            let k = cn_new client_sock (int (n_conns s));
            ad \<leftarrow> mem_put (INET_ADDRSTRLEN + 1) 0 (ad @ [NUL]) (req_addr (conn_req k));
            let port = (if ctx then conf_https_port conf else conf_http_port conf);
            let (c, s) = alloc_conn
              (k\<lparr>conn_req := (conn_req k)\<lparr>req_addr := ad, req_port := Some port\<rparr>\<rparr>) s;
            (rc, s) \<leftarrow> (if ctx then cn_init_ssl os c s else Some (1, s));
            if rc < 0 then do {
              s \<leftarrow> cn_free c (log_ev (EvClose client_sock) s);
              Some (None, s) }
            else do {
              (rc, s) \<leftarrow> pl_add_conn c s;
              Some (if rc < 0 then None else Some c, s) } })"

section \<open>One connection\<close>

definition isset_read :: "int \<Rightarrow> server \<Rightarrow> bool option" where
  "isset_read fd s = FD_ISSET fd (read_ready s)"

definition isset_write :: "int \<Rightarrow> server \<Rightarrow> bool option" where
  "isset_write fd s = FD_ISSET fd (write_ready s)"

definition sv_recv :: "os \<Rightarrow> ptr \<Rightarrow> server \<Rightarrow> (bool \<times> server) option" where
  "sv_recv os c s = do {
     k \<leftarrow> get_conn c s;
     r \<leftarrow> isset_read (conn_fd k) s;
     if r then do {
       (rc, s) \<leftarrow> liso_recv os c s;
       Some (0 \<le> rc, s) }
     else Some (True, s) }"

definition sv_logerr :: "os \<Rightarrow> ptr \<Rightarrow> server \<Rightarrow> server option" where
  "sv_logerr os c s = do {
     k \<leftarrow> get_conn c s;
     if 0 \<le> srv_err (conn_cgi k) then do {
       r \<leftarrow> isset_read (srv_err (conn_cgi k)) s;
       if r then do {
         (_, tr) \<leftarrow> cgi_logerr os (conn_cgi k) (st_trace s);
         Some (s\<lparr>st_trace := tr\<rparr>) }
       else Some s }
     else Some s }"

definition sv_prepare :: "os \<Rightarrow> conf_t \<Rightarrow> ptr \<Rightarrow> server \<Rightarrow> server option" where
  "sv_prepare os conf c s = do {
     k \<leftarrow> get_conn c s;
     if req_type (conn_req k) = REQ_STATIC \<and> req_phase (conn_req k) = REQ_DONE
        \<and> resp_phase (conn_resp k) = RESP_READY
     then do { (_, s) \<leftarrow> liso_prepare_static_header os conf c s; Some s }
     else Some s }"

definition sv_init_cgi :: "os \<Rightarrow> ptr \<Rightarrow> server \<Rightarrow> server option" where
  "sv_init_cgi os c s = do {
     k \<leftarrow> get_conn c s;
     if req_type (conn_req k) = REQ_DYNAMIC \<and> cgi_phase (conn_cgi k) = CGI_READY
     then do { (_, s) \<leftarrow> liso_init_cgi os c s; Some s }
     else Some s }"

definition sv_select_sets :: "ptr \<Rightarrow> server \<Rightarrow> server option" where
  "sv_select_sets c s = do {
     k \<leftarrow> get_conn c s;
     if req_phase (conn_req k) = REQ_DONE then do {
       s \<leftarrow> clr_fd_read (conn_fd k) s;
       if req_type (conn_req k) = REQ_STATIC then set_fd_write (conn_fd k) s else Some s }
     else Some s }"

definition set_cgi :: "ptr \<Rightarrow> (cgi_t \<Rightarrow> cgi_t) \<Rightarrow> server \<Rightarrow> server option" where
  "set_cgi c f s = do {
     k \<leftarrow> get_conn c s;
     Some (put_conn c (k\<lparr>conn_cgi := f (conn_cgi k)\<rparr>) s) }"

definition sv_to_cgi :: "os \<Rightarrow> ptr \<Rightarrow> server \<Rightarrow> server option" where
  "sv_to_cgi os c s = do {
     k \<leftarrow> get_conn c s;
     if req_type (conn_req k) = REQ_DYNAMIC \<and> cgi_phase (conn_cgi k) = CGI_SRV_TO_CGI then do {
       (_, s) \<leftarrow> liso_stream_to_cgi os c s;
       k \<leftarrow> get_conn c s;
       if req_phase (conn_req k) = REQ_DONE then do {
         let (so, tr) = close_pipe (srv_out (conn_cgi k)) (st_trace s);
         s \<leftarrow> set_cgi c (\<lambda>g. g\<lparr>srv_out := so\<rparr>) (s\<lparr>st_trace := tr\<rparr>);
         s \<leftarrow> set_fd_read (srv_in (conn_cgi k)) s;
         set_cgi c (\<lambda>g. g\<lparr>cgi_phase := CGI_CGI_TO_SRV\<rparr>) s }
       else Some s }
     else Some s }"

definition sv_from_cgi :: "os \<Rightarrow> ptr \<Rightarrow> server \<Rightarrow> server option" where
  "sv_from_cgi os c s = do {
     k \<leftarrow> get_conn c s;
     r \<leftarrow> (if 0 < srv_in (conn_cgi k) then isset_read (srv_in (conn_cgi k)) s else Some False);
     if r \<and> cgi_phase (conn_cgi k) = CGI_CGI_TO_SRV \<and> cgi_buf_phase (conn_cgi k) = BUF_RECV
     then do {
       (_, s) \<leftarrow> liso_stream_from_cgi os c s;
       k \<leftarrow> get_conn c s;
       s \<leftarrow> (if cgi_buf_phase (conn_cgi k) = BUF_SEND then set_fd_write (conn_fd k) s else Some s);
       if cgi_phase (conn_cgi k) = CGI_DONE then do {
         s \<leftarrow> clr_fd_read (srv_in (conn_cgi k)) s;
         let (si, tr) = close_pipe (srv_in (conn_cgi k)) (st_trace s);
         set_cgi c (\<lambda>g. g\<lparr>srv_in := si\<rparr>) (s\<lparr>st_trace := tr\<rparr>) }
       else Some s }
     else Some s }"

definition sv_send_dynamic :: "os \<Rightarrow> ptr \<Rightarrow> server \<Rightarrow> (bool \<times> server) option" where
  "sv_send_dynamic os c s = do {
     k \<leftarrow> get_conn c s;
     w \<leftarrow> isset_write (conn_fd k) s;
     if w \<and> cgi_buf_phase (conn_cgi k) = BUF_SEND then do {
       (rc, s) \<leftarrow> liso_serve_dynamic os c s;
       if rc < 0 then Some (False, s)
       else do {
         k \<leftarrow> get_conn c s;
         if cgi_buf_phase (conn_cgi k) = BUF_RECV \<and> 0 < conn_fd k
         then do { s \<leftarrow> clr_fd_write (conn_fd k) s; Some (True, s) }
         else Some (True, s) } }
     else Some (True, s) }"

definition sv_dynamic :: "os \<Rightarrow> ptr \<Rightarrow> server \<Rightarrow> (bool \<times> server) option" where
  "sv_dynamic os c s = do {
     k \<leftarrow> get_conn c s;
     if req_type (conn_req k) = REQ_DYNAMIC then do {
       s \<leftarrow> sv_from_cgi os c s;
       sv_send_dynamic os c s }
     else Some (True, s) }"

definition sv_static :: "os \<Rightarrow> ptr \<Rightarrow> server \<Rightarrow> (bool \<times> server) option" where
  "sv_static os c s = do {
     k \<leftarrow> get_conn c s;
     w \<leftarrow> isset_write (conn_fd k) s;
     if w \<and> resp_phase (conn_resp k) \<noteq> RESP_DISABLED then do {
       (rc, s) \<leftarrow> liso_serve_static os c s;
       Some (0 \<le> rc, s) }
     else Some (True, s) }"

definition serve_conn :: "os \<Rightarrow> conf_t \<Rightarrow> ptr \<Rightarrow> server \<Rightarrow> (bool \<times> server) option" where
  "serve_conn os conf c s = do {
     (alive, s) \<leftarrow> sv_recv os c s;
     if \<not> alive then Some (False, s)
     else do {
       s \<leftarrow> sv_logerr os c s;
       s \<leftarrow> sv_prepare os conf c s;
       s \<leftarrow> sv_init_cgi os c s;
       s \<leftarrow> sv_select_sets c s;
       s \<leftarrow> sv_to_cgi os c s;
       (alive, s) \<leftarrow> sv_dynamic os c s;
       if \<not> alive then Some (False, s)
       else sv_static os c s } }"

section \<open>The select loop\<close>

text \<open>The descriptors of a connection that count for \<open>max_fd\<close>.\<close>

definition conn_max_fd :: "conn_t \<Rightarrow> int \<Rightarrow> int" where
  "conn_max_fd k m = max (max (max m (conn_fd k)) (srv_in (conn_cgi k))) (srv_err (conn_cgi k))"

fun serve_loop ::
  "nat \<Rightarrow> os \<Rightarrow> conf_t \<Rightarrow> nat \<Rightarrow> int \<Rightarrow> server \<Rightarrow> (int \<times> server) option option" where
  "serve_loop fuel os conf i m s =
     (if i < n_conns s then
        (case fuel of
           0 \<Rightarrow> None
         | Suc fuel \<Rightarrow>
             (case do { c \<leftarrow> conns_get i s; r \<leftarrow> serve_conn os conf c s; Some (c, r) } of
                None \<Rightarrow> Some None
              | Some (c, alive, s) \<Rightarrow>
                  if \<not> alive then serve_loop fuel os conf i m s
                  else
                    (case get_conn c s of
                       None \<Rightarrow> Some None
                     | Some k \<Rightarrow> serve_loop fuel os conf (Suc i) (conn_max_fd k m) s)))
      else Some (Some (m, s)))"

declare serve_loop.simps [simp del]

text \<open>
  One turn of \<open>while (1)\<close>. When \<open>select\<close> fails the turn ends. The fuel of the loop over
  connections is the number of connections: every visit either moves on or removes one.
\<close>

definition accept_ready ::
  "os \<Rightarrow> conf_t \<Rightarrow> int \<Rightarrow> bool \<Rightarrow> server \<Rightarrow> server option" where
  "accept_ready os conf sock ctx s = do {
     r \<leftarrow> isset_read sock s;
     if r then do { (_, s) \<leftarrow> liso_accept_conn os conf sock ctx s; Some s } else Some s }"

definition serve_all :: "os \<Rightarrow> conf_t \<Rightarrow> server \<Rightarrow> server option" where
  "serve_all os conf s =
     (case serve_loop (n_conns s) os conf 0 (min_max_fd s) s of
        Some (Some (m, s)) \<Rightarrow> Some (s\<lparr>max_fd := m\<rparr>)
      | _ \<Rightarrow> None)"

definition select_turn :: "os \<Rightarrow> conf_t \<Rightarrow> int \<Rightarrow> int \<Rightarrow> server \<Rightarrow> server option" where
  "select_turn os conf sock ssl_sock s =
     (let s = pl_ready s;
          r = os_select os (st_trace s) (max_fd s + 1) (read_ready s) (write_ready s);
          s = log_ev (EvSelect (max_fd s + 1) r) s in
      case r of
        None \<Rightarrow> Some s
      | Some (rr, wr) \<Rightarrow> do {
          s \<leftarrow> accept_ready os conf sock False (s\<lparr>read_ready := rr, write_ready := wr\<rparr>);
          s \<leftarrow> accept_ready os conf ssl_sock True s;
          serve_all os conf s })"

end
