(* ===== verification/Startup.thy ===== *)
theory Startup
  imports Logging Lisod
begin

text \<open>
  \<open>daemon.c\<close> and the rest of \<open>lisod.c\<close>: start-up, the signal handler and the tear-down.

  \<open>proc\<close> holds the globals of the process: the listeners, the SSL context, the pool, the lock
  file of \<open>daemon.c\<close> and the log, and the calls made outside the select loop, oldest first. A
  function that may exit the process returns \<open>Inl\<close> of the exit code and the last state, or \<open>Inr\<close>
  of its value and the next state; \<open>None\<close> is undefined behaviour. Messages to the terminal are
  not modelled.
\<close>

section \<open>The process\<close>

datatype signal = SIGPIPE | SIGCHLD | SIGHUP | SIGTERM | SIGOTHER

datatype pcall =
    PcSocket int
  | PcBind int int bool
  | PcListen int nat bool
  | PcSetsockopt int
  | PcClose int
  | PcFork int
  | PcSetsid
  | PcUmask int
  | PcOpen string int
  | PcTLock int int
  | PcWrite int "char list"
  | PcCtxNew bool
  | PcCtxKey string bool
  | PcCtxCert string bool
  | PcCtxCheck bool
  | PcCtxFree
  | PcSignal signal
  | PcWaitpid int
  | PcExit int

record sys =
  sy_socket :: "pcall list \<Rightarrow> int"
  sy_bind :: "pcall list \<Rightarrow> int \<Rightarrow> int \<Rightarrow> bool"
  sy_listen :: "pcall list \<Rightarrow> int \<Rightarrow> bool"
  sy_dtablesize :: nat
  sy_fork :: "pcall list \<Rightarrow> int"
  sy_getpid :: nat
  sy_open :: "pcall list \<Rightarrow> string \<Rightarrow> int"
  sy_tlock :: "pcall list \<Rightarrow> int \<Rightarrow> int"
  sy_ctx_new :: "pcall list \<Rightarrow> bool"
  sy_ctx_key :: "pcall list \<Rightarrow> string \<Rightarrow> bool"
  sy_ctx_cert :: "pcall list \<Rightarrow> string \<Rightarrow> bool"
  sy_ctx_check :: "pcall list \<Rightarrow> bool"
  sy_waitpid :: "pcall list \<Rightarrow> int"
  sy_log :: log_os

record proc =
  pr_sock :: int
  pr_ssl_sock :: int
  pr_ctx :: bool
  pr_pool :: "server option"
  pr_lfp :: int
  pr_log :: log_t
  pr_calls :: "pcall list"

type_synonym 'a run = "((int \<times> proc) + ('a \<times> proc)) option"

definition proc0 :: proc where
  "proc0 = \<lparr>pr_sock = - 1, pr_ssl_sock = - 1, pr_ctx = False, pr_pool = None, pr_lfp = - 1,
     pr_log = log_state0, pr_calls = []\<rparr>"

definition EXIT_SUCCESS :: int where
  "EXIT_SUCCESS = 0"

definition EXIT_FAILURE :: int where
  "EXIT_FAILURE = 1"

definition pc :: "pcall \<Rightarrow> proc \<Rightarrow> proc" where
  "pc c p = p\<lparr>pr_calls := pr_calls p @ [c]\<rparr>"

definition pc_when :: "bool \<Rightarrow> pcall \<Rightarrow> proc \<Rightarrow> proc" where
  "pc_when b c p = (if b then pc c p else p)"

text \<open>Continue, unless the process has exited.\<close>

definition go_on :: "'a run \<Rightarrow> ('a \<Rightarrow> proc \<Rightarrow> 'b run) \<Rightarrow> 'b run" where
  "go_on r f = do { x \<leftarrow> r; (case x of Inl e \<Rightarrow> Some (Inl e) | Inr (v, p) \<Rightarrow> f v p) }"

definition exit_with :: "int \<Rightarrow> proc \<Rightarrow> int \<times> proc" where
  "exit_with rc p = (rc, pc (PcExit rc) p)"

section \<open>The lock file and the tear-down\<close>

definition release_lock :: "proc \<Rightarrow> proc" where
  "release_lock p = pc_when (0 < pr_lfp p) (PcClose (pr_lfp p)) p"

definition free_pool :: "proc \<Rightarrow> proc option" where
  "free_pool p =
     (case pr_pool p of
        None \<Rightarrow> Some p
      | Some s \<Rightarrow> do { s \<leftarrow> pl_free s; Some (p\<lparr>pr_pool := Some s\<rparr>) })"

definition teardown :: "sys \<Rightarrow> int \<Rightarrow> proc \<Rightarrow> (int \<times> proc) option" where
  "teardown sys rc p = do {
     let p = pc_when (0 < pr_sock p) (PcSetsockopt (pr_sock p)) p;
     let p = pc_when (0 < pr_ssl_sock p) (PcSetsockopt (pr_ssl_sock p)) p;
     let p = pc_when (0 < pr_sock p) (PcClose (pr_sock p)) p;
     let p = pc_when (0 < pr_ssl_sock p) (PcClose (pr_ssl_sock p)) p;
     let p = release_lock p;
     let p = pc_when (pr_ctx p) PcCtxFree p;
     p \<leftarrow> free_pool p;
     p \<leftarrow>
       (if log_inited (pr_log p) then do {
          l \<leftarrow> log_line (sy_log sys) ''-------- Liso Server stops --------'' [] (pr_log p);
          Some (p\<lparr>pr_log := log_stop l\<rparr>) }
        else Some p);
     Some (exit_with rc p) }"

definition fail_start :: "sys \<Rightarrow> proc \<Rightarrow> 'a run" where
  "fail_start sys p = map_option Inl (teardown sys EXIT_FAILURE p)"

section \<open>Listeners and the SSL context\<close>

text \<open>\<open>htons\<close> keeps the low 16 bits of the port.\<close>

definition open_listener_socket :: "sys \<Rightarrow> int \<Rightarrow> proc \<Rightarrow> int run" where
  "open_listener_socket sys port p =
     (let fd = sy_socket sys (pr_calls p); p = pc (PcSocket fd) p in
      if fd < 0 then do {
        l \<leftarrow> log_errln (sy_log sys) ''Failed creating socket.'' [] (pr_log p);
        fail_start sys (p\<lparr>pr_log := l\<rparr>) }
      else
        (let b = sy_bind sys (pr_calls p) fd (port mod 65536); p = pc (PcBind fd (port mod 65536) b) p in
         if \<not> b then fail_start sys p
         else
           (let b = sy_listen sys (pr_calls p) fd; p = pc (PcListen fd MAX_CONNS b) p in
            if \<not> b then fail_start sys p else Some (Inr (fd, p)))))"

text \<open>The context, as whether there is one. The last check only prints a message.\<close>

definition new_ssl_ctx :: "sys \<Rightarrow> mem \<Rightarrow> mem \<Rightarrow> proc \<Rightarrow> bool run" where
  "new_ssl_ctx sys prv crt p = do {
     key \<leftarrow> cstr_at prv 0;
     cert \<leftarrow> cstr_at crt 0;
     let ctx = sy_ctx_new sys (pr_calls p);
     let p = pc (PcCtxNew ctx) p;
     if \<not> ctx then fail_start sys p
     else do {
       let b = sy_ctx_key sys (pr_calls p) key;
       let p = pc (PcCtxKey key b) p;
       if \<not> b then fail_start sys p
       else do {
         let b = sy_ctx_cert sys (pr_calls p) cert;
         let p = pc (PcCtxCert cert b) p;
         if \<not> b then fail_start sys p
         else Some (Inr (ctx, pc (PcCtxCheck (sy_ctx_check sys (pr_calls p))) p)) } } }"

section \<open>Becoming a daemon\<close>

text \<open>
  \<open>for (i = getdtablesize(); i >= 0; i--) close(i);\<close> in the parent, which then exits. The
  child goes on when it gets the lock.
\<close>

fun close_down :: "nat \<Rightarrow> proc \<Rightarrow> proc" where
  "close_down 0 p = pc (PcClose 0) p"
| "close_down (Suc i) p = close_down i (pc (PcClose (int (Suc i))) p)"

definition daemonize :: "sys \<Rightarrow> mem \<Rightarrow> proc \<Rightarrow> unit run" where
  "daemonize sys lock_file p = do {
     let pid = sy_fork sys (pr_calls p);
     let p = pc (PcFork pid) p;
     if pid < 0 then Some (Inl (exit_with EXIT_FAILURE p))
     else if 0 < pid then Some (Inl (exit_with EXIT_SUCCESS (close_down (sy_dtablesize sys) p)))
     else do {
       let p = pc (PcUmask 23) (pc PcSetsid p);
       name \<leftarrow> cstr_at lock_file 0;
       let fd = sy_open sys (pr_calls p) name;
       let p = (pc (PcOpen name fd) p)\<lparr>pr_lfp := fd\<rparr>;
       if fd < 0 then Some (Inl (exit_with EXIT_FAILURE p))
       else do {
         let r = sy_tlock sys (pr_calls p) fd;
         let p = pc (PcTLock fd r) p;
         if r < 0 then Some (Inl (exit_with EXIT_FAILURE p))
         else do {
           str \<leftarrow> str_put 256 (show_int (int (sy_getpid sys)) @ [LF]) (replicate 256 NUL);
           s \<leftarrow> cstr_at str 0;
           let p = pc (PcWrite fd s) p;
           let p = pc (PcClose 1) (pc (PcClose 0) p);
           let p = pc (PcOpen ''/dev/null'' (sy_open sys (pr_calls p) ''/dev/null'')) p;
           let p = pc (PcOpen ''/dev/null'' (sy_open sys (pr_calls p) ''/dev/null'')) p;
           Some (Inr ((), p)) } } } }"

section \<open>main, up to the loop\<close>

definition ARG_CNT :: nat where
  "ARG_CNT = 8"

definition atoi_arg :: "mem \<Rightarrow> int option" where
  "atoi_arg a = do { s \<leftarrow> cstr_at a 0; Some (atoi s) }"

definition read_conf :: "mem list \<Rightarrow> conf_t option" where
  "read_conf argv = do {
     http \<leftarrow> atoi_arg (argv ! 1);
     https \<leftarrow> atoi_arg (argv ! 2);
     Some \<lparr>conf_http_port = http, conf_https_port = https, conf_log = argv ! 3, conf_lock = argv ! 4,
           conf_www = argv ! 5, conf_cgi = argv ! 6, conf_prv = argv ! 7, conf_crt = argv ! 8\<rparr> }"

text \<open>Steps of \<open>main\<close>: the listeners and the pool; the log.\<close>

definition start_pool :: "sys \<Rightarrow> conf_t \<Rightarrow> proc \<Rightarrow> unit run" where
  "start_pool sys conf p =
     go_on (open_listener_socket sys (conf_http_port conf) p) (\<lambda>fd p.
     let p = p\<lparr>pr_sock := fd\<rparr> in
     go_on (open_listener_socket sys (conf_https_port conf) p) (\<lambda>fd p.
     let p = p\<lparr>pr_ssl_sock := fd\<rparr> in
     do { s \<leftarrow> pl_new (pr_sock p) (pr_ssl_sock p) []; Some (Inr ((), p\<lparr>pr_pool := Some s\<rparr>)) }))"

definition start_log :: "sys \<Rightarrow> conf_t \<Rightarrow> proc \<Rightarrow> unit run" where
  "start_log sys conf p = do {
     let p = pc (PcSignal SIGTERM) (pc (PcSignal SIGHUP) (pc (PcSignal SIGCHLD) (pc (PcSignal SIGPIPE) p)));
     name \<leftarrow> cstr_at (conf_log conf) 0;
     let (rc, l) = log_init (sy_log sys) name (pr_log p);
     let p = p\<lparr>pr_log := l\<rparr>;
     if rc < 0 then fail_start sys p
     else do {
       l \<leftarrow> log_line (sy_log sys) ''-------- Liso Server starts --------'' [] (pr_log p);
       Some (Inr ((), p\<lparr>pr_log := l\<rparr>)) } }"

definition lisod_start :: "sys \<Rightarrow> mem list \<Rightarrow> proc \<Rightarrow> conf_t run" where
  "lisod_start sys argv p =
     (if length argv \<noteq> ARG_CNT + 1 then Some (Inl (exit_with EXIT_FAILURE p))
      else do {
        conf \<leftarrow> read_conf argv;
        go_on (start_pool sys conf p) (\<lambda>_ p.
        go_on (daemonize sys (conf_lock conf) p) (\<lambda>_ p.
        go_on (new_ssl_ctx sys (conf_prv conf) (conf_crt conf) p) (\<lambda>ctx p.
        go_on (start_log sys conf (p\<lparr>pr_ctx := ctx\<rparr>)) (\<lambda>_ p. Some (Inr (conf, p)))))) })"

section \<open>Signals\<close>

text \<open>
  \<open>while ((pid = waitpid(-1, &status, ...)) > 0);\<close>: \<open>None\<close> when \<open>waitpid\<close> reports children
  for ever.
\<close>

partial_function (option) reap :: "sys \<Rightarrow> proc \<Rightarrow> proc option" where
  "reap sys p =
     (let pid = sy_waitpid sys (pr_calls p); p = pc (PcWaitpid pid) p
      in if 0 < pid then reap sys p else Some p)"

definition signal_handler :: "sys \<Rightarrow> signal \<Rightarrow> proc \<Rightarrow> unit run" where
  "signal_handler sys sig p =
     (case sig of
        SIGCHLD \<Rightarrow> map_option (\<lambda>p. Inr ((), p)) (reap sys p)
      | SIGTERM \<Rightarrow> map_option Inl (teardown sys EXIT_SUCCESS p)
      | _ \<Rightarrow> Some (Inr ((), p)))"

section \<open>The running server\<close>

datatype pstate = Running proc | Stopped int proc

text \<open>
  After start-up the process takes turns of the select loop; a signal it has a handler for may
  arrive between two turns.
\<close>

inductive lisod_step :: "os \<Rightarrow> sys \<Rightarrow> conf_t \<Rightarrow> pstate \<Rightarrow> pstate \<Rightarrow> bool"
  for os :: os and sys :: sys and conf :: conf_t where
  turn: "pr_pool p = Some s \<Longrightarrow>
    select_turn os conf (pr_sock p) (pr_ssl_sock p) s = Some s' \<Longrightarrow>
    lisod_step os sys conf (Running p) (Running (p\<lparr>pr_pool := Some s'\<rparr>))"
| caught: "sig \<in> {SIGCHLD, SIGHUP, SIGTERM} \<Longrightarrow> signal_handler sys sig p = Some (Inr ((), p')) \<Longrightarrow>
    lisod_step os sys conf (Running p) (Running p')"
| ended: "sig \<in> {SIGCHLD, SIGHUP, SIGTERM} \<Longrightarrow> signal_handler sys sig p = Some (Inl (rc, p')) \<Longrightarrow>
    lisod_step os sys conf (Running p) (Stopped rc p')"

inductive lisod_reach :: "os \<Rightarrow> sys \<Rightarrow> mem list \<Rightarrow> conf_t \<Rightarrow> pstate \<Rightarrow> bool"
  for os :: os and sys :: sys and argv :: "mem list" and conf :: conf_t where
  started: "lisod_start sys argv proc0 = Some (Inr (conf, p)) \<Longrightarrow> lisod_reach os sys argv conf (Running p)"
| stepped: "lisod_reach os sys argv conf x \<Longrightarrow> lisod_step os sys conf x y \<Longrightarrow> lisod_reach os sys argv conf y"

inductive_cases lisod_stepE: "lisod_step os sys conf (Running p) y"
inductive_simps lisod_step_stopped [simp]: "lisod_step os sys conf (Stopped rc p) y"

end
