(* ===== verification/Request_Lines.thy ===== *)
theory Request_Lines
  imports Request
begin

text \<open>
  A reference parser for requests, on lists of lines instead of a byte array with cursors, and the
  proof that the parser of the code computes it.

  A line is the text between two line feeds, its carriage return included. The reference parser
  says what a request line and a header line mean; the code's macros, its look-behind for the
  carriage return and its bounded copies are all discharged in \<open>req_parse_lines\<close>.
\<close>

section \<open>The reference parser\<close>

text \<open>The next blank-separated token of a line, and what follows it.\<close>

definition next_tok :: "string \<Rightarrow> string \<times> string" where
  "next_tok l =
     (let t = dropWhile issp l
      in (takeWhile (\<lambda>c. \<not> isspace c) t, dropWhile (\<lambda>c. \<not> isspace c) t))"

definition method_of :: "string \<Rightarrow> string \<Rightarrow> http_method option" where
  "method_of tok rest =
     (if rest = [] then None
      else if map tolower tok = ''get'' then Some M_GET
      else if map tolower tok = ''head'' then Some M_HEAD
      else if map tolower tok = ''post'' then Some M_POST
      else None)"

definition store_str :: "string \<Rightarrow> mem \<Rightarrow> mem" where
  "store_str s d = s @ NUL # drop (Suc (length s)) d"

definition store_uri :: "req_t \<Rightarrow> string \<Rightarrow> req_t" where
  "store_uri req s =
     (let m = store_str s (clear0 (req_uri req));
          path = takeWhile (\<lambda>c. c \<noteq> CHR ''?'') s
      in req\<lparr>
        req_type := (if take 5 s = ''/cgi/'' then REQ_DYNAMIC else req_type req),
        req_uri := (if CHR ''?'' \<in> set s then store_str path m else m),
        req_params := (if CHR ''?'' \<in> set s then Some (Suc (length path)) else None)\<rparr>)"

definition uri_of_line :: "string \<Rightarrow> string" where
  "uri_of_line l = cstr (take REQ_URISZ (fst (next_tok (snd (next_tok l)))))"

text \<open>The request line: the new request and \<open>Some\<close> status when it is refused.\<close>

definition request_line :: "req_t \<Rightarrow> string \<Rightarrow> int option \<times> req_t" where
  "request_line req l =
     (let (m, r1) = next_tok l in
      if cstr (take 8 m) = [] then (Some (- 400), req\<lparr>req_phase := REQ_ABORT\<rparr>)
      else
        (case method_of m r1 of
           None \<Rightarrow> (Some (- 501), req\<lparr>req_phase := REQ_ABORT\<rparr>)
         | Some me \<Rightarrow>
             (let (u, r2) = next_tok r1;
                  (v, r3) = next_tok r2;
                  req = store_uri (req\<lparr>req_meth := me\<rparr>) (cstr (take REQ_URISZ u));
                  req = req\<lparr>req_version := store_str (cstr (take REQ_VERSZ v)) (req_version req)\<rparr>
              in if dropWhile issp r3 = [] \<and> last l = CR then (None, req\<lparr>req_phase := REQ_HEADER\<rparr>)
                 else (Some (- 400), req\<lparr>req_phase := REQ_ABORT\<rparr>))))"

datatype hline = HEnd | HBad | HField string string

text \<open>At most \<open>n\<close> bytes of a field are kept, up to the first NUL, and trimmed.\<close>

definition trim :: "nat \<Rightarrow> string \<Rightarrow> string" where
  "trim n s = strip (cstr (take n s))"

definition split_header :: "string \<Rightarrow> hline" where
  "split_header l =
     (let t = dropWhile issp l; k = takeWhile (\<lambda>c. c \<noteq> CHR '':'') t in
      if t = [] then (if l \<noteq> [] \<and> last l = CR then HEnd else HBad)
      else if k = [] \<or> k = t then HBad
      else HField (trim HDR_KEYSZ k) (trim HDR_VALSZ (drop (Suc (length k)) t)))"

definition apply_field :: "req_t \<Rightarrow> string \<Rightarrow> string \<Rightarrow> (hdr_step \<times> req_t) option" where
  "apply_field req k v =
     (if map tolower k = ''host'' then
        (if length v \<le> REQ_HOSTSZ then Some (Next, req\<lparr>req_host := store_str v (req_host req)\<rparr>)
         else None)
      else if map tolower k = ''content-length'' then
        (if list_all isdigit v then Some (Next, req\<lparr>req_clen := atoi v\<rparr>)
         else Some (Ret (- 400), req\<lparr>req_phase := REQ_ABORT\<rparr>))
      else if map tolower k = ''connection'' then
        Some (Next, if map tolower v = ''close'' then req\<lparr>req_alive := False\<rparr> else req)
      else Some (Next, req\<lparr>req_hdrs := (k, v) # req_hdrs req\<rparr>))"

definition line_step :: "req_t \<Rightarrow> string \<Rightarrow> (hdr_step \<times> req_t) option" where
  "line_step req l =
     (case split_header l of
        HEnd \<Rightarrow> Some (finish_header req)
      | HBad \<Rightarrow> Some (Ret (- 400), req\<lparr>req_phase := REQ_ABORT\<rparr>)
      | HField k v \<Rightarrow> apply_field req k v)"

text \<open>The header lines: the status of the first that fails, or the bytes consumed.\<close>

fun parse_lines :: "req_t \<Rightarrow> string list \<Rightarrow> nat \<Rightarrow> (int \<times> req_t) option" where
  "parse_lines req [] n = Some (int n, req)"
| "parse_lines req (l # ls) n =
     (case line_step req l of
        None \<Rightarrow> None
      | Some (Ret rc, req) \<Rightarrow> Some (rc, req)
      | Some (Stop, req) \<Rightarrow> Some (int (n + Suc (length l)), req)
      | Some (Next, req) \<Rightarrow> parse_lines req ls (n + Suc (length l)))"

definition parse_spec :: "req_t \<Rightarrow> string list \<Rightarrow> (int \<times> req_t) option" where
  "parse_spec req ls =
     (case req_phase req of
        REQ_START \<Rightarrow>
          (case request_line req (hd ls) of
             (Some rc, req) \<Rightarrow> Some (rc, req)
           | (None, req) \<Rightarrow> parse_lines req (tl ls) (Suc (length (hd ls))))
      | REQ_HEADER \<Rightarrow> parse_lines req ls 0
      | _ \<Rightarrow> Some (0, req))"

definition join_lines :: "string list \<Rightarrow> string" where
  "join_lines ls = concat (map (\<lambda>l. l @ [LF]) ls)"

section \<open>Views of a buffer\<close>

text \<open>
  The bytes in use are \<open>pre\<close> before the cursor and \<open>u\<close> from it on.
\<close>

definition view :: "buf_t \<Rightarrow> string \<Rightarrow> string \<Rightarrow> bool" where
  "view buf pre u \<longleftrightarrow>
     sz buf = int (length (pre @ u)) \<and> length (pre @ u) \<le> length (data buf)
     \<and> take (length (pre @ u)) (data buf) = pre @ u \<and> data_p buf = length pre"

lemma view_e: "view buf pre u \<Longrightarrow> buf_e buf = length pre + length u"
  by (simp add: view_def buf_e_def buf_end_def)

lemma view_data:
  assumes "view buf pre u"
  obtains r where "data buf = pre @ u @ r"
proof -
  have "data buf = take (length (pre @ u)) (data buf) @ drop (length (pre @ u)) (data buf)" by simp
  also have "\<dots> = (pre @ u) @ drop (length (pre @ u)) (data buf)"
    using assms unfolding view_def by simp
  finally show thesis using that by simp
qed

lemma view_move:
  "view buf pre (u @ v) \<Longrightarrow> view (buf\<lparr>data_p := length pre + length u\<rparr>) (pre @ u) v"
  by (simp add: view_def)

lemma scan_append:
  "scan P (a @ u @ r) (length a + length u) (length a) = Some (length a + length (takeWhile P u))"
proof (induction u arbitrary: a)
  case Nil
  then show ?case by (subst scan.simps) simp
next
  case (Cons c u)
  show ?case
    by (subst scan.simps) (use Cons.IH [of "a @ [c]"] in \<open>simp add: nth_append\<close>)
qed

lemma view_scan:
  assumes "view buf pre u" "pre @ u = a @ b @ c"
  shows "scan P (data buf) (length a + length b) (length a) = Some (length a + length (takeWhile P b))"
proof -
  obtain r where "data buf = (pre @ u) @ r" using view_data [OF assms(1)] by auto
  then show ?thesis using scan_append [of P a b "c @ r"] by (simp add: assms(2))
qed

lemma view_scan_end:
  assumes "view buf pre u" "pre @ u = a @ b"
  shows "scan P (data buf) (buf_e buf) (length a) = Some (length a + length (takeWhile P b))"
proof -
  have "buf_e buf = length a + length b"
    using view_e [OF assms(1)] arg_cong [OF assms(2), of length] by simp
  then show ?thesis using view_scan [of buf pre u a b "[]"] assms by simp
qed

lemma view_get:
  assumes "view buf pre u" "pre @ u = a @ c # b"
  shows "mem_get (data buf) (length a) = Some c"
proof -
  obtain r where "data buf = (pre @ u) @ r" using view_data [OF assms(1)] by auto
  then show ?thesis by (simp add: assms(2) mem_get_def)
qed

lemma view_cstrn:
  assumes "view buf pre u" "pre @ u = a @ b" "n \<le> length b"
  shows "cstrn_at (data buf) (length a) n = Some (cstr (take n b))"
proof -
  obtain r where "data buf = (pre @ u) @ r" using view_data [OF assms(1)] by auto
  then show ?thesis using assms(3) by (simp add: assms(2) cstrn_at_in cstr_def)
qed

lemma issp_isspace: "isspace c \<longleftrightarrow> issp c \<or> c = LF"
  by (auto simp: isspace_def issp_def)

lemma issp_LF [simp]: "\<not> issp LF" "isspace LF"
  by (simp_all add: issp_def isspace_def)

lemma takeWhile_LF:
  "LF \<notin> set l \<Longrightarrow> \<not> P LF \<Longrightarrow> takeWhile P (l @ LF # rest) = takeWhile P l"
  by (induction l) auto

text \<open>The cursor macros on a view whose unread part starts with the line \<open>l\<close>.\<close>

lemma proceed_line_view:
  assumes v: "view buf pre (l @ LF # rest)" and "LF \<notin> set l"
  shows "proceed_line buf = Some (length pre + length (takeWhile issp l),
           buf\<lparr>data_p := length pre + length l\<rparr>)"
proof -
  let ?s = "takeWhile issp l" and ?t = "dropWhile issp l"
  have t: "LF \<notin> set ?t" using assms(2) by (auto dest: set_dropWhileD)
  then have tw: "takeWhile (\<lambda>c. c \<noteq> LF) ?t = ?t" by (auto simp: takeWhile_eq_all_conv)
  have dp: "data_p buf = length pre" using v by (simp add: view_def)
  have "scan issp (data buf) (buf_e buf) (length pre) = Some (length pre + length ?s)"
    using view_scan_end [OF v refl] assms(2) by (simp add: takeWhile_LF)
  moreover have "pre @ l @ LF # rest = (pre @ ?s) @ ?t @ LF # rest" by simp
  from view_scan_end [OF v this, of "\<lambda>c. c \<noteq> LF"]
  have "scan (\<lambda>c. c \<noteq> LF) (data buf) (buf_e buf) (length pre + length ?s)
      = Some (length pre + length ?s + length ?t)"
    using t tw by (simp add: takeWhile_LF)
  moreover have "length ?s + length ?t = length l" by (simp flip: length_append)
  ultimately show ?thesis by (simp add: proceed_line_def dp)
qed

lemma proceed_inline_view:
  assumes v: "view buf pre (l @ LF # rest)" and "LF \<notin> set l" and tok: "next_tok l = (t, r)"
  shows "proceed_inline buf = Some (length pre + length (takeWhile issp l),
           buf\<lparr>data_p := length pre + length (takeWhile issp l) + length t\<rparr>)"
    and "l = takeWhile issp l @ t @ r"
    and "view (buf\<lparr>data_p := length pre + length (takeWhile issp l) + length t\<rparr>)
           (pre @ takeWhile issp l @ t) (r @ LF # rest)"
proof -
  let ?s = "takeWhile issp l" and ?t = "dropWhile issp l"
  have t: "LF \<notin> set ?t" using assms(2) by (auto dest: set_dropWhileD)
  have dp: "data_p buf = length pre" using v by (simp add: view_def)
  have tr: "t = takeWhile (\<lambda>c. \<not> isspace c) ?t" "r = dropWhile (\<lambda>c. \<not> isspace c) ?t"
    using tok by (auto simp: next_tok_def Let_def)
  show l: "l = ?s @ t @ r" by (simp add: tr)
  have "scan issp (data buf) (buf_e buf) (length pre) = Some (length pre + length ?s)"
    using view_scan_end [OF v refl] assms(2) by (simp add: takeWhile_LF)
  moreover have "pre @ l @ LF # rest = (pre @ ?s) @ ?t @ LF # rest" by simp
  from view_scan_end [OF v this, of "\<lambda>c. \<not> isspace c"]
  have "scan (\<lambda>c. \<not> isspace c) (data buf) (buf_e buf) (length pre + length ?s)
      = Some (length pre + length ?s + length t)"
    using t by (simp add: takeWhile_LF tr)
  ultimately show "proceed_inline buf = Some (length pre + length ?s,
      buf\<lparr>data_p := length pre + length ?s + length t\<rparr>)"
    by (simp add: proceed_inline_def dp)
  have "view buf pre ((?s @ t) @ r @ LF # rest)" using v by (subst (asm) (1) l) simp
  from view_move [OF this] show "view (buf\<lparr>data_p := length pre + length ?s + length t\<rparr>)
      (pre @ ?s @ t) (r @ LF # rest)"
    by (simp add: add.assoc)
qed

lemma next_tok_LF: "LF \<notin> set l \<Longrightarrow> next_tok l = (t, r) \<Longrightarrow> LF \<notin> set t \<and> LF \<notin> set r"
  by (auto simp: next_tok_def Let_def dest!: set_takeWhileD set_dropWhileD)

text \<open>The end-of-line test at the line feed of a line looks at the last byte of the line.\<close>

lemma eol_view:
  assumes v: "view buf (pre @ l) (LF # rest)" and b: "l \<noteq> [] \<or> (pre \<noteq> [] \<and> last pre = LF)"
  shows "eol (length pre + length l) buf = Some (l \<noteq> [] \<and> last l = CR)"
proof -
  have "pre @ l \<noteq> []" using b by auto
  then obtain a c where ac: "pre @ l = a @ [c]" by (cases "pre @ l" rule: rev_cases) auto
  then have c: "c = (if l = [] then last pre else last l)" by (metis last_appendR last_snoc append_Nil2)
  have len: "length pre + length l = Suc (length a)" using arg_cong [OF ac, of length] by simp
  have g1: "mem_get (data buf) (length a) = Some c"
    using view_get [OF v, of a c] ac by simp
  have g2: "mem_get (data buf) (Suc (length a)) = Some LF"
    using view_get [OF v, of "pre @ l" LF rest] len by simp
  have "data_p buf = Suc (length a)" "buf_end buf > int (Suc (length a))"
    using v len by (auto simp: view_def buf_end_def)
  with g1 g2 c b show ?thesis unfolding len by (auto simp: eol_def)
qed

section \<open>A header line\<close>

lemma length_strip: "length (strip s) \<le> length s"
proof -
  have "length (dropWhile isspace (rev (dropWhile isspace s))) \<le> length (dropWhile isspace s)"
    using length_dropWhile_le [of isspace "rev (dropWhile isspace s)"] by simp
  also have "\<dots> \<le> length s" by (rule length_dropWhile_le)
  finally show ?thesis by (simp add: strip_def)
qed

lemma set_strip: "set (strip s) \<subseteq> set s"
  by (auto simp: strip_def dest!: set_dropWhileD)

lemma no_nul_strip [simp]: "no_nul s \<Longrightarrow> no_nul (strip s)"
  using set_strip [of s] by (auto simp: no_nul_def)

lemma length_cstr_le: "length (cstr s) \<le> length s"
  by (simp add: cstr_def length_takeWhile_le)

lemma length_trim: "length (trim n s) \<le> n"
proof -
  have "length (trim n s) \<le> length (cstr (take n s))" by (simp add: trim_def length_strip)
  also have "\<dots> \<le> length (take n s)" by (rule length_cstr_le)
  finally show ?thesis by simp
qed

lemma no_nul_trim [simp]: "no_nul (trim n s)"
  by (simp add: trim_def)

lemma map_tolower_literals:
  "map tolower ''Host'' = ''host''" "map tolower ''Content-Length'' = ''content-length''"
  "map tolower ''Connection'' = ''connection''" "map tolower ''close'' = ''close''"
  "map tolower ''http://'' = ''http://''" "map tolower ''https://'' = ''https://''"
  by code_simp+

lemma no_nul_literals:
  "no_nul ''Host''" "no_nul ''Content-Length''" "no_nul ''Connection''" "no_nul ''close''"
  "no_nul ''http://''" "no_nul ''https://''" "no_nul ''/cgi/''"
  by simp_all

lemma strcaseeq_lit:
  "is_cstr m \<Longrightarrow> no_nul s \<Longrightarrow> strcaseeq m (lit s) = Some (map tolower (cstr m) = map tolower s)"
  by (simp add: strcaseeq_cstr)

lemma strcaseeq_literals:
  assumes "is_cstr m"
  shows "strcaseeq m (lit ''Host'') = Some (map tolower (cstr m) = ''host'')"
    and "strcaseeq m (lit ''Content-Length'') = Some (map tolower (cstr m) = ''content-length'')"
    and "strcaseeq m (lit ''Connection'') = Some (map tolower (cstr m) = ''connection'')"
    and "strcaseeq m (lit ''close'') = Some (map tolower (cstr m) = ''close'')"
    and "strcaseeq m (lit ''http://'') = Some (map tolower (cstr m) = ''http://'')"
    and "strcaseeq m (lit ''https://'') = Some (map tolower (cstr m) = ''https://'')"
  by (simp_all only: strcaseeq_lit [OF assms] no_nul_literals map_tolower_literals)

lemma apply_header_field:
  assumes k: "is_cstr key" and v: "is_cstr val"
    and "length (cstr key) \<le> HDR_KEYSZ" "length (cstr val) \<le> HDR_VALSZ"
  shows "apply_header req key val = apply_field req (cstr key) (cstr val)"
proof -
  have put: "strcpy0 (REQ_HOSTSZ + 1) (req_host req) val 0 =
      (if length (cstr val) \<le> REQ_HOSTSZ then Some (store_str (cstr val) (req_host req)) else None)"
    using v by (auto simp: strcpy0_def cstr_at_cstr store_str_def str_put_None)
  have kv: "hdr_pair key val = Some (cstr key, cstr val)"
    using assms by (simp add: hdr_pair_cstr)
  show ?thesis
    by (simp only: apply_header_def apply_field_def strcaseeq_literals [OF k]
        strcaseeq_literals [OF v] put kv isnum_cstr [OF v] cstr_at_cstr [OF v] hdrs_insert_def
        Option.bind.bind_lunit) (simp split: if_split)
qed

text \<open>The bounded copy of the next bytes of the buffer, and the copy of a field, trimmed in place.\<close>

lemma copy_tok:
  assumes "view buf pre u" "pre @ u = a @ t @ b"
  shows "strncpy0 (n + 1) q (data buf) (length a) (min n (length t)) = Some (store_str (cstr (take n t)) q)"
proof -
  have "cstrn_at (data buf) (length a) (min n (length t)) = Some (cstr (take (min n (length t)) (t @ b)))"
    by (rule view_cstrn [OF assms]) simp
  moreover have "take (min n (length t)) (t @ b) = take n t" by (auto simp: min_def)
  moreover have "length (cstr (take n t)) \<le> n" using length_cstr_le [of "take n t"] by simp
  ultimately show ?thesis by (simp add: strncpy0_def store_str_def)
qed

lemma copy_trim:
  assumes "view buf pre u" "pre @ u = a @ f @ b"
  shows "\<exists>d d'. strncpy0 (n + 1) [] (data buf) (length a) (min n (length f)) = Some d
    \<and> strstrip d = Some d' \<and> cstr d' = trim n f \<and> is_cstr d'"
proof -
  let ?s = "cstr (take n f)"
  obtain d' where "strstrip (?s @ [NUL]) = Some d'" "cstr d' = strip ?s" "is_cstr d'"
    using strstrip_strip [of "?s @ [NUL]"] by auto
  then show ?thesis using copy_tok [OF assms, of n "[]"] by (auto simp: trim_def store_str_def)
qed

lemma dropWhile_neq_Cons:
  "dropWhile (\<lambda>c. c \<noteq> x) s \<noteq> [] \<Longrightarrow> \<exists>w. dropWhile (\<lambda>c. c \<noteq> x) s = x # w"
  by (induction s) auto

lemma append_Cons_facts: "t = k @ c # w \<Longrightarrow> k \<noteq> t \<and> drop (Suc (length k)) t = w"
  by auto

text \<open>
  The three kinds of line, with \<open>s\<close> its leading blanks, \<open>k\<close> what stands before the colon and \<open>r\<close>
  the rest: a blank line, a line with no key or no colon, and a field.
\<close>

lemma header_line_blank:
  assumes v: "view buf pre (l @ LF # rest)" and LF: "LF \<notin> set l"
    and b: "l \<noteq> [] \<or> (pre \<noteq> [] \<and> last pre = LF)" and blank: "dropWhile issp l = []"
  shows "header_line req buf = map_option (\<lambda>(st, req').
      (st, req', buf\<lparr>data_p := length pre + length l + (if split_header l = HEnd then 1 else 0)\<rparr>))
      (line_step req l)"
proof -
  let ?buf = "buf\<lparr>data_p := length pre + length l\<rparr>"
  have "takeWhile issp l = l" using blank by (simp add: takeWhile_eq_all_conv)
  then have s: "length (takeWhile issp l) = length l" by (rule arg_cong)
  have pl: "proceed_line buf = Some (length pre + length l, ?buf)"
    using proceed_line_view [OF v LF] unfolding s .
  have "view ?buf (pre @ l) (LF # rest)" using view_move [OF v] by simp
  then have e: "eol (length pre + length l) ?buf = Some (l \<noteq> [] \<and> last l = CR)"
    using b by (rule eol_view)
  have q: "scan (\<lambda>c. c \<noteq> CHR '':'') (data buf) (length pre + length l) (length pre + length l)
      = Some (length pre + length l)"
    by (subst scan.simps) simp
  show ?thesis
    using blank e q
    by (cases "l = []"; cases "last l = CR"; cases "finish_header req")
      (simp_all add: header_line_def pl line_step_def split_header_def del: dropWhile_eq_Nil_conv)
qed

text \<open>The scans of a line that is not blank.\<close>

lemma header_line_scans:
  assumes v: "view buf pre (l @ LF # rest)" and LF: "LF \<notin> set l" and l: "l = s @ k @ r"
    and skr: "s = takeWhile issp l" "k = takeWhile (\<lambda>c. c \<noteq> CHR '':'') (dropWhile issp l)"
    and ne: "dropWhile issp l \<noteq> []"
  defines "buf' \<equiv> buf\<lparr>data_p := length pre + length l\<rparr>"
  shows "proceed_line buf = Some (length pre + length s, buf')"
    and "eol (length pre + length s) buf' = Some False"
    and "scan (\<lambda>c. c \<noteq> CHR '':'') (data buf) (length pre + length l) (length pre + length s)
      = Some (length pre + length s + length k)"
    and "view buf' (pre @ l) (LF # rest)"
proof -
  show "proceed_line buf = Some (length pre + length s, buf')"
    using proceed_line_view [OF v LF] by (simp add: skr(1) buf'_def)
  have len: "length l = length s + length (dropWhile issp l)"
    using length_takeWhile_dropWhile [of issp l] by (simp add: skr(1))
  then have "length s < length l" using ne by simp
  then show "eol (length pre + length s) buf' = Some False" by (simp add: eol_def buf'_def)
  show v': "view buf' (pre @ l) (LF # rest)" using view_move [OF v] by (simp add: buf'_def)
  have split1: "(pre @ l) @ LF # rest = (pre @ s) @ dropWhile issp l @ LF # rest" by (simp add: skr(1))
  have len1: "length (pre @ s) + length (dropWhile issp l) = length pre + length l" using len by simp
  show "scan (\<lambda>c. c \<noteq> CHR '':'') (data buf) (length pre + length l) (length pre + length s)
      = Some (length pre + length s + length k)"
    using view_scan [OF v' split1, of "\<lambda>c. c \<noteq> CHR '':''", unfolded len1] by (simp add: skr(2) buf'_def)
qed

lemma header_line_no_field:
  assumes "view buf pre (l @ LF # rest)" "LF \<notin> set l" "l = s @ k @ r"
    and "s = takeWhile issp l" "k = takeWhile (\<lambda>c. c \<noteq> CHR '':'') (dropWhile issp l)"
    and ne: "dropWhile issp l \<noteq> []" and kr: "k = [] \<or> r = []"
  shows "header_line req buf
    = Some (Ret (- 400), req\<lparr>req_phase := REQ_ABORT\<rparr>, buf\<lparr>data_p := length pre + length l\<rparr>)"
    and "split_header l = HBad"
proof -
  note h = header_line_scans [OF assms(1-6)]
  have "s @ dropWhile issp l = l" by (simp add: assms(4))
  then have t: "dropWhile issp l = k @ r" using assms(3) by simp
  show "split_header l = HBad"
  proof -
    have "k = [] \<or> k = dropWhile issp l" using kr t by auto
    then show ?thesis
      using ne unfolding split_header_def Let_def assms(5) by (simp only: if_True if_False)
  qed
  have "mem_get (data buf) (length pre + length s + length k) = Some LF" if "r = []"
    using view_get [OF h(4), of "pre @ s @ k" LF rest] assms(3) that by (simp add: add.assoc)
  then show "header_line req buf
    = Some (Ret (- 400), req\<lparr>req_phase := REQ_ABORT\<rparr>, buf\<lparr>data_p := length pre + length l\<rparr>)"
    using kr by (cases "k = []") (simp_all add: header_line_def h(1-3))
qed

lemma header_line_field:
  assumes "view buf pre (l @ LF # rest)" "LF \<notin> set l" "l = s @ k @ CHR '':'' # w"
    and "s = takeWhile issp l" "k = takeWhile (\<lambda>c. c \<noteq> CHR '':'') (dropWhile issp l)"
    and ne: "dropWhile issp l \<noteq> []" and k: "k \<noteq> []"
  shows "header_line req buf = map_option (\<lambda>(st, req'). (st, req', buf\<lparr>data_p := length pre + length l\<rparr>))
      (apply_field req (trim HDR_KEYSZ k) (trim HDR_VALSZ w))"
    and "split_header l = HField (trim HDR_KEYSZ k) (trim HDR_VALSZ w)"
proof -
  let ?buf = "buf\<lparr>data_p := length pre + length l\<rparr>"
  note h = header_line_scans [OF assms(1-6)]
  have "s @ dropWhile issp l = l" by (simp add: assms(4))
  then have t: "dropWhile issp l = k @ CHR '':'' # w" using assms(3) by simp
  show "split_header l = HField (trim HDR_KEYSZ k) (trim HDR_VALSZ w)"
    using k ne append_Cons_facts [OF t] by (simp add: split_header_def Let_def flip: assms(5))
  have sp: "(pre @ l) @ LF # rest = (pre @ s) @ k @ CHR '':'' # w @ LF # rest"
    "(pre @ l) @ LF # rest = (pre @ s @ k @ [CHR '':'']) @ w @ LF # rest"
    "(pre @ l) @ LF # rest = (pre @ s @ k) @ CHR '':'' # w @ LF # rest"
    using assms(3) by simp_all
  have c: "mem_get (data buf) (length pre + length s + length k) = Some CHR '':''"
    using view_get [OF h(4) sp(3)] by (simp add: add.assoc)
  obtain d d' where key: "strncpy0 (HDR_KEYSZ + 1) [] (data buf) (length pre + length s)
      (min HDR_KEYSZ (length k)) = Some d" "strstrip d = Some d'" "cstr d' = trim HDR_KEYSZ k" "is_cstr d'"
    using copy_trim [OF h(4) sp(1), of HDR_KEYSZ] by auto
  obtain g g' where val: "strncpy0 (HDR_VALSZ + 1) [] (data buf) (length pre + length s + length k + 1)
      (min HDR_VALSZ (length w)) = Some g" "strstrip g = Some g'" "cstr g' = trim HDR_VALSZ w" "is_cstr g'"
    using copy_trim [OF h(4) sp(2), of HDR_VALSZ] by (auto simp: add.assoc)
  have ap: "apply_header req d' g' = apply_field req (trim HDR_KEYSZ k) (trim HDR_VALSZ w)"
    using apply_header_field [of d' g' req] key val by (simp add: length_trim)
  have dist: "length pre + length l - (length pre + length s + length k) - 1 = length w"
    "length pre + length s + length k - (length pre + length s) = length k"
    using arg_cong [OF assms(3), of length] by simp_all
  have sel: "data ?buf = data buf" "data_p ?buf = length pre + length l" by simp_all
  have kk: "\<not> length pre + length s + length k = length pre + length s" using k by simp
  show "header_line req buf = map_option (\<lambda>(st, req'). (st, req', ?buf))
      (apply_field req (trim HDR_KEYSZ k) (trim HDR_VALSZ w))"
    using key(1,2) val(1,2)
    by (simp only: header_line_def h(1-3) c Option.bind.bind_lunit prod.case if_False if_True
        kk dist ap sel not_True_eq_False simp_thms)
      (cases "apply_field req (trim HDR_KEYSZ k) (trim HDR_VALSZ w)", auto)
qed

text \<open>Where the cursor is left after a line: past the line feed only at the blank line.\<close>

lemma header_line_view:
  assumes v: "view buf pre (l @ LF # rest)" and LF: "LF \<notin> set l"
    and b: "l \<noteq> [] \<or> (pre \<noteq> [] \<and> last pre = LF)"
  shows "header_line req buf = map_option (\<lambda>(st, req').
      (st, req', buf\<lparr>data_p := length pre + length l + (if split_header l = HEnd then 1 else 0)\<rparr>))
      (line_step req l)"
proof (cases "dropWhile issp l = []")
  case True
  then show ?thesis by (rule header_line_blank [OF v LF b])
next
  case ne: False
  define s k r where d: "s = takeWhile issp l" "k = takeWhile (\<lambda>c. c \<noteq> CHR '':'') (dropWhile issp l)"
    "r = dropWhile (\<lambda>c. c \<noteq> CHR '':'') (dropWhile issp l)"
  have l: "l = s @ k @ r" by (simp add: d)
  show ?thesis
  proof (cases "k = [] \<or> r = []")
    case True
    then show ?thesis using header_line_no_field [OF v LF l d(1,2) ne True] by (simp add: line_step_def)
  next
    case False
    then obtain w where w: "r = CHR '':'' # w"
      using dropWhile_neq_Cons [of "CHR '':''" "dropWhile issp l"] unfolding d(3) by blast
    show ?thesis
      using header_line_field [OF v LF l [unfolded w] d(1,2) ne] False by (simp add: line_step_def)
  qed
qed

section \<open>The header loop\<close>

text \<open>The loop over header lines computes \<open>parse_lines\<close>; its status is its return value.\<close>

definition headers_result :: "(int option \<times> req_t \<times> buf_t) option \<Rightarrow> (int \<times> req_t) option" where
  "headers_result = map_option (\<lambda>(r, req, buf).
     (case r of Some rc \<Rightarrow> rc | None \<Rightarrow> int (data_p buf), req))"

lemma join_lines_simps [simp]:
  "join_lines [] = []" "join_lines (l # ls) = l @ LF # join_lines ls"
  "join_lines (ls @ ls') = join_lines ls @ join_lines ls'"
  by (simp_all add: join_lines_def)

lemma split_header_step: "line_step req l = Some (Stop, req') \<Longrightarrow> split_header l = HEnd"
  by (auto simp: line_step_def apply_field_def split: hline.splits if_splits)

lemma split_header_next: "line_step req l = Some (Next, req') \<Longrightarrow> split_header l \<noteq> HEnd"
  by (auto simp: line_step_def finish_header_def Let_def split: if_splits)

lemma parse_headers_lines:
  assumes "view buf pre (join_lines ls)" "\<forall>l \<in> set ls. LF \<notin> set l"
    and "ls \<noteq> [] \<Longrightarrow> hd ls \<noteq> [] \<or> (pre \<noteq> [] \<and> last pre = LF)"
  shows "headers_result (parse_headers req buf) = parse_lines req ls (length pre)"
  using assms
proof (induction ls arbitrary: req buf pre)
  case Nil
  then show ?case
    by (subst parse_headers.simps) (simp add: view_def buf_end_def headers_result_def)
next
  case (Cons l ls)
  let ?d = "length pre + length l"
  have v: "view buf pre (l @ LF # join_lines ls)" using Cons.prems(1) by simp
  then have g: "int (data_p buf) < buf_end buf" by (simp add: view_def buf_end_def)
  have hl: "header_line req buf = map_option (\<lambda>(st, req').
      (st, req', buf\<lparr>data_p := ?d + (if split_header l = HEnd then 1 else 0)\<rparr>)) (line_step req l)"
    using Cons.prems by (intro header_line_view [OF v]) auto
  show ?case
  proof (cases "line_step req l")
    case None
    then show ?thesis using g hl by (subst parse_headers.simps) (simp add: headers_result_def)
  next
    case (Some sr)
    obtain st req' where sr: "sr = (st, req')" by (cases sr)
    show ?thesis
    proof (cases st)
      case (Ret rc)
      then show ?thesis using Some sr g hl
        by (subst parse_headers.simps) (simp add: headers_result_def)
    next
      case Stop
      then show ?thesis using Some sr g hl split_header_step [of req l req']
        by (subst parse_headers.simps) (simp add: headers_result_def)
    next
      case Next
      with Some sr have nx: "line_step req l = Some (Next, req')" by simp
      have v': "view (buf\<lparr>data_p := Suc ?d\<rparr>) (pre @ l @ [LF]) (join_lines ls)"
        using view_move [of buf pre "l @ [LF]" "join_lines ls"] v by (simp add: add.assoc)
      have "headers_result (parse_headers req' (buf\<lparr>data_p := Suc ?d\<rparr>))
          = parse_lines req' ls (length (pre @ l @ [LF]))"
        by (rule Cons.IH [OF v']) (use Cons.prems in auto)
      then show ?thesis
        using nx g hl split_header_next [OF nx] by (subst parse_headers.simps) (simp add: add.assoc)
    qed
  qed
qed

section \<open>The request line\<close>

text \<open>The URIs that are exactly a scheme prefix, the ones \<open>parse_abs_uri\<close> acts on.\<close>

definition plain_uri :: "string \<Rightarrow> bool" where
  "plain_uri s \<longleftrightarrow> map tolower s \<noteq> ''http://'' \<and> map tolower s \<noteq> ''https://''"

lemma strchr_cstr:
  assumes m: "m = a @ s @ NUL # r" "no_nul s" and c: "c \<noteq> NUL"
  shows "strchr m (length a) c = Some (if c \<in> set s
    then Some (length a + length (takeWhile (\<lambda>d. d \<noteq> c) s)) else None)"
proof -
  let ?P = "\<lambda>d. d \<noteq> NUL \<and> d \<noteq> c"
  have tw: "takeWhile ?P (s @ NUL # r) = takeWhile (\<lambda>d. d \<noteq> c) s"
    using assms(2) by (induction s) auto
  show ?thesis
  proof (cases "c \<in> set s")
    case True
    then obtain u v where s: "s = u @ c # v" "c \<notin> set u" by (meson split_list_first)
    then have u: "takeWhile (\<lambda>d. d \<noteq> c) s = u" by (simp add: takeWhile_append)
    have "mem_get m (length a + length u) = Some c"
      by (simp add: m s mem_get_def nth_append)
    moreover have "drop (length a) m = s @ NUL # r" by (simp add: m)
    ultimately show ?thesis using True by (simp add: strchr_def tw u)
  next
    case False
    then have u: "takeWhile (\<lambda>d. d \<noteq> c) s = s" by (auto simp: takeWhile_eq_all_conv)
    have "mem_get m (length a + length s) = Some NUL"
      by (simp add: m mem_get_def nth_append)
    moreover have "drop (length a) m = s @ NUL # r" by (simp add: m)
    ultimately show ?thesis using False c by (simp add: strchr_def tw u)
  qed
qed

lemma parse_uri_view:
  assumes v: "view buf pre u" "pre @ u = a @ t @ b"
    and plain: "plain_uri (cstr (take REQ_URISZ t))"
  shows "parse_uri req (data buf) (length a) (length t) = Some (store_uri req (cstr (take REQ_URISZ t)))"
proof -
  define s where "s = cstr (take REQ_URISZ t)"
  define m where "m = store_str s (clear0 (req_uri req))"
  have nul: "no_nul s" and len: "length s \<le> REQ_URISZ"
    using length_cstr_le [of "take REQ_URISZ t"] by (simp_all add: s_def)
  have "cstrn_at (data buf) (length a) (min REQ_URISZ (length t))
      = Some (cstr (take (min REQ_URISZ (length t)) (t @ b)))"
    by (rule view_cstrn [OF v]) simp
  moreover have "take (min REQ_URISZ (length t)) (t @ b) = take REQ_URISZ t" by (auto simp: min_def)
  ultimately have cp: "strncpy0 (REQ_URISZ + 1) (clear0 (req_uri req)) (data buf) (length a)
      (min REQ_URISZ (length t)) = Some m"
    using len by (simp add: strncpy0_def s_def m_def store_str_def)
  have put0: "mem_put (REQ_URISZ + 1) 0 [NUL] (req_uri req) = Some (clear0 (req_uri req))"
    by (simp add: mem_put_def clear0_def)
  have m: "m = s @ NUL # drop (Suc (length s)) (clear0 (req_uri req))" by (simp add: m_def store_str_def)
  then have cm: "is_cstr m" "cstr m = s" using nul by simp_all
  have abs: "parse_abs_uri m (req_host req) = Some (m, req_host req)"
    using plain cm(2)
    by (simp add: parse_abs_uri_def strcaseeq_literals [OF cm(1)] plain_uri_def flip: s_def)
  have dyn: "strstartswith m (lit ''/cgi/'') = Some (take 5 s = ''/cgi/'')"
    using cm by (simp add: strstartswith_cstr no_nul_literals numeral_eq_Suc)
  have q: "strchr m 0 CHR ''?'' = Some (if CHR ''?'' \<in> set s
      then Some (length (takeWhile (\<lambda>d. d \<noteq> CHR ''?'') s)) else None)"
    using strchr_cstr [of m "[]" s _ "CHR ''?''"] m nul by simp
  let ?p = "takeWhile (\<lambda>c. c \<noteq> CHR ''?'') s"
  have cut: "mem_put (REQ_URISZ + 1) (length ?p) [NUL] m = Some (store_str ?p m)"
  proof -
    have le: "length ?p \<le> length s" by (rule length_takeWhile_le)
    moreover have "take (length ?p) m = ?p"
    proof -
      have "take (length ?p) m = take (length ?p) s" using le by (simp add: m)
      also have "\<dots> = ?p" by (metis append_eq_conv_conj takeWhile_dropWhile_id)
      finally show ?thesis .
    qed
    ultimately show ?thesis using len by (simp add: mem_put_def store_str_def m)
  qed
  show ?thesis
    unfolding parse_uri_def put0 cp Option.bind.bind_lunit abs prod.case dyn Let_def q
    by (simp add: cut [simplified] store_uri_def Let_def m_def [symmetric] s_def [symmetric]
        split: if_split)
qed

lemma map_tolower_methods:
  "map tolower ''GET'' = ''get''" "map tolower ''HEAD'' = ''head''" "map tolower ''POST'' = ''post''"
  by code_simp+

lemma cstr_full: "length (cstr s) = length s \<Longrightarrow> cstr s = s"
  unfolding cstr_def by (metis order_refl take_all takeWhile_eq_take)

text \<open>
  A method keyword \<open>K\<close>: the bounded comparison and the look at the byte after it amount to
  equality of the whole token, with white space after it.
\<close>

lemma keyword_view:
  assumes v: "view buf pre u" "pre @ u = a @ t @ r @ LF # rest"
    and t: "\<forall>c \<in> set t. \<not> isspace c" and r: "r \<noteq> [] \<longrightarrow> issp (hd r)"
    and K: "no_nul K" "length K \<le> 8"
  shows "\<exists>g. strneq tolower (cstr (take 8 t) @ [NUL]) 0 (lit K) 0 (length K) = Some g
    \<and> (if g then issp_at (data buf) (length a + length K) else Some False)
      = Some (map tolower t = map tolower K \<and> r \<noteq> [])"
proof -
  let ?s = "cstr (take 8 t)" and ?n = "length K"
  have ne: "strneq tolower (?s @ [NUL]) 0 (lit K) 0 ?n = Some (map tolower (take ?n ?s) = map tolower K)"
    using strneq_cstr [of "?s @ [NUL]" "lit K" tolower ?n] K by simp
  have whole: "map tolower (take ?n ?s) = map tolower K \<and> length t = ?n \<longleftrightarrow> map tolower t = map tolower K"
  proof
    assume a: "map tolower (take ?n ?s) = map tolower K \<and> length t = ?n"
    then have "length (take ?n ?s) = ?n" by (metis length_map)
    moreover have "length ?s \<le> length t" using length_cstr_le [of "take 8 t"] by simp
    ultimately have "length ?s = length t" using a by simp
    then have "?s = t"
      using a K cstr_full [of t] by simp
    with a show "map tolower t = map tolower K" by (metis order_refl take_all)
  next
    assume a: "map tolower t = map tolower K"
    then have len: "length t = ?n" by (metis length_map)
    have "no_nul t"
    proof -
      have "NUL \<notin> set (map tolower K)" using K(1) by (auto simp: no_nul_def)
      then show ?thesis unfolding a [symmetric] by (auto simp: no_nul_def image_iff)
    qed
    then have "?s = t" using len K by (simp add: cstr_def)
    with a len show "map tolower (take ?n ?s) = map tolower K \<and> length t = ?n" by simp
  qed
  show ?thesis
  proof (cases "map tolower (take ?n ?s) = map tolower K")
    case False
    then show ?thesis using ne whole by auto
  next
    case True
    then have "length (take ?n ?s) = ?n" by (metis length_map)
    then have le: "?n \<le> length t" using length_cstr_le [of "take 8 t"] by auto
    have "issp_at (data buf) (length a + ?n) = Some (length t = ?n \<and> r \<noteq> [])"
    proof (cases "length t = ?n")
      case True
      have "pre @ u = (a @ t) @ r @ LF # rest" using v by simp
      then have "mem_get (data buf) (length (a @ t)) = Some (if r = [] then LF else hd r)"
        using view_get [OF v(1), of "a @ t" "hd (r @ [LF])" "tl (r @ [LF]) @ rest"]
        by (cases r) auto
      then show ?thesis using True r by (auto simp: issp_at_def)
    next
      case False
      then have lt: "?n < length t" using le by simp
      then have "pre @ u = (a @ take ?n t) @ t ! ?n # drop (Suc ?n) t @ r @ LF # rest"
        using v by (simp add: Cons_nth_drop_Suc)
      then have "mem_get (data buf) (length (a @ take ?n t)) = Some (t ! ?n)"
        by (rule view_get [OF v(1)])
      moreover have "\<not> issp (t ! ?n)" using t lt by (auto simp: issp_isspace)
      ultimately show ?thesis using lt False by (simp add: issp_at_def min_def)
    qed
    then show ?thesis using ne True whole by auto
  qed
qed

lemma keyword_view':
  assumes "view buf pre u" "pre @ u = a @ t @ r @ LF # rest"
    and "\<forall>c \<in> set t. \<not> isspace c" and "r \<noteq> [] \<longrightarrow> issp (hd r)"
    and "no_nul K" "length K = n" "n \<le> 8" "map tolower K = w"
  obtains g where "strneq tolower (cstr (take 8 t) @ [NUL]) 0 (lit K) 0 n = Some g"
    "(if g then issp_at (data buf) (length a + n) else Some False) = Some (map tolower t = w \<and> r \<noteq> [])"
  using keyword_view [OF assms(1-5)] assms(6-8) by blast

lemma parse_method_view:
  assumes v: "view buf pre u" "pre @ u = a @ t @ r @ LF # rest"
    and t: "\<forall>c \<in> set t. \<not> isspace c" and r: "r \<noteq> [] \<longrightarrow> issp (hd r)"
  shows "parse_method (cstr (take 8 t) @ [NUL]) (data buf) (length a) = Some (method_of t r)"
proof -
  let ?tok = "cstr (take 8 t) @ [NUL]"
  obtain g where g: "strneq tolower ?tok 0 (lit ''GET'') 0 3 = Some g"
    "(if g then issp_at (data buf) (length a + 3) else Some False) = Some (map tolower t = ''get'' \<and> r \<noteq> [])"
    by (rule keyword_view' [where n = 3, OF v t r _ _ _ map_tolower_methods(1)]) simp_all
  obtain h where h: "strneq tolower ?tok 0 (lit ''HEAD'') 0 4 = Some h"
    "(if h then issp_at (data buf) (length a + 4) else Some False) = Some (map tolower t = ''head'' \<and> r \<noteq> [])"
    by (rule keyword_view' [where n = 4, OF v t r _ _ _ map_tolower_methods(2)]) simp_all
  obtain q where q: "strneq tolower ?tok 0 (lit ''POST'') 0 4 = Some q"
    "(if q then issp_at (data buf) (length a + 4) else Some False) = Some (map tolower t = ''post'' \<and> r \<noteq> [])"
    by (rule keyword_view' [where n = 4, OF v t r _ _ _ map_tolower_methods(3)]) simp_all
  show ?thesis
    unfolding parse_method_def g(1) h(1) q(1) Option.bind.bind_lunit g(2) h(2) q(2) method_of_def
    by (simp split: if_split)
qed

lemma next_tok_props:
  assumes "next_tok l = (t, r)" "LF \<notin> set l"
  shows "\<forall>c \<in> set t. \<not> isspace c" and "r \<noteq> [] \<longrightarrow> issp (hd r)"
proof -
  have tr: "t = takeWhile (\<lambda>c. \<not> isspace c) (dropWhile issp l)"
    "r = dropWhile (\<lambda>c. \<not> isspace c) (dropWhile issp l)"
    using assms(1) by (auto simp: next_tok_def Let_def)
  show "\<forall>c \<in> set t. \<not> isspace c" by (auto simp: tr dest: set_takeWhileD)
  show "r \<noteq> [] \<longrightarrow> issp (hd r)"
  proof
    assume ne: "r \<noteq> []"
    then have "isspace (hd r)" using hd_dropWhile [of "\<lambda>c. \<not> isspace c" "dropWhile issp l"] by (simp add: tr)
    moreover have "hd r \<in> set r" using ne by simp
    then have "hd r \<noteq> LF" using next_tok_LF [OF assms(2,1)] by metis
    ultimately show "issp (hd r)" by (auto simp: issp_isspace)
  qed
qed

text \<open>Phase START on a view whose unread part starts with the line \<open>l\<close>.\<close>

lemma next_tok_Nil: "dropWhile issp r = [] \<Longrightarrow> next_tok r = ([], [])"
  by (simp only: next_tok_def Let_def takeWhile.simps dropWhile.simps)

text \<open>The end-of-line test after the version looks at the last byte of the line, if nothing but
  blanks is left of it.\<close>

lemma eol_after_tok:
  assumes v: "view b (pre @ s @ t) (r @ LF # rest)" and e: "pre @ s @ t @ r = pre0 @ l" "l \<noteq> []"
    and LF: "LF \<notin> set x" and x: "s = takeWhile issp x" "next_tok x = (t, r)"
  shows "eol (length pre + length s) b = Some (dropWhile issp x = [] \<and> last l = CR)"
    and "dropWhile issp x = [] \<Longrightarrow> view (b\<lparr>data_p := Suc (data_p b)\<rparr>) (pre0 @ l @ [LF]) rest"
proof -
  have tr: "t = [] \<and> r = []" if "dropWhile issp x = []" using x(2) next_tok_Nil [OF that] by simp
  show "eol (length pre + length s) b = Some (dropWhile issp x = [] \<and> last l = CR)"
  proof (cases "dropWhile issp x = []")
    case True
    then have "pre @ s = pre0 @ l" "view b (pre0 @ l) (LF # rest)" using e(1) v tr by simp_all
    moreover from this(1) have "length pre + length s = length pre0 + length l"
      by (metis length_append)
    ultimately show ?thesis using eol_view [of b pre0 l rest] e(2) True by simp
  next
    case False
    then have "hd (dropWhile issp x) \<in> set x" "\<not> issp (hd (dropWhile issp x))"
      using hd_dropWhile [OF False] set_dropWhileD [OF hd_in_set [OF False]] by blast+
    then have "\<not> isspace (hd (dropWhile issp x))" using LF by (auto simp: issp_isspace)
    then have "t \<noteq> []" using x(2) False by (cases "dropWhile issp x") (auto simp: next_tok_def)
    then show ?thesis using False v by (simp add: eol_def view_def)
  qed
  assume "dropWhile issp x = []"
  then have "view b (pre0 @ l) ([LF] @ rest)" using v e(1) tr by simp
  from view_move [OF this] this show "view (b\<lparr>data_p := Suc (data_p b)\<rparr>) (pre0 @ l @ [LF]) rest"
    by (simp add: view_def)
qed

lemma parse_start_view:
  assumes v: "view buf pre (l @ LF # rest)" and LF: "LF \<notin> set l"
    and plain: "plain_uri (uri_of_line l)"
  shows "\<exists>b. parse_start req buf = Some (fst (request_line req l), snd (request_line req l), b)
    \<and> (fst (request_line req l) = None \<longrightarrow> view b (pre @ l @ [LF]) rest)"
proof -
  obtain t1 r1 where t1: "next_tok l = (t1, r1)" by (cases "next_tok l")
  obtain t2 r2 where t2: "next_tok r1 = (t2, r2)" by (cases "next_tok r1")
  obtain t3 r3 where t3: "next_tok r2 = (t3, r3)" by (cases "next_tok r2")
  obtain t4 r4 where t4: "next_tok r3 = (t4, r4)" by (cases "next_tok r3")
  have LF1: "LF \<notin> set r1" and LF2: "LF \<notin> set r2" and LF3: "LF \<notin> set r3"
    using next_tok_LF [OF LF t1] next_tok_LF [OF _ t2] next_tok_LF [OF _ t3] by blast+
  define s1 s2 s3 s4 where s: "s1 = takeWhile issp l" "s2 = takeWhile issp r1"
    "s3 = takeWhile issp r2" "s4 = takeWhile issp r3"
  note p1 = proceed_inline_view [OF v LF t1, folded s]
  define b1 where "b1 = buf\<lparr>data_p := length pre + length s1 + length t1\<rparr>"
  note p1 = p1 [folded b1_def]
  note p2 = proceed_inline_view [OF p1(3) LF1 t2, folded s]
  define b2 where "b2 = b1\<lparr>data_p := length (pre @ s1 @ t1) + length s2 + length t2\<rparr>"
  note p2 = p2 [folded b2_def]
  note p3 = proceed_inline_view [OF p2(3) LF2 t3, folded s]
  define b3 where "b3 = b2\<lparr>data_p := length ((pre @ s1 @ t1) @ s2 @ t2) + length s3 + length t3\<rparr>"
  note p3 = p3 [folded b3_def]
  note p4 = proceed_inline_view [OF p3(3) LF3 t4, folded s]
  define b4 where "b4 = b3\<lparr>data_p := length (((pre @ s1 @ t1) @ s2 @ t2) @ s3 @ t3) + length s4 + length t4\<rparr>"
  note p4 = p4 [folded b4_def]
  have d1: "data_p b1 - (length pre + length s1) = length t1" by (simp add: b1_def)
  have m1: "(pre @ s1 @ t1) @ r1 @ LF # rest = (pre @ s1) @ t1 @ r1 @ LF # rest" by simp
  have tok: "strncpy0 9 [] (data b1) (length (pre @ s1)) (min 8 (length t1)) = Some (cstr (take 8 t1) @ [NUL])"
    using copy_tok [OF p1(3) m1, of 8 "[]"] by (simp add: store_str_def)
  have tokc: "cstr_at (cstr (take 8 t1) @ [NUL]) 0 = Some (cstr (take 8 t1))"
    by (simp add: cstr_at_cstr)
  have meth: "parse_method (cstr (take 8 t1) @ [NUL]) (data b1) (length (pre @ s1)) = Some (method_of t1 r1)"
    using parse_method_view [OF p1(3) m1] next_tok_props [OF t1 LF] by blast
  have d2: "data_p b2 - (length (pre @ s1 @ t1) + length s2) = length t2" by (simp add: b2_def)
  have m2: "((pre @ s1 @ t1) @ s2 @ t2) @ r2 @ LF # rest = ((pre @ s1 @ t1) @ s2) @ t2 @ r2 @ LF # rest" by simp
  have uri: "parse_uri q (data b2) (length ((pre @ s1 @ t1) @ s2)) (length t2)
      = Some (store_uri q (cstr (take REQ_URISZ t2)))" for q
    using parse_uri_view [OF p2(3) m2] plain by (simp add: uri_of_line_def t1 t2)
  have d3: "data_p b3 - (length ((pre @ s1 @ t1) @ s2 @ t2) + length s3) = length t3" by (simp add: b3_def)
  have m3: "(((pre @ s1 @ t1) @ s2 @ t2) @ s3 @ t3) @ r3 @ LF # rest
      = (((pre @ s1 @ t1) @ s2 @ t2) @ s3) @ t3 @ r3 @ LF # rest" by simp
  have ver: "strncpy0 (REQ_VERSZ + 1) q (data b3) (length (((pre @ s1 @ t1) @ s2 @ t2) @ s3))
      (min REQ_VERSZ (length t3)) = Some (store_str (cstr (take REQ_VERSZ t3)) q)" for q
    by (rule copy_tok [OF p3(3) m3])
  have la: "length (pre @ s1) = length pre + length s1"
    "length ((pre @ s1 @ t1) @ s2) = length (pre @ s1 @ t1) + length s2"
    "length (((pre @ s1 @ t1) @ s2 @ t2) @ s3) = length ((pre @ s1 @ t1) @ s2 @ t2) + length s3"
    by simp_all
  let ?pre4 = "((pre @ s1 @ t1) @ s2 @ t2) @ s3 @ t3"
  have all: "?pre4 @ s4 @ t4 @ r4 = pre @ l"
    by (subst p1(2), subst p2(2), subst p3(2), subst p4(2)) simp
  have l0: "cstr (take 8 t1) \<noteq> [] \<Longrightarrow> l \<noteq> []" using p1(2) by (auto simp: cstr_def)
  note e = eol_after_tok(1) [OF p4(3) all l0 LF3 s(4) t4] and fin = eol_after_tok(2) [OF p4(3) all l0 LF3 s(4) t4]
  note steps = parse_start_def p1(1) d1 tok [unfolded la] tokc meth [unfolded la] p2(1) d2
    uri [unfolded la] p3(1) d3 ver [unfolded la] p4(1) Option.bind.bind_lunit prod.case
  show ?thesis
  proof (cases "cstr (take 8 t1) = []")
    case True
    then show ?thesis
      unfolding steps by (simp add: request_line_def t1 abort_with_def)
  next
    case ne: False
    then have ln: "length (cstr (take 8 t1)) \<noteq> 0" by simp
    show ?thesis
    proof (cases "method_of t1 r1")
      case None
      then show ?thesis
        unfolding steps using ne by (simp add: request_line_def t1 abort_with_def)
    next
      case (Some me)
      show ?thesis
        unfolding steps Some option.case Let_def if_not_P [OF ln] e [OF ne]
        using ne Some fin by (auto simp: request_line_def t1 t2 t3 abort_with_def Let_def)
    qed
  qed
qed

section \<open>The parser of the code computes the reference parser\<close>

lemma request_line_phase:
  "request_line req l = (None, req') \<Longrightarrow> req_phase req' = REQ_HEADER"
  by (auto simp: request_line_def Let_def split: if_splits option.splits prod.splits)

definition parse_result :: "(int \<times> req_t \<times> buf_t) option \<Rightarrow> (int \<times> req_t) option" where
  "parse_result = map_option (\<lambda>(rc, req, buf). (rc, req))"

lemma req_parse_lines:
  assumes v: "view buf [] (join_lines ls)" and LF: "\<forall>l \<in> set ls. LF \<notin> set l" and ne: "ls \<noteq> []"
    and start: "req_phase req = REQ_START \<Longrightarrow> plain_uri (uri_of_line (hd ls))"
    and header: "req_phase req = REQ_HEADER \<Longrightarrow> hd ls \<noteq> []"
  shows "parse_result (req_parse req buf) = parse_spec req ls"
proof -
  obtain l ls' where ls: "ls = l # ls'" using ne by (cases ls) auto
  have dp: "data_p buf = 0" using v by (simp add: view_def)
  show ?thesis
  proof (cases "req_phase req")
    case REQ_START
    have v': "view buf [] (l @ LF # join_lines ls')" using v ls by simp
    obtain b where b: "parse_start req buf
        = Some (fst (request_line req l), snd (request_line req l), b)"
      "fst (request_line req l) = None \<longrightarrow> view b (l @ [LF]) (join_lines ls')"
      using parse_start_view [OF v', of req] LF ls start REQ_START by auto
    obtain r req1 where rl: "request_line req l = (r, req1)" by (cases "request_line req l")
    show ?thesis
    proof (cases r)
      case (Some rc)
      then show ?thesis using b rl REQ_START ls
        by (simp add: req_parse_def parse_spec_def parse_result_def)
    next
      case None
      have "headers_result (parse_headers req1 b) = parse_lines req1 ls' (length (l @ [LF]))"
        by (rule parse_headers_lines) (use b None rl LF ls in auto)
      then show ?thesis using b rl None REQ_START ls request_line_phase [of req l req1]
        by (auto simp: req_parse_def parse_spec_def parse_result_def headers_result_def
            split: option.splits prod.splits bind_splits)
    qed
  next
    case REQ_HEADER
    have "headers_result (parse_headers req buf) = parse_lines req ls (length ([]::string))"
      by (rule parse_headers_lines [OF v LF]) (use header REQ_HEADER in auto)
    then show ?thesis using REQ_HEADER
      by (cases "parse_headers req buf")
        (auto simp: req_parse_def parse_spec_def parse_result_def headers_result_def)
  qed (auto simp: req_parse_def parse_spec_def parse_result_def dp)
qed

end
