(* ===== verification/Request_Inv.thy ===== *)
theory Request_Inv
  imports Request_Lines
begin

text \<open>
  What the request parser keeps true: the phases only move forward, every array of the request
  stays a string within its capacity, and a status is reported exactly when the request is
  aborted.
\<close>

section \<open>The order of the phases\<close>

text \<open>The phases in the order the enumeration lists them.\<close>

fun phase_rank :: "req_phase_t \<Rightarrow> nat" where
  "phase_rank REQ_START = 0"
| "phase_rank REQ_HEADER = 1"
| "phase_rank REQ_BODY = 2"
| "phase_rank REQ_DONE = 3"
| "phase_rank REQ_ABORT = 4"

lemma phase_rank_inj: "phase_rank p = phase_rank q \<Longrightarrow> p = q"
  by (cases p; cases q) auto

instantiation req_phase_t :: linorder
begin

definition less_eq_req_phase_t :: "req_phase_t \<Rightarrow> req_phase_t \<Rightarrow> bool" where
  "less_eq_req_phase_t p q \<longleftrightarrow> phase_rank p \<le> phase_rank q"

definition less_req_phase_t :: "req_phase_t \<Rightarrow> req_phase_t \<Rightarrow> bool" where
  "less_req_phase_t p q \<longleftrightarrow> phase_rank p < phase_rank q"

instance
  by standard
    (auto simp: less_eq_req_phase_t_def less_req_phase_t_def intro: phase_rank_inj)

end

lemma phase_le_simps [simp]:
  "p \<le> REQ_ABORT" "REQ_START \<le> p"
  "p \<le> REQ_HEADER \<longleftrightarrow> p = REQ_START \<or> p = REQ_HEADER"
  "REQ_HEADER \<le> p \<longleftrightarrow> p \<noteq> REQ_START"
  by (cases p; simp add: less_eq_req_phase_t_def)+

section \<open>Statuses\<close>

text \<open>What each way to leave the header loop says of the request.\<close>

definition header_exit :: "req_t \<Rightarrow> hdr_step \<Rightarrow> req_t \<Rightarrow> bool" where
  "header_exit req st req' \<longleftrightarrow>
     (case st of
        Ret rc \<Rightarrow> req_phase req' = REQ_ABORT
          \<and> (rc = - 400 \<or> rc = - 411 \<and> req_meth req' = M_POST \<and> req_clen req' < 0)
      | Stop \<Rightarrow> req_phase req' = REQ_BODY \<and> 0 \<le> req_clen req' \<and> req_rsize req' = req_clen req'
      | Next \<Rightarrow> req_phase req' = req_phase req)"

lemma apply_header_exit:
  "apply_header req key val = Some (st, req') \<Longrightarrow> header_exit req st req'"
  by (auto simp: apply_header_def header_exit_def bind_eq_Some_conv split: if_splits)

lemma finish_header_exit:
  "finish_header req = (st, req') \<Longrightarrow> header_exit req st req'"
  by (auto simp: finish_header_def header_exit_def Let_def split: if_splits)

lemma header_line_exit:
  "header_line req buf = Some (st, req', buf') \<Longrightarrow> header_exit req st req'"
  unfolding header_line_def bind_eq_Some_conv split_paired_Ex prod.case
  by (elim exE conjE, split if_split_asm)
    (auto simp: bind_eq_Some_conv header_exit_def [of _ "Ret _"] split: if_splits prod.splits
      dest: finish_header_exit apply_header_exit)

definition parse_exit :: "int option \<Rightarrow> req_t \<Rightarrow> bool" where
  "parse_exit r req' \<longleftrightarrow>
     (case r of
        None \<Rightarrow> req_phase req' = REQ_HEADER
          \<or> req_phase req' = REQ_BODY \<and> 0 \<le> req_clen req' \<and> req_rsize req' = req_clen req'
      | Some rc \<Rightarrow> req_phase req' = REQ_ABORT
          \<and> (rc = - 400 \<or> rc = - 501 \<or> rc = - 411 \<and> req_meth req' = M_POST \<and> req_clen req' < 0))"

lemma parse_headers_exit:
  "parse_headers req buf = Some (r, req', buf') \<Longrightarrow> req_phase req = REQ_HEADER \<Longrightarrow> parse_exit r req'"
proof (induction req buf rule: parse_headers.induct)
  case (1 req buf)
  show ?case
  proof (cases "int (data_p buf) < buf_end buf")
    case True
    with "1.prems"(1) obtain st req1 buf1 where hl: "header_line req buf = Some (st, req1, buf1)"
      by (subst (asm) parse_headers.simps) (auto split: option.splits)
    note ex = header_line_exit [OF hl]
    show ?thesis
    proof (cases st)
      case Next
      then show ?thesis using "1.prems" "1.IH" [OF True hl refl refl Next] ex True hl
        by (subst (asm) parse_headers.simps) (auto simp: header_exit_def)
    qed (use "1.prems" ex True hl in
        \<open>subst (asm) parse_headers.simps, auto simp: header_exit_def parse_exit_def\<close>)+
  next
    case False
    with "1.prems" show ?thesis by (subst (asm) parse_headers.simps) (auto simp: parse_exit_def)
  qed
qed

lemma parse_start_exit:
  "parse_start req buf = Some (r, req', buf') \<Longrightarrow> parse_exit r req'"
  unfolding parse_start_def
  by (auto simp: bind_eq_Some_conv abort_with_def parse_exit_def Let_def split: if_splits option.splits)

lemma req_parse_exit:
  assumes "req_parse req buf = Some (rc, req', buf')" "req_phase req \<le> REQ_HEADER"
  shows "parse_exit (if rc < 0 then Some rc else None) req' \<and> (0 \<le> rc \<longrightarrow> rc = int (data_p buf'))"
proof -
  obtain r req1 buf1 where st: "(if req_phase req = REQ_START then parse_start req buf
      else Some (None, req, buf)) = Some (r, req1, buf1)"
    using assms(1) by (auto simp: req_parse_def bind_eq_Some_conv)
  have e1: "parse_exit r req1"
    using st assms(2) by (auto simp: parse_exit_def dest: parse_start_exit split: if_splits)
  show ?thesis
  proof (cases r)
    case (Some rc1)
    then have "rc = rc1" "req' = req1" using assms(1) st by (simp_all add: req_parse_def)
    then show ?thesis using e1 Some by (auto simp: parse_exit_def)
  next
    case None
    then obtain r2 where r2: "(if req_phase req1 = REQ_HEADER then parse_headers req1 buf1
        else Some (None, req1, buf1)) = Some (r2, req', buf')"
      and rc: "rc = (case r2 of Some rc \<Rightarrow> rc | None \<Rightarrow> int (data_p buf'))"
      using assms(1) st by (auto simp: req_parse_def bind_eq_Some_conv)
    have "parse_exit r2 req'"
      using r2 e1 None by (auto dest: parse_headers_exit split: if_splits)
    then show ?thesis using rc by (cases r2) (auto simp: parse_exit_def)
  qed
qed

section \<open>Well-formed requests\<close>

definition str_ok :: "nat \<Rightarrow> mem \<Rightarrow> bool" where
  "str_ok cap m \<longleftrightarrow> is_cstr m \<and> length m \<le> cap"

text \<open>
  Every array holds a string, no array outgrew its capacity, every stored header respects the
  capacities of its node, the parameters point at a string inside \<open>uri\<close>, and the buffer for
  pipelined bytes is well formed.
\<close>

definition req_ok :: "req_t \<Rightarrow> bool" where
  "req_ok req \<longleftrightarrow>
     str_ok (REQ_URISZ + 1) (req_uri req) \<and> str_ok (REQ_VERSZ + 1) (req_version req)
     \<and> str_ok (REQ_HOSTSZ + 1) (req_host req) \<and> list_all hdr_ok (req_hdrs req)
     \<and> (\<forall>k. req_params req = Some k \<longrightarrow> is_cstr (drop k (req_uri req)))
     \<and> buf_ok (req_last_buf req)"

lemma req_ok_update [simp]:
  "req_ok (req\<lparr>req_phase := p\<rparr>) = req_ok req"
  "req_ok (req\<lparr>req_clen := z\<rparr>) = req_ok req"
  "req_ok (req\<lparr>req_rsize := z\<rparr>) = req_ok req"
  "req_ok (req\<lparr>req_alive := b\<rparr>) = req_ok req"
  "req_ok (req\<lparr>req_meth := me\<rparr>) = req_ok req"
  "req_ok (req\<lparr>req_scheme := sc\<rparr>) = req_ok req"
  "req_ok (req\<lparr>req_addr := ad\<rparr>) = req_ok req"
  "req_ok (req\<lparr>req_port := po\<rparr>) = req_ok req"
  "req_ok (req\<lparr>req_type := ty\<rparr>) = req_ok req"
  by (simp_all add: req_ok_def)

lemma clear0_str_ok [simp]: "length m \<le> cap \<Longrightarrow> 0 < cap \<Longrightarrow> str_ok cap (clear0 m)"
  by (auto simp: clear0_def str_ok_def is_cstr_def)

lemma req_ok_reset: "req_ok req \<Longrightarrow> req_ok (req_reset req)"
  by (auto simp: req_ok_def req_reset_def hdrs_reset_def str_ok_def clear0_def is_cstr_def
      REQ_URISZ_def REQ_VERSZ_def REQ_HOSTSZ_def)

lemma req_ok_new: "req_ok req_new"
  by (simp add: req_ok_def req_new_def req_reset_def hdrs_reset_def str_ok_def clear0_def is_cstr_def
      REQ_URISZ_def REQ_VERSZ_def REQ_HOSTSZ_def)

lemma strncpy0_str_ok:
  "strncpy0 cap d m i n = Some d' \<Longrightarrow> length d \<le> cap \<Longrightarrow> str_ok cap d'"
  using strncpy0_Some [of cap d m i n d'] by (simp add: str_ok_def)

lemma strcpy0_str_ok:
  "strcpy0 cap d m i = Some d' \<Longrightarrow> length d \<le> cap \<Longrightarrow> str_ok cap d'"
  using strcpy0_Some [of cap d m i d'] by (simp add: str_ok_def)

lemma str_put_str_ok: "str_put cap s d = Some d' \<Longrightarrow> length d \<le> cap \<Longrightarrow> str_ok cap d'"
  by (auto simp: str_put_Some str_ok_def is_cstr_def)

text \<open>Cutting a string at a character leaves two strings.\<close>

lemma strchr_cut:
  assumes c: "strchr m 0 ch = Some (Some k)" "ch \<noteq> NUL" and m: "str_ok cap m"
    and p: "mem_put cap k [NUL] m = Some m'"
  shows "str_ok cap m'" "is_cstr (drop (Suc k) m')"
proof -
  let ?t = "takeWhile (\<lambda>c. c \<noteq> NUL \<and> c \<noteq> ch) m"
  from c have k: "k = length ?t" and mk: "k < length m" "m ! k = ch"
    by (auto simp: strchr_def bind_eq_Some_conv Let_def mem_get_Some split: if_splits)
  have "take k m = ?t" by (simp add: k takeWhile_eq_take [symmetric])
  then have "NUL \<notin> set (take k m)" by (auto dest: set_takeWhileD)
  moreover have "m = take k m @ ch # drop (Suc k) m" using id_take_nth_drop [OF mk(1)] mk(2) by simp
  then have "set m = set (take k m) \<union> {ch} \<union> set (drop (Suc k) m)"
    by (metis Un_assoc insert_is_Un list.simps(15) set_append)
  ultimately have d: "NUL \<in> set (drop (Suc k) m)"
    using m c(2) by (auto simp: str_ok_def is_cstr_def)
  with p mk m show "str_ok cap m'" "is_cstr (drop (Suc k) m')"
    by (auto simp: mem_put_Some str_ok_def is_cstr_def)
qed

lemma parse_abs_uri_ok:
  assumes "str_ok (REQ_URISZ + 1) uri" "str_ok (REQ_HOSTSZ + 1) host"
  shows "post (parse_abs_uri uri host)
    (\<lambda>(uri', host'). str_ok (REQ_URISZ + 1) uri' \<and> str_ok (REQ_HOSTSZ + 1) host')"
proof -
  have h: "strncpy0 (REQ_HOSTSZ + 1) host uri i n = Some h' \<Longrightarrow> str_ok (REQ_HOSTSZ + 1) h'" for i n h'
    using strncpy0_str_ok assms(2) by (auto simp: str_ok_def [of _ host])
  have u: "strcpy0_self (REQ_URISZ + 1) uri j = Some u' \<Longrightarrow> str_ok (REQ_URISZ + 1) u'" for j u'
    using str_put_str_ok assms(1)
    by (auto simp: strcpy0_self_def bind_eq_Some_conv str_ok_def [of _ uri] split: if_splits)
  show ?thesis
    unfolding parse_abs_uri_def using assms h u
    by (intro post_bind) (auto intro!: post_bind split: option.splits)
qed

lemma parse_uri_ok:
  assumes ok: "req_ok req"
  shows "post (parse_uri req m p n) req_ok"
proof -
  let ?cap = "REQ_URISZ + 1"
  have c: "length (req_uri req) \<le> ?cap" "str_ok (REQ_HOSTSZ + 1) (req_host req)"
    using ok by (simp_all add: req_ok_def str_ok_def)
  have abs: "post (parse_abs_uri u1 (req_host req))
      (\<lambda>(uri', host'). str_ok ?cap uri' \<and> str_ok (REQ_HOSTSZ + 1) host')"
    if u0: "mem_put ?cap 0 [NUL] (req_uri req) = Some u0"
      and u1: "strncpy0 ?cap u0 m p (min REQ_URISZ n) = Some u1" for u0 u1
    by (rule parse_abs_uri_ok [OF strncpy0_str_ok [OF u1 mem_put_cap [OF u0 c(1)]] c(2)])
  have fin: "post (do { params \<leftarrow> strchr u2 0 CHR ''?'';
        (case params of
          None \<Rightarrow> Some (req\<lparr>req_host := h2, req_type := ty, req_uri := u2, req_params := None\<rparr>)
        | Some k \<Rightarrow> do {
            uri \<leftarrow> mem_put ?cap k [NUL] u2;
            Some (req\<lparr>req_host := h2, req_type := ty, req_uri := uri, req_params := Some (Suc k)\<rparr>) }) }) req_ok"
    if u2: "str_ok ?cap u2" and h2: "str_ok (REQ_HOSTSZ + 1) h2" for u2 h2 ty
    using strchr_cut [OF _ _ u2] ok u2 h2
    by (intro post_bind) (auto intro!: post_bind simp: req_ok_def split: option.splits)
  show ?thesis
    unfolding parse_uri_def Let_def
    apply (rule post_bind, rule post_bind, rule post_bindI [OF abs], assumption, assumption)
    apply (clarify, rule post_bind, rule fin, assumption+)
    done
qed

lemma apply_header_ok:
  assumes "req_ok req"
  shows "post (apply_header req key val) (\<lambda>(st, req'). req_ok req')"
proof -
  have h: "strcpy0 (REQ_HOSTSZ + 1) (req_host req) val 0 = Some h \<Longrightarrow> req_ok (req\<lparr>req_host := h\<rparr>)" for h
    using strcpy0_str_ok assms by (auto simp: req_ok_def str_ok_def [of _ "req_host req"])
  have p: "hdr_pair key val = Some kv \<Longrightarrow> req_ok (req\<lparr>req_hdrs := hdrs_insert (req_hdrs req) kv\<rparr>)" for kv
    using assms hdr_pair_ok [of key val kv] by (simp add: req_ok_def hdrs_insert_def)
  show ?thesis
    unfolding apply_header_def using assms h p
    by (intro post_bind post_if) (auto intro!: post_bind)
qed

lemma finish_header_ok: "req_ok req \<Longrightarrow> req_ok (snd (finish_header req))"
  by (simp add: finish_header_def Let_def)

lemma header_line_ok:
  assumes "req_ok req"
  shows "post (header_line req buf) (\<lambda>(st, req', buf'). req_ok req')"
proof -
  have a: "post (do { (st, req) \<leftarrow> apply_header req key val; Some (st, req, b) })
      (\<lambda>(st, req', buf'). req_ok req')" for key val and b :: buf_t
    by (rule post_bindI [OF apply_header_ok [OF assms]]) auto
  show ?thesis
    unfolding header_line_def using finish_header_ok [OF assms] assms
    by (auto intro!: post_bind a split: prod.splits)
qed

lemma parse_headers_ok:
  "parse_headers req buf = Some (r, req', buf') \<Longrightarrow> req_ok req \<Longrightarrow> req_ok req'"
proof (induction req buf rule: parse_headers.induct)
  case (1 req buf)
  show ?case
  proof (cases "int (data_p buf) < buf_end buf")
    case True
    with "1.prems"(1) obtain st req1 buf1 where hl: "header_line req buf = Some (st, req1, buf1)"
      by (subst (asm) parse_headers.simps) (auto split: option.splits)
    then have ok: "req_ok req1" using header_line_ok [OF "1.prems"(2)] by (auto dest: postD)
    show ?thesis
    proof (cases st)
      case Next
      then show ?thesis using "1.prems" "1.IH" [OF True hl refl refl Next] ok True hl
        by (subst (asm) parse_headers.simps) auto
    qed (use "1.prems" ok True hl in \<open>subst (asm) parse_headers.simps, auto\<close>)+
  next
    case False
    with "1.prems" show ?thesis by (subst (asm) parse_headers.simps) auto
  qed
qed

lemma parse_start_ok:
  assumes ok: "req_ok req"
  shows "post (parse_start req buf) (\<lambda>(r, req', buf'). req_ok req')"
proof -
  have v: "req_ok (r\<lparr>req_version := ver\<rparr>)"
    if "strncpy0 (Suc REQ_VERSZ) (req_version r) m p n = Some ver" "req_ok r" for r m p n ver
    using that strncpy0_str_ok by (auto simp: req_ok_def str_ok_def [of _ "req_version r"])
  have u: "req_ok r" if "parse_uri (req\<lparr>req_meth := me\<rparr>) m p n = Some r" for me m p n r
    using postD [OF parse_uri_ok that] ok by simp
  show ?thesis
    unfolding parse_start_def
    by (auto intro!: post_bind simp: abort_with_def ok Let_def split: option.splits dest!: v u)
qed

text \<open>The parser keeps requests well formed, whatever bytes it is given.\<close>

lemma req_parse_ok:
  assumes "req_ok req"
  shows "post (req_parse req buf) (\<lambda>(rc, req', buf'). req_ok req')"
proof (rule postI, clarify)
  fix rc req' buf'
  assume p: "req_parse req buf = Some (rc, req', buf')"
  then obtain r req1 buf1 where st: "(if req_phase req = REQ_START then parse_start req buf
      else Some (None, req, buf)) = Some (r, req1, buf1)"
    by (auto simp: req_parse_def bind_eq_Some_conv)
  have ok: "req_ok req1"
    using st assms postD [OF parse_start_ok [OF assms], of buf] by (auto split: if_splits)
  show "req_ok req'"
  proof (cases r)
    case (Some rc1)
    then show ?thesis using p st ok by (simp add: req_parse_def)
  next
    case None
    then obtain r2 where "(if req_phase req1 = REQ_HEADER then parse_headers req1 buf1
        else Some (None, req1, buf1)) = Some (r2, req', buf')"
      using p st by (auto simp: req_parse_def bind_eq_Some_conv)
    then show ?thesis using ok by (auto dest: parse_headers_ok split: if_splits)
  qed
qed

section \<open>The cursor stays in the data\<close>

text \<open>Buffers of whole lines end in a line feed; the cursor never passes it.\<close>

definition ends_lf :: "buf_t \<Rightarrow> bool" where
  "ends_lf buf \<longleftrightarrow> 0 < sz buf \<and> nat (sz buf) \<le> length (data buf) \<and> data buf ! (nat (sz buf) - 1) = LF"

lemma scan_stop:
  "scan P m e i = Some j \<Longrightarrow> i \<le> k \<Longrightarrow> k < e \<Longrightarrow> k < length m \<Longrightarrow> \<not> P (m ! k) \<Longrightarrow> j \<le> k"
proof (induction P m e i rule: scan.induct)
  case (1 P m e i)
  show ?case
  proof (cases "i < e \<and> (\<exists>c. mem_get m i = Some c \<and> P c)")
    case True
    then obtain c where c: "i < e" "mem_get m i = Some c" "P c" by auto
    then have s: "scan P m e (Suc i) = Some j" using "1.prems"(1) by (subst (asm) scan.simps) auto
    have "i \<noteq> k" using c "1.prems"(5) by (auto simp: mem_get_Some)
    then have "Suc i \<le> k" using "1.prems"(2) by simp
    from "1.IH" [OF c s this "1.prems"(3-5)] show ?thesis .
  next
    case False
    with "1.prems" have "j = i"
      by (subst (asm) scan.simps) (auto split: if_splits option.splits)
    then show ?thesis using "1.prems" by simp
  qed
qed

lemma proceed_bound:
  assumes "ends_lf buf" "int (data_p buf) < sz buf"
  shows "proceed_line buf = Some (p, buf') \<Longrightarrow> ends_lf buf' \<and> int (data_p buf') < sz buf' \<and> sz buf' = sz buf"
    and "proceed_inline buf = Some (p, buf') \<Longrightarrow> ends_lf buf' \<and> int (data_p buf') < sz buf' \<and> sz buf' = sz buf"
proof -
  let ?k = "nat (sz buf) - 1"
  have k: "data_p buf \<le> ?k" "?k < buf_e buf" "?k < length (data buf)" "data buf ! ?k = LF"
    using assms by (auto simp: ends_lf_def buf_e_def buf_end_def)
  have n: "\<not> issp LF" "isspace LF" by (simp_all add: issp_def isspace_def)
  have *: "scan P (data buf) (buf_e buf) i = Some j \<Longrightarrow> i \<le> ?k \<Longrightarrow> \<not> P LF \<Longrightarrow> j \<le> ?k" for P i j
    using scan_stop [of P "data buf" "buf_e buf" i j ?k] k by simp
  have lt: "j \<le> ?k \<Longrightarrow> int j < sz buf" for j using assms(1) unfolding ends_lf_def by linarith
  show "proceed_line buf = Some (p, buf') \<Longrightarrow> ends_lf buf' \<and> int (data_p buf') < sz buf' \<and> sz buf' = sz buf"
    using assms(1) * [OF _ k(1)] * n lt
    by (auto simp: proceed_line_def bind_eq_Some_conv ends_lf_def)
  show "proceed_inline buf = Some (p, buf') \<Longrightarrow> ends_lf buf' \<and> int (data_p buf') < sz buf' \<and> sz buf' = sz buf"
    using assms(1) * [OF _ k(1)] * n lt
    by (auto simp: proceed_inline_def bind_eq_Some_conv ends_lf_def)
qed

lemma header_line_bound:
  assumes "ends_lf buf" "int (data_p buf) < sz buf"
  shows "post (header_line req buf) (\<lambda>(st, req', buf').
    ends_lf buf' \<and> int (data_p buf') \<le> sz buf' \<and> (st = Next \<longrightarrow> int (data_p buf') < sz buf') \<and> sz buf' = sz buf)"
proof -
  have p: "ends_lf b \<and> int (data_p b) < sz b \<and> sz b = sz buf" if "proceed_line buf = Some (p, b)" for p b
    using proceed_bound(1) [OF assms that] .
  have up: "ends_lf (b\<lparr>data_p := n\<rparr>) = ends_lf b" for b n by (simp add: ends_lf_def)
  show ?thesis
    unfolding header_line_def
    by (auto intro!: post_bind simp: Let_def finish_header_def up split: prod.splits dest!: p)
qed

lemma parse_headers_bound:
  "parse_headers req buf = Some (r, req', buf') \<Longrightarrow> ends_lf buf \<Longrightarrow> int (data_p buf) \<le> sz buf
    \<Longrightarrow> int (data_p buf') \<le> sz buf' \<and> sz buf' = sz buf"
proof (induction req buf rule: parse_headers.induct)
  case (1 req buf)
  show ?case
  proof (cases "int (data_p buf) < buf_end buf")
    case True
    with "1.prems"(1) obtain st req1 buf1 where hl: "header_line req buf = Some (st, req1, buf1)"
      by (subst (asm) parse_headers.simps) (auto split: option.splits)
    have b: "ends_lf buf1" "int (data_p buf1) \<le> sz buf1" "st = Next \<longrightarrow> int (data_p buf1) < sz buf1"
        "sz buf1 = sz buf"
      using postD [OF header_line_bound hl] "1.prems"(2) True by (auto simp: buf_end_def)
    show ?thesis
    proof (cases st)
      case Next
      have "parse_headers req1 (buf1\<lparr>data_p := Suc (data_p buf1)\<rparr>) = Some (r, req', buf')"
        using "1.prems"(1) True hl Next by (subst (asm) parse_headers.simps) auto
      from "1.IH" [OF True hl refl refl Next this] b Next show ?thesis by (simp add: ends_lf_def)
    qed (use "1.prems" b True hl in \<open>subst (asm) parse_headers.simps, auto\<close>)+
  next
    case False
    with "1.prems" show ?thesis by (subst (asm) parse_headers.simps) auto
  qed
qed

lemma parse_start_bound:
  assumes "ends_lf buf" "int (data_p buf) < sz buf"
  shows "post (parse_start req buf) (\<lambda>(r, req', buf'). ends_lf buf' \<and> int (data_p buf') \<le> sz buf' \<and> sz buf' = sz buf)"
proof -
  have up: "ends_lf (b\<lparr>data_p := n\<rparr>) = ends_lf b" for b n by (simp add: ends_lf_def)
  show ?thesis
    unfolding parse_start_def
    by (auto intro!: post_bind simp: Let_def abort_with_def up assms split: option.splits
        dest!: proceed_bound(2) [rotated 2])
qed

lemma parse_exit_rc: "parse_exit r req \<Longrightarrow> r = None \<or> (\<exists>rc < 0. r = Some rc)"
  by (auto simp: parse_exit_def split: option.splits)

lemma req_parse_bound:
  assumes "ends_lf buf" "data_p buf = 0"
  shows "post (req_parse req buf) (\<lambda>(rc, req', buf'). rc \<le> sz buf)"
proof -
  have z: "int (data_p buf) < sz buf" using assms by (simp add: ends_lf_def)
  have st: "post (if req_phase req = REQ_START then parse_start req buf else Some (None, req, buf))
      (\<lambda>(r, req', b). ends_lf b \<and> int (data_p b) \<le> sz b \<and> sz b = sz buf
        \<and> (r = None \<or> (\<exists>rc < 0. r = Some rc)))"
  proof (rule post_if)
    show "post (parse_start req buf) (\<lambda>(r, req', b). ends_lf b \<and> int (data_p b) \<le> sz b
        \<and> sz b = sz buf \<and> (r = None \<or> (\<exists>rc < 0. r = Some rc)))"
    proof (rule postI, clarify, goal_cases)
      case (1 r req' b)
      from postD [OF parse_start_bound [OF assms(1) z] 1] parse_exit_rc [OF parse_start_exit [OF 1]]
      show ?case by simp
    qed
  qed (use assms(1) z in simp)
  show ?thesis
    unfolding req_parse_def
  proof (rule post_bindI [OF st], clarify)
    fix r :: "int option" and req1 b
    assume b: "ends_lf b" "int (data_p b) \<le> sz b" "sz b = sz buf" "r = None \<or> (\<exists>rc < 0. r = Some rc)"
    have hd: "post (if req_phase req1 = REQ_HEADER then parse_headers req1 b else Some (None, req1, b))
        (\<lambda>(r, req', b'). int (data_p b') \<le> sz buf \<and> (r = None \<or> (\<exists>rc < 0. r = Some rc)))"
    proof (rule post_if)
      assume h: "req_phase req1 = REQ_HEADER"
      show "post (parse_headers req1 b)
          (\<lambda>(r, req', b'). int (data_p b') \<le> sz buf \<and> (r = None \<or> (\<exists>rc < 0. r = Some rc)))"
      proof (rule postI, clarify, goal_cases)
        case (1 r req' b')
        from parse_headers_bound [OF 1 b(1,2)] parse_exit_rc [OF parse_headers_exit [OF 1 h]] b(3)
        show ?case by simp
      qed
    qed (use b in simp)
    show "post (case r of Some rc \<Rightarrow> Some (rc, req1, b)
        | None \<Rightarrow> do {
            (r, req, buf) \<leftarrow> (if req_phase req1 = REQ_HEADER then parse_headers req1 b else Some (None, req1, b));
            Some (case r of Some rc \<Rightarrow> rc | None \<Rightarrow> int (data_p buf), req, buf) })
        (\<lambda>(rc, req', buf'). rc \<le> sz buf)"
    proof (cases r)
      case None
      show ?thesis unfolding None option.case by (rule post_bindI [OF hd]) (auto split: option.splits)
    qed (use b z in auto)
  qed
qed

end
