(* ===== verification/Response_Inv.thy ===== *)
theory Response_Inv
  imports Response Request_Inv
begin

text \<open>
  Response building is memory safe: the path always fits its array, the serialised header is
  exactly the lines it should be and always fits the connection buffer, an error page included.
  \<open>resp_ok\<close> is the invariant of a response.
\<close>

section \<open>Serialising\<close>

text \<open>What a header buffer holds: the bytes written so far and their terminator.\<close>

definition emitted :: "string \<Rightarrow> mem \<times> nat \<Rightarrow> bool" where
  "emitted s out \<longleftrightarrow>
     snd out = length s \<and> length s \<le> length (fst out) \<and> take (length s) (fst out) = s
     \<and> length (fst out) \<le> BUFSZ + 1"

lemma emit_spec:
  assumes "emitted t out" "no_nul s" "length t + length s \<le> BUFSZ"
  shows "safe (emit s out) (emitted (t @ s))"
proof -
  obtain m n where out: "out = (m, n)" by (cases out)
  let ?m = "take n m @ (s @ [NUL]) @ drop (n + length (s @ [NUL])) m"
  have e: "n = length t" "length t \<le> length m" "take (length t) m = t" "length m \<le> BUFSZ + 1"
    using assms(1) by (simp_all add: emitted_def out)
  have p: "mem_put (BUFSZ + 1) n (s @ [NUL]) m = Some ?m"
    using e assms(3) by (simp add: mem_put_def)
  have c: "cstr_at ?m n = Some s"
    using e assms(2) by (simp add: cstr_at_def takeWhile_append no_nul_def)
  have "length ?m \<le> BUFSZ + 1" by (rule mem_put_cap [OF p e(4)])
  with c show ?thesis
    unfolding emit_def out fst_conv snd_conv p Option.bind.bind_lunit c safe_simps
    using e by (simp add: emitted_def)
qed

lemma emit_all_spec:
  assumes "emitted t out" "list_all no_nul ss" "length t + length (concat ss) \<le> BUFSZ"
  shows "safe (emit_all ss out) (emitted (t @ concat ss))"
  using assms
proof (induction ss arbitrary: t out)
  case (Cons s ss)
  have "safe (emit s out) (emitted (t @ s))"
    by (rule emit_spec [OF Cons.prems(1)]) (use Cons.prems in auto)
  then show ?case
    unfolding emit_all.simps
  proof (rule safe_bindI)
    fix out'
    assume o: "emitted (t @ s) out'"
    show "safe (emit_all ss out') (emitted (t @ concat (s # ss)))"
      using Cons.IH [OF o] Cons.prems by simp
  qed
qed simp

section \<open>The size of a header\<close>

definition hdr_cost :: "hdr list \<Rightarrow> nat" where
  "hdr_cost hs = sum_list (map (\<lambda>(k, v). length k + length v + 4) hs)"

definition HDRS_MAX :: nat where
  "HDRS_MAX = 118"

text \<open>
  The response invariant: headers without NULs, of bounded size in all (none yet while the
  response is not begun), a content length that fits a 64-bit size, and a mapped file whenever one
  is being sent.
\<close>

definition mm_ok :: "buf_t \<Rightarrow> bool" where
  "mm_ok mm \<longleftrightarrow> 0 \<le> sz mm \<and> sz mm \<le> int (length (data mm)) \<and> int (data_p mm) \<le> sz mm"

definition resp_ok :: "resp_t \<Rightarrow> bool" where
  "resp_ok resp \<longleftrightarrow>
     list_all (\<lambda>(k, v). no_nul k \<and> no_nul v) (resp_hdrs resp) \<and> hdr_cost (resp_hdrs resp) \<le> HDRS_MAX
     \<and> (resp_phase resp = RESP_READY \<longrightarrow> resp_hdrs resp = [])
     \<and> 0 \<le> resp_clen resp \<and> resp_clen resp < 2 ^ 63
     \<and> (resp_phase resp = RESP_HEADER \<or> resp_phase resp = RESP_BODY
          \<longrightarrow> (\<exists>mm. resp_mmbuf resp = Some mm \<and> mm_ok mm))"

lemma resp_ok_reset [simp]: "resp_ok (resp_clear resp)"
  by (simp add: resp_ok_def resp_clear_def hdrs_reset_def hdr_cost_def)

lemma resp_ok_new [simp]: "resp_ok resp_new"
  by (simp add: resp_new_def)

lemma length_page_titles:
  "length (resp_title code) \<le> 25" "no_nul (resp_title code)"
  "length (resp_msg code) \<le> 256" "no_nul (resp_msg code)"
  by (simp_all add: resp_title_def resp_msg_def msg400_def msg404_def msg411_def msg500_def
      msg501_def msg503_def page_of_def CRLF_def)

lemma hdr_lines_size:
  assumes "os_ok os" "hdr_cost (resp_hdrs resp) \<le> HDRS_MAX"
    "0 \<le> resp_clen resp" "resp_clen resp < 2 ^ 63"
  shows "length (concat (hdr_lines os resp tr)) \<le> 310"
proof -
  have d: "length (os_date os (os_time os tr)) < 64"
    using os_okD(11) [OF assms(1)] by (simp add: DATESZ_def)
  have "nat (resp_clen resp) < 10 ^ 19" using assms(3,4) by (simp add: nat_less_iff)
  then have c: "length (show_int (resp_clen resp)) \<le> 19"
    using length_show_nat [of "nat (resp_clen resp)" 19] assms(3) by (simp add: show_int_def)
  have h: "length (concat (map (\<lambda>(k, v). k @ '': '' @ v @ CRLF) hs)) = hdr_cost hs" for hs
    by (induction hs) (auto simp: hdr_cost_def CRLF_def)
  have "length (concat (hdr_lines os resp tr)) = 9 + length (resp_title (resp_status resp)) + 2
      + (6 + length (os_date os (os_time os tr)) + 2) + 18
      + (if resp_alive resp then 24 else 19)
      + (16 + length (show_int (resp_clen resp)) + 2) + hdr_cost (resp_hdrs resp) + 2"
    by (simp add: hdr_lines_def h VERSION_def) (simp add: CRLF_def h [unfolded CRLF_def, simplified])
  moreover have "length (resp_title (resp_status resp)) \<le> 25" by (rule length_page_titles)
  ultimately show ?thesis using d c assms(2) unfolding HDRS_MAX_def by (simp split: if_splits)
qed

lemma hdr_lines_no_nul:
  assumes "os_ok os" "list_all (\<lambda>(k, v). no_nul k \<and> no_nul v) (resp_hdrs resp)"
  shows "list_all no_nul (hdr_lines os resp tr)"
  using assms os_okD(10) [OF assms(1)] length_page_titles(2)
  by (auto simp: hdr_lines_def CRLF_def VERSION_def list_all_iff)

text \<open>The header is exactly its lines, terminated, within the buffer.\<close>

lemma resp_hdr_spec:
  assumes "os_ok os" "list_all (\<lambda>(k, v). no_nul k \<and> no_nul v) (resp_hdrs resp)"
    "hdr_cost (resp_hdrs resp) \<le> HDRS_MAX" "0 \<le> resp_clen resp" "resp_clen resp < 2 ^ 63"
    and "length m \<le> BUFSZ + 1"
  shows "safe (resp_hdr os resp m tr) (\<lambda>(n, m').
    n = int (length (concat (hdr_lines os resp tr))) \<and> n \<le> 310
    \<and> take (nat n) m' = concat (hdr_lines os resp tr) \<and> nat n \<le> length m' \<and> length m' \<le> BUFSZ + 1)"
proof -
  have "safe (emit_all (hdr_lines os resp tr) (m, 0)) (emitted ([] @ concat (hdr_lines os resp tr)))"
    by (rule emit_all_spec)
      (use hdr_lines_no_nul [OF assms(1,2)] hdr_lines_size [OF assms(1,3-5), of tr] assms(6) in
        \<open>auto simp: emitted_def BUFSZ_def\<close>)
  then show ?thesis
    unfolding resp_hdr_def
    by (rule safe_bindI)
      (use hdr_lines_size [OF assms(1,3-5), of tr] in \<open>auto simp: emitted_def\<close>)
qed

section \<open>Finding the file\<close>

lemma cstrn_at_cstr:
  assumes "is_cstr m"
  shows "cstrn_at m 0 n = Some (take n (cstr m))"
proof -
  obtain r where m: "m = cstr m @ NUL # r" using assms by (rule is_cstr_split)
  define s where "s = cstr m"
  have ms: "m = s @ NUL # r" and nul: "no_nul s" using m by (simp_all add: s_def)
  have "takeWhile (\<lambda>c. c \<noteq> NUL) (take n m) = take n s"
    using nul by (cases "n \<le> length s")
      (auto simp: ms take_Cons' takeWhile_append no_nul_def dest: in_set_takeD)
  then show ?thesis by (simp add: cstrn_at_def flip: s_def) (auto simp: ms)
qed

lemma str_ok_cstr: "str_ok cap m \<Longrightarrow> is_cstr m \<and> length (cstr m) < cap"
  using length_cstr [of m] by (auto simp: str_ok_def)

text \<open>The path is the folder and the URI, each cut at \<open>REQ_URISZ\<close> bytes.\<close>

lemma build_path_spec:
  assumes "is_cstr (conf_www conf)" "req_ok req"
  shows "safe (build_path conf req) (\<lambda>path. is_cstr path \<and> length path \<le> PATHSZ
    \<and> cstr path = take REQ_URISZ (cstr (conf_www conf)) @ cstr (req_uri req))"
proof -
  define w where "w = take REQ_URISZ (cstr (conf_www conf))"
  define u where "u = cstr (req_uri req)"
  have uri: "is_cstr (req_uri req)" "length u \<le> REQ_URISZ"
    using assms(2) str_ok_cstr [of "REQ_URISZ + 1" "req_uri req"] by (auto simp: req_ok_def u_def)
  have sz: "length w \<le> REQ_URISZ" "PATHSZ = REQ_URISZ * 3" "0 < REQ_URISZ" "no_nul w" "no_nul u"
    by (simp_all add: w_def u_def PATHSZ_def REQ_URISZ_def)
  have 1: "strncpy0 PATHSZ [] (conf_www conf) 0 REQ_URISZ = Some (w @ [NUL])"
    using sz by (simp add: strncpy0_def cstrn_at_cstr [OF assms(1)] flip: w_def)
  have 2: "cstr_at (w @ [NUL]) 0 = Some w"
    using sz by (simp add: cstr_at_cstr)
  have 3: "cstrn_at (req_uri req) 0 REQ_URISZ = Some u"
    using uri by (simp add: cstrn_at_cstr flip: u_def)
  have 4: "mem_put PATHSZ (length w) (u @ [NUL]) (w @ [NUL]) = Some (w @ u @ [NUL])"
    using uri sz by (simp add: mem_put_def)
  have 5: "cstr (w @ u @ [NUL]) = w @ u"
    using sz cstr_append_NUL [of "w @ u" "[]"] by simp
  show ?thesis
    unfolding build_path_def 1 Option.bind.bind_lunit 2 3 4 safe_simps 5
    using uri sz by (simp add: is_cstr_def w_def u_def)
qed

text \<open>What a lookup leaves: only the mapped buffer and, at the end, whether there is one.\<close>

definition mapped :: "resp_t \<Rightarrow> bool \<Rightarrow> resp_t \<Rightarrow> stat_t option \<Rightarrow> bool" where
  "mapped resp ok resp' st \<longleftrightarrow>
     (\<exists>mm. resp' = resp\<lparr>resp_mmbuf := mm\<rparr> \<and> (ok \<longrightarrow> (\<exists>b s. mm = Some b \<and> mm_ok b \<and> st = Some s
        \<and> sz b = st_size s \<and> data_p b = 0 \<and> 0 < st_size s \<and> st_size s < 2 ^ 63)))"

lemma mapped_trans:
  "mapped resp a resp' st \<Longrightarrow> mapped resp' b resp'' st' \<Longrightarrow> mapped resp b resp'' st'"
  by (auto simp: mapped_def)

lemma resp_mmap_spec:
  assumes "os_ok os" "is_cstr path"
  shows "safe (resp_mmap os resp path st tr) (\<lambda>(rc, resp', st', tr'). mapped resp (0 \<le> rc) resp' st')"
proof -
  have self: "mapped resp False resp st'" for st'
    unfolding mapped_def by (rule exI [of _ "resp_mmbuf resp"]) simp
  show ?thesis
  proof (cases "os_stat os tr (cstr path)")
    case None
    then show ?thesis by (simp add: resp_mmap_def cstr_at_cstr assms(2) self)
  next
    case (Some s)
    note sz = os_okD(8) [OF assms(1) Some]
    have mm: "mapped resp True (resp\<lparr>resp_mmbuf := Some \<lparr>sz = st_size s, data = bs, data_p = 0\<rparr>\<rparr>) (Some s)"
      if "os_mmap os tr2 fd (st_size s) = Some bs" for tr2 fd bs
      using os_okD(9) [OF assms(1) that] sz by (auto simp: mapped_def mm_ok_def)
    have no: "mapped resp False (resp\<lparr>resp_mmbuf := None\<rparr>) (Some s)"
      by (auto simp: mapped_def)
    show ?thesis
      using self mm no sz
      by (auto simp: resp_mmap_def cstr_at_cstr assms(2) Some mmbuf_new_def Let_def split: option.splits)
  qed
qed

text \<open>The default pages are tried in order below the path.\<close>

lemma try_pages_spec:
  assumes "os_ok os" "path_p \<le> length path" "path_p \<le> 2 * REQ_URISZ + 1"
    "list_all (\<lambda>p. no_nul p \<and> length p \<le> 10) pages"
  shows "safe (try_pages os resp path path_p st pages tr) (\<lambda>(ok, resp', path', st', tr').
    mapped resp ok resp' st' \<and> (ok \<longrightarrow> is_cstr path'))"
  using assms(2,4)
proof (induction pages arbitrary: resp path st tr)
  case Nil
  then show ?case by (auto simp: mapped_def intro!: exI [of _ "resp_mmbuf resp"])
next
  case (Cons page pages)
  have pg: "no_nul page" "length page \<le> 10" using Cons.prems(2) by simp_all
  have 1: "cstrn_at (lit page) 0 REQ_URISZ = Some page"
    using pg by (simp add: cstrn_at_cstr REQ_URISZ_def)
  let ?path = "take path_p path @ (page @ [NUL]) @ drop (path_p + length (page @ [NUL])) path"
  have 2: "mem_put PATHSZ path_p (page @ [NUL]) path = Some ?path"
    using Cons.prems(1) assms(3) pg by (simp add: mem_put_def PATHSZ_def REQ_URISZ_def)
  have c: "is_cstr ?path" "path_p \<le> length ?path" using Cons.prems(1) by (auto simp: is_cstr_def)
  show ?case
    unfolding try_pages.simps 1 Option.bind.bind_lunit 2
  proof (rule safe_bindI [OF resp_mmap_spec [OF assms(1) c(1)]], clarify)
    fix rc resp' st' tr'
    assume m: "mapped resp (0 \<le> rc) resp' st'"
    show "safe (if 0 \<le> rc then Some (True, resp', ?path, st', tr')
        else try_pages os resp' ?path path_p st' pages tr')
        (\<lambda>(ok, resp', path', st', tr'). mapped resp ok resp' st' \<and> (ok \<longrightarrow> is_cstr path'))"
    proof (rule safe_if)
      assume "\<not> 0 \<le> rc"
      with m have "mapped resp False resp' st'" by simp
      then show "safe (try_pages os resp' ?path path_p st' pages tr')
          (\<lambda>(ok, resp', path', st', tr'). mapped resp ok resp' st' \<and> (ok \<longrightarrow> is_cstr path'))"
        using Cons.IH [OF c(2), of resp' st' tr'] Cons.prems(2)
        by (auto elim!: safe_mono intro: mapped_trans)
    qed (use m c in simp)
  qed
qed

lemma find_file_spec:
  assumes "os_ok os" "is_cstr path" "cstr path \<noteq> []" "length (cstr path) \<le> 2 * REQ_URISZ"
  shows "safe (find_file os resp path tr) (\<lambda>(ok, resp', path', st', tr').
    mapped resp ok resp' st' \<and> (ok \<longrightarrow> is_cstr path'))"
proof -
  let ?s = "cstr path" and ?Q = "\<lambda>(ok, resp', path', st', tr'). mapped resp ok resp' st' \<and> (ok \<longrightarrow> is_cstr path')"
  have len: "length ?s < length path" by (rule length_cstr [OF assms(2)])
  define path2 where "path2 = take (length ?s) path @ ''/'' @ drop (length ?s + 1) path"
  have put: "mem_put PATHSZ (length ?s) ''/'' path = Some path2"
    using len assms(4) by (simp add: mem_put_def path2_def PATHSZ_def REQ_URISZ_def)
  have len2: "Suc (length ?s) \<le> length path2" using len by (simp add: path2_def)
  have pages: "list_all (\<lambda>p. no_nul p \<and> length p \<le> 10) default_pages"
    by (simp add: default_pages_def)
  have pages_ok: "safe (try_pages os resp' pth pp st default_pages tr') ?Q"
    if "mapped resp False resp' st" "pp \<le> length pth" "pp \<le> 2 * REQ_URISZ + 1" for resp' st tr' pth pp
    using try_pages_spec [OF assms(1) that(2,3) pages, of resp' st tr'] that(1)
    by (auto elim!: safe_mono intro: mapped_trans)
  show ?thesis
    unfolding find_file_def
  proof (rule safe_bindI [OF resp_mmap_spec [OF assms(1,2)]], clarify)
    fix rc resp' st' tr'
    assume m: "mapped resp (0 \<le> rc) resp' st'"
    have g: "mem_get path (length ?s - 1) = Some (path ! (length ?s - 1))" using len by simp
    show "safe (if 0 \<le> rc then Some (True, resp', path, st', tr') else do {
        s \<leftarrow> cstr_at path 0;
        c \<leftarrow> (if s = [] then None else mem_get path (length s - 1));
        (path, path_p) \<leftarrow> (if c \<noteq> CHR ''/'' then do {
            path \<leftarrow> mem_put PATHSZ (length s) ''/'' path; Some (path, Suc (length s)) }
          else Some (path, length s));
        try_pages os resp' path path_p st' default_pages tr' }) ?Q"
      using m assms len len2 pages_ok g put by (auto simp: cstr_at_cstr)
  qed
qed

section \<open>Media types\<close>

definition has_suffix :: "string \<Rightarrow> string \<Rightarrow> bool" where
  "has_suffix s x \<longleftrightarrow> length x \<le> length s \<and> map tolower (drop (length s - length x) s) = map tolower x"

text \<open>The media type of a path, by its suffix.\<close>

definition ctype_of :: "string \<Rightarrow> string" where
  "ctype_of p =
     (if has_suffix p ''.html'' \<or> has_suffix p ''.htm'' then ''text/html''
      else if has_suffix p ''.css'' then ''text/css''
      else if has_suffix p ''.js'' then ''application/javascript''
      else if has_suffix p ''png'' then ''image/png''
      else if has_suffix p ''.jpg'' \<or> has_suffix p ''.jpeg'' then ''image/jpeg''
      else if has_suffix p ''.gif'' then ''image/gif''
      else ''text/plain'')"

lemma any_suffix_spec:
  assumes "is_cstr path" "list_all no_nul xs"
  shows "any_suffix path xs = Some (\<exists>x \<in> set xs. has_suffix (cstr path) x)"
  using assms(2)
proof (induction xs)
  case (Cons x xs)
  then have "caseendswith (Some path) (Some (lit x)) = Some (has_suffix (cstr path) x)"
    using caseendswith_cstr [OF assms(1), of "lit x"] by (simp add: has_suffix_def)
  with Cons show ?case by (simp add: any_suffix_def)
qed (simp add: any_suffix_def)

lemma fill_ctype_spec:
  assumes "is_cstr path"
  shows "fill_ctype path m = Some (ctype_of (cstr path) @ NUL # drop (Suc (length (ctype_of (cstr path)))) m)"
  by (simp add: fill_ctype_def any_suffix_spec [OF assms] ctype_of_def HDR_VALSZ_def)

lemma ctype_of_bounds: "no_nul (ctype_of p) \<and> length (ctype_of p) \<le> 22"
  by (simp add: ctype_of_def)

definition entity_list :: "os \<Rightarrow> string \<Rightarrow> stat_t \<Rightarrow> hdr list" where
  "entity_list os p st =
     [(''Last-Modified'', os_date os (st_mtime st)), (''Content-Type'', ctype_of p)]"

lemma entity_hdrs_spec:
  assumes "os_ok os" "is_cstr path"
  shows "entity_hdrs os path st hdrs = Some (entity_list os (cstr path) st @ hdrs)"
proof -
  have 1: "hdr_pair (lit ''Content-Type'') (lit []) = Some (''Content-Type'', [])"
    and 2: "hdr_pair (lit ''Last-Modified'') (lit []) = Some (''Last-Modified'', [])"
    by (simp_all add: hdr_pair_cstr HDR_KEYSZ_def)
  have "length (os_date os (st_mtime st)) < DATESZ" by (rule os_okD(11) [OF assms(1)])
  with 1 2 ctype_of_bounds [of "cstr path"] show ?thesis
    by (simp add: entity_hdrs_def fill_ctype_spec [OF assms(2)] hdrs_insert_def entity_list_def)
qed

lemma entity_list_ok:
  assumes "os_ok os"
  shows "list_all (\<lambda>(k, v). no_nul k \<and> no_nul v) (entity_list os p st)
    \<and> hdr_cost (entity_list os p st) \<le> HDRS_MAX"
  using os_okD(10,11) [OF assms, of "st_mtime st"] ctype_of_bounds [of p]
  by (simp add: entity_list_def hdr_cost_def HDRS_MAX_def DATESZ_def)

section \<open>Building the response\<close>

definition conf_ok :: "conf_t \<Rightarrow> bool" where
  "conf_ok conf \<longleftrightarrow> is_cstr (conf_www conf) \<and> cstr (conf_www conf) \<noteq> [] \<and> is_cstr (conf_cgi conf)"

text \<open>
  What \<open>resp_build\<close> leaves of a fresh response: when it succeeds, the response with the header
  phase set is well formed; when it fails, with any later phase.
\<close>

lemma resp_build_spec:
  assumes "os_ok os" "conf_ok conf" "req_ok req" "resp_ok resp" "resp_phase resp = RESP_READY"
  shows "safe (resp_build os resp req conf tr) (\<lambda>(ok, resp', tr').
    resp_phase resp' = RESP_READY \<and> resp_alive resp' = req_alive req
    \<and> (ok \<longrightarrow> resp_ok (resp'\<lparr>resp_phase := RESP_HEADER\<rparr>) \<and> resp_status resp' = resp_status resp)
    \<and> resp_ok (resp'\<lparr>resp_phase := RESP_ABORT\<rparr>))"
proof -
  have hd: "resp_hdrs resp = []" using assms(4,5) by (simp add: resp_ok_def)
  let ?resp = "resp\<lparr>resp_alive := req_alive req\<rparr>"
  have w: "is_cstr (conf_www conf)" "cstr (conf_www conf) \<noteq> []" using assms(2) by (simp_all add: conf_ok_def)
  show ?thesis
    unfolding resp_build_def Let_def
  proof (rule safe_bindI [OF build_path_spec [OF w(1) assms(3)]], elim conjE)
    fix path
    assume p: "is_cstr path"
      "cstr path = take REQ_URISZ (cstr (conf_www conf)) @ cstr (req_uri req)"
    have u: "length (cstr (req_uri req)) \<le> REQ_URISZ"
      using assms(3) str_ok_cstr [of "REQ_URISZ + 1" "req_uri req"] by (auto simp: req_ok_def)
    have ne: "cstr path \<noteq> []" "length (cstr path) \<le> 2 * REQ_URISZ"
      using p(2) w(2) u by (auto simp: REQ_URISZ_def)
    show "safe (find_file os ?resp path tr \<bind>
        (\<lambda>(mmapped, resp, path, st, tr).
          if \<not> mmapped then Some (False, resp\<lparr>resp_status := 404\<rparr>, tr)
          else st \<bind> (\<lambda>st.
            (if req_meth req = M_GET \<or> req_meth req = M_HEAD
             then entity_hdrs os path st (resp_hdrs (resp\<lparr>resp_clen := st_size st\<rparr>))
             else Some (resp_hdrs (resp\<lparr>resp_clen := st_size st\<rparr>))) \<bind>
            (\<lambda>hdrs. Some ((word_of_int (st_size st) :: 32 word) \<noteq> 0,
              resp\<lparr>resp_clen := st_size st, resp_hdrs := hdrs\<rparr>, tr)))))
      (\<lambda>(ok, resp', tr').
        resp_phase resp' = RESP_READY \<and> resp_alive resp' = req_alive req
        \<and> (ok \<longrightarrow> resp_ok (resp'\<lparr>resp_phase := RESP_HEADER\<rparr>) \<and> resp_status resp' = resp_status resp)
        \<and> resp_ok (resp'\<lparr>resp_phase := RESP_ABORT\<rparr>))"
      using assms(4,5) hd entity_list_ok [OF assms(1)]
      by (intro safe_bindI [OF find_file_spec [OF assms(1) p(1) ne]])
        (auto simp: mapped_def entity_hdrs_spec [OF assms(1)] resp_ok_def hdr_cost_def)
  qed
qed

end
