(* ===== verification/Conn_Inv.thy ===== *)
theory Conn_Inv
  imports Conn Response_Inv
begin

text \<open>
  The invariant of a connection, and the proof that the handlers of \<open>conn.c\<close> keep it.

  \<open>phases_ok\<close> says how the three state machines of a connection (request, response, CGI) go
  together. \<open>conn_ok\<close> adds the well-formedness of the data. The handlers call back into the server;
  what they rely on is the contract of the locales below, which the server discharges.
\<close>

section \<open>The invariant\<close>

definition cgi_closed :: "cgi_t \<Rightarrow> bool" where
  "cgi_closed g \<longleftrightarrow> srv_out g < 0 \<and> srv_in g < 0 \<and> srv_err g < 0
     \<and> cgi_in g < 0 \<and> cgi_out g < 0 \<and> cgi_err g < 0"

definition cgi_ok :: "cgi_t \<Rightarrow> bool" where
  "cgi_ok g \<longleftrightarrow> (cgi_phase g \<in> {CGI_IDLE, CGI_READY, CGI_DISABLED} \<longrightarrow> cgi_closed g)"

text \<open>
  While the header is read neither side serves. A complete static request is served by the response
  alone, a complete dynamic one by the CGI program alone. An aborted request says nothing: the
  error can come from either side.
\<close>

definition phases_fit :: "req_phase_t \<Rightarrow> req_kind \<Rightarrow> cgi_phase_t \<Rightarrow> resp_phase_t \<Rightarrow> bool" where
  "phases_fit rp ty g p \<longleftrightarrow>
     (rp = REQ_START \<or> rp = REQ_HEADER \<longrightarrow> g = CGI_IDLE \<and> p = RESP_READY)
     \<and> (rp = REQ_BODY \<or> rp = REQ_DONE \<longrightarrow>
          (ty = REQ_STATIC \<longrightarrow> g = CGI_DISABLED \<and> p \<in> {RESP_READY, RESP_HEADER, RESP_BODY})
          \<and> (ty = REQ_DYNAMIC \<longrightarrow>
               p = RESP_DISABLED \<and> g \<in> {CGI_READY, CGI_SRV_TO_CGI, CGI_CGI_TO_SRV, CGI_DONE}))"

definition phases_ok :: "conn_t \<Rightarrow> bool" where
  "phases_ok k = phases_fit (req_phase (conn_req k)) (req_type (conn_req k))
     (cgi_phase (conn_cgi k)) (resp_phase (conn_resp k))"

lemma phases_fit_abort [simp]: "phases_fit REQ_ABORT ty g p"
  by (simp add: phases_fit_def)

text \<open>
  The data: the buffer need not be in order once the request is aborted (a failed read leaves -1 as
  its size), the error page resets it. While a CGI program is read from, the cursor is at the base.
\<close>

definition data_ok :: "conn_t \<Rightarrow> bool" where
  "data_ok k \<longleftrightarrow>
     req_ok (conn_req k) \<and> resp_ok (conn_resp k) \<and> cgi_ok (conn_cgi k)
     \<and> length (data (conn_buf k)) \<le> BUFSZ + 1
     \<and> (req_phase (conn_req k) = REQ_ABORT \<or> buf_ok (conn_buf k)
          \<and> (cgi_phase (conn_cgi k) = CGI_CGI_TO_SRV \<longrightarrow> data_p (conn_buf k) = 0))
     \<and> (req_phase (conn_req k) = REQ_BODY \<longrightarrow> 0 \<le> req_rsize (conn_req k))"

definition conn_ok :: "conn_t \<Rightarrow> bool" where
  "conn_ok k \<longleftrightarrow> phases_ok k \<and> data_ok k"

lemma conn_ok_data: "conn_ok k \<Longrightarrow> data_ok k"
  by (simp add: conn_ok_def)

text \<open>What a handler leaves alone: the identity of the connection and its pipe ends.\<close>

definition same_conn :: "conn_t \<Rightarrow> conn_t \<Rightarrow> bool" where
  "same_conn k k' \<longleftrightarrow> conn_fd k' = conn_fd k \<and> conn_idx k' = conn_idx k
     \<and> srv_in (conn_cgi k') = srv_in (conn_cgi k) \<and> srv_out (conn_cgi k') = srv_out (conn_cgi k)
     \<and> srv_err (conn_cgi k') = srv_err (conn_cgi k)"

lemma same_conn_refl [simp]: "same_conn k k"
  by (simp add: same_conn_def)

lemma same_conn_trans: "same_conn k k' \<Longrightarrow> same_conn k' k'' \<Longrightarrow> same_conn k k''"
  by (simp add: same_conn_def)

lemma same_conn_update [simp]:
  "same_conn k (k'\<lparr>conn_buf := b\<rparr>) = same_conn k k'"
  "same_conn k (k'\<lparr>conn_req := r\<rparr>) = same_conn k k'"
  "same_conn k (k'\<lparr>conn_resp := p\<rparr>) = same_conn k k'"
  "same_conn k (k'\<lparr>conn_ssl := s\<rparr>) = same_conn k k'"
  "same_conn k (k'\<lparr>conn_ssl_accepted := s\<rparr>) = same_conn k k'"
  "same_conn k (k\<lparr>conn_cgi := (conn_cgi k)\<lparr>cgi_phase := g\<rparr>\<rparr>)"
  "same_conn k (k\<lparr>conn_cgi := (conn_cgi k)\<lparr>cgi_buf_phase := bp\<rparr>\<rparr>)"
  by (simp_all add: same_conn_def)

section \<open>Parsing what is in the buffer\<close>

lemma last_nl_result:
  "last_nl m e p q = Some r \<Longrightarrow>
     r = q \<or> (\<exists>j. p \<le> j \<and> j < e \<and> j < length m \<and> m ! j = LF \<and> r = int (Suc j))"
proof (induction m e p q rule: last_nl.induct)
  case (1 m e p q)
  show ?case
  proof (cases "p < e")
    case True
    with "1.prems" obtain c where c: "mem_get m p = Some c"
      and r: "last_nl m e (Suc p) (if c = LF then int (Suc p) else q) = Some r"
      by (subst (asm) last_nl.simps) (auto split: option.splits)
    from "1.IH" [OF True c r] c True show ?thesis
      by (auto simp: mem_get_Some split: if_splits)
  next
    case False
    with "1.prems" show ?thesis by (subst (asm) last_nl.simps) simp
  qed
qed

text \<open>The lines copied out of the buffer end in a line feed and lie within the data.\<close>

lemma lines_copied:
  assumes "last_nl (data buf) (buf_e buf) e (int (data_p buf) - 1) = Some q"
    and "int (data_p buf) < q" "buf_ok buf"
    and "buf_slice buf (data_p buf) (nat q - data_p buf) = Some bs"
    and "buf_write 0 bs buf_new = Some lines"
  shows "ends_lf (lines\<lparr>sz := int (nat q - data_p buf)\<rparr>) \<and> data_p lines = 0 \<and> q \<le> sz buf"
proof -
  define n where "n = nat q - data_p buf"
  obtain j where j: "j < buf_e buf" "j < length (data buf)" "data buf ! j = LF" "q = int (Suc j)"
    using last_nl_result [OF assms(1)] assms(2) by auto
  have nq: "nat q = Suc j" and le: "data_p buf \<le> j" using j(4) assms(2) by simp_all
  have bs: "bs = take n (drop (data_p buf) (data buf))" "data_p buf + n \<le> length (data buf)"
    using assms(4) by (auto simp: buf_slice_def n_def split: if_splits)
  have n: "n = Suc (j - data_p buf)" using nq le by (simp add: n_def)
  then have len: "length bs = n" using bs by simp
  have l: "take n (data lines) = bs" "n \<le> length (data lines)" "data_p lines = 0"
    using assms(5) len by (auto simp: buf_write_def bind_eq_Some_conv mem_put_Some buf_new_def)
  have "data lines ! (j - data_p buf) = take n (data lines) ! (j - data_p buf)" by (simp add: n)
  also have "\<dots> = LF" unfolding l(1) using le j(3) bs n by simp
  finally have e: "data lines ! (n - 1) = LF" by (simp add: n)
  have "0 < n" by (simp add: n)
  with l(2) e have "ends_lf (lines\<lparr>sz := int n\<rparr>)" by (simp add: ends_lf_def)
  then show ?thesis
    using l(3) j(1,4) assms(3) by (simp add: n_def buf_e_def buf_end_def)
qed

text \<open>
  Between its two halves \<open>cn_parse_req\<close> may have a request in the body phase whose sides are not
  yet decided.
\<close>

definition mid_ok :: "conn_t \<Rightarrow> bool" where
  "mid_ok k \<longleftrightarrow> data_ok k \<and> (phases_ok k \<or> req_phase (conn_req k) = REQ_BODY
     \<and> cgi_phase (conn_cgi k) = CGI_IDLE \<and> resp_phase (conn_resp k) = RESP_READY)"

lemma conn_ok_mid: "conn_ok k \<Longrightarrow> mid_ok k"
  by (simp add: conn_ok_def mid_ok_def)

lemma parse_lines_of_spec:
  assumes "conn_ok k"
  shows "post (parse_lines_of k e) (\<lambda>(r, k'). same_conn k k'
    \<and> (case r of Some st \<Rightarrow> conn_ok k' | None \<Rightarrow> mid_ok k'))"
proof (cases "req_phase (conn_req k) = REQ_START \<or> req_phase (conn_req k) = REQ_HEADER")
  case True
  let ?buf = "conn_buf k" and ?req = "conn_req k"
  have d: "data_ok k" and p: "phases_ok k" using assms by (simp_all add: conn_ok_def)
  have ph: "cgi_phase (conn_cgi k) = CGI_IDLE" "resp_phase (conn_resp k) = RESP_READY"
    using p True unfolding phases_ok_def phases_fit_def by blast+
  have na: "req_phase ?req \<noteq> REQ_ABORT" using True by auto
  have ok: "req_ok ?req" "resp_ok (conn_resp k)" "cgi_ok (conn_cgi k)" "buf_ok ?buf"
      "length (data ?buf) \<le> BUFSZ + 1"
    using d na by (simp_all add: data_ok_def)
  have step: "same_conn k (k\<lparr>conn_req := req', conn_buf := ?buf\<lparr>data_p := n\<rparr>\<rparr>)
      \<and> (rc < 0 \<longrightarrow> conn_ok (k\<lparr>conn_req := req', conn_buf := ?buf\<lparr>data_p := n'\<rparr>\<rparr>))
      \<and> (0 \<le> rc \<longrightarrow> mid_ok (k\<lparr>conn_req := req', conn_buf := ?buf\<lparr>data_p := data_p ?buf + nat rc\<rparr>\<rparr>))"
    if q: "last_nl (data ?buf) (buf_e ?buf) e (int (data_p ?buf) - 1) = Some q"
      "int (data_p ?buf) < q"
      "buf_slice ?buf (data_p ?buf) (nat q - data_p ?buf) = Some bs"
      "buf_write 0 bs buf_new = Some lines"
      and p: "req_parse ?req (lines\<lparr>sz := int (nat q - data_p ?buf)\<rparr>) = Some (rc, req', b)"
    for q bs lines rc req' b n n'
  proof -
    note lc = lines_copied [OF q(1,2) ok(4) q(3,4)]
    have 1: "rc \<le> int (nat q - data_p ?buf)"
      using postD [OF req_parse_bound p] lc by simp
    have 2: "req_ok req'" using postD [OF req_parse_ok [OF ok(1)] p] by simp
    have 3: "parse_exit (if rc < 0 then Some rc else None) req'"
      using req_parse_exit [OF p] True by simp
    have "0 \<le> rc \<Longrightarrow> int (data_p ?buf + nat rc) \<le> sz ?buf" using 1 q(2) lc by simp
    then have b: "0 \<le> rc \<Longrightarrow> buf_ok (?buf\<lparr>data_p := data_p ?buf + nat rc\<rparr>)"
      using ok(4) by (simp add: buf_ok_def)
    have neg: "rc < 0 \<Longrightarrow> conn_ok (k\<lparr>conn_req := req', conn_buf := ?buf\<lparr>data_p := n'\<rparr>\<rparr>)"
      using 2 3 ok by (simp add: conn_ok_def data_ok_def phases_ok_def parse_exit_def)
    have pos: "0 \<le> rc \<Longrightarrow>
        mid_ok (k\<lparr>conn_req := req', conn_buf := ?buf\<lparr>data_p := data_p ?buf + nat rc\<rparr>\<rparr>)"
      using 2 3 ok b ph by (auto simp: mid_ok_def data_ok_def phases_ok_def phases_fit_def parse_exit_def)
    show ?thesis using neg pos by simp
  qed
  show ?thesis
    unfolding parse_lines_of_def if_P [OF True] Let_def
    using step conn_ok_mid [OF assms] by (auto intro!: post_bind)
next
  case False
  then show ?thesis using conn_ok_mid [OF assms] by (simp add: parse_lines_of_def)
qed

lemma take_body_ok:
  assumes ok: "conn_ok k" and ph: "req_phase (conn_req k) = REQ_BODY"
  shows "post (take_body k) (\<lambda>k'. same_conn k k' \<and> conn_ok k'
    \<and> req_type (conn_req k') = req_type (conn_req k) \<and> buf_ok (conn_buf k'))"
proof -
  have buf: "buf_ok (conn_buf k)" and rs: "0 \<le> req_rsize (conn_req k)"
    using ok ph by (simp_all add: conn_ok_def data_ok_def)
  let ?buf = "conn_buf k" and ?req = "conn_req k"
  let ?r = "req_rsize ?req - buf_rsize ?buf"
  have up: "conn_ok (k\<lparr>conn_req := ?req\<lparr>req_rsize := z, req_phase := REQ_DONE\<rparr>\<rparr>)" for z
    using ok ph by (simp add: conn_ok_def phases_ok_def phases_fit_def data_ok_def)
  have rest: "conn_ok (k\<lparr>conn_req := ?req\<lparr>req_rsize := ?r, req_phase := REQ_DONE, req_last_buf := lb\<rparr>,
        conn_buf := ?buf\<lparr>sz := sz ?buf - (- ?r)\<rparr>\<rparr>)
      \<and> buf_ok (?buf\<lparr>sz := sz ?buf - (- ?r)\<rparr>)"
    if neg: "?r < 0" and sl: "buf_slice ?buf (nat (buf_end ?buf - - ?r)) (nat (- ?r)) = Some bs"
      and w: "buf_write 0 bs ((buf_reset (req_last_buf ?req))\<lparr>sz := - ?r\<rparr>) = Some lb" for bs lb
  proof -
    have b: "buf_ok ?buf" using buf .
    have le: "- ?r \<le> buf_rsize ?buf" using rs by simp
    have "int (length bs) = - ?r" using sl neg by (auto simp: buf_slice_def split: if_splits)
    moreover have "buf_ok (req_last_buf ?req)"
      using ok by (simp add: conn_ok_def data_ok_def req_ok_def)
    ultimately have "buf_ok lb"
      using w le b by (auto simp: buf_write_def bind_eq_Some_conv mem_put_Some buf_ok_def buf_rsize_def)
    moreover have "buf_ok (?buf\<lparr>sz := sz ?buf - (- ?r)\<rparr>)"
      using b le neg by (auto simp: buf_ok_def buf_rsize_def)
    ultimately show ?thesis
      using ok ph by (simp add: conn_ok_def phases_ok_def phases_fit_def data_ok_def req_ok_def)
  qed
  have more: "conn_ok (k\<lparr>conn_req := ?req\<lparr>req_rsize := ?r\<rparr>\<rparr>)" if "0 < ?r"
    using that ok ph by (simp add: conn_ok_def phases_ok_def phases_fit_def data_ok_def)
  show ?thesis
    unfolding take_body_def Let_def
    using rest more up buf by (intro post_if) (auto intro!: post_bind split: if_splits)
qed

lemma body_step_spec:
  assumes "mid_ok k"
  shows "post (body_step k) (\<lambda>k'. same_conn k k' \<and> conn_ok k')"
proof (cases "req_phase (conn_req k) = REQ_BODY")
  case True
  define k1 where "k1 = enter_body k"
  have d: "data_ok k" and buf: "buf_ok (conn_buf k)"
    using assms True by (auto simp: mid_ok_def data_ok_def)
  have k1a: "same_conn k k1" "conn_req k1 = conn_req k" "conn_buf k1 = conn_buf k"
    by (simp_all add: k1_def enter_body_def same_conn_def)
  have "phases_ok k1"
    using assms True by (auto simp: mid_ok_def k1_def enter_body_def phases_ok_def phases_fit_def split: if_splits)
  moreover have "resp_ok (conn_resp k1)"
    using d by (auto simp: data_ok_def k1_def enter_body_def resp_ok_def)
  moreover have "cgi_ok (conn_cgi k1) \<and> (cgi_phase (conn_cgi k1) = CGI_CGI_TO_SRV \<longrightarrow>
      cgi_phase (conn_cgi k) = CGI_CGI_TO_SRV)"
  proof (cases "req_type (conn_req k)")
    case REQ_STATIC
    then have "cgi_closed (conn_cgi k)"
      using assms True d by (auto simp: mid_ok_def phases_ok_def phases_fit_def data_ok_def cgi_ok_def)
    then show ?thesis using REQ_STATIC by (simp add: k1_def enter_body_def cgi_ok_def cgi_closed_def)
  next
    case REQ_DYNAMIC
    then show ?thesis using d by (auto simp: k1_def enter_body_def data_ok_def cgi_ok_def cgi_closed_def)
  qed
  ultimately have k1: "same_conn k k1" "conn_req k1 = conn_req k" "conn_buf k1 = conn_buf k" "conn_ok k1"
    using k1a d by (auto simp: conn_ok_def data_ok_def)
  have take: "post (take_body k1) (\<lambda>k2. same_conn k1 k2 \<and> conn_ok k2
      \<and> req_type (conn_req k2) = req_type (conn_req k1) \<and> buf_ok (conn_buf k2))"
    using take_body_ok [OF k1(4)] True k1(2) by simp
  have fin: "same_conn k2 (k2\<lparr>conn_buf := buf_reset (conn_buf k2)\<rparr>)
      \<and> conn_ok (k2\<lparr>conn_buf := buf_reset (conn_buf k2)\<rparr>)" if "conn_ok k2" "buf_ok (conn_buf k2)" for k2
    using that by (auto simp: conn_ok_def phases_ok_def data_ok_def)
  show ?thesis
    unfolding body_step_def if_P [OF True] k1_def [symmetric]
    using fin k1(1) by (intro post_bindI [OF take]) (auto dest: same_conn_trans)
next
  case False
  then show ?thesis using assms by (simp add: body_step_def mid_ok_def conn_ok_def)
qed

end
