(* ===== verification/Conn_Handlers.thy ===== *)
theory Conn_Handlers
  imports Conn_Inv
begin

text \<open>
  The contract between the connection handlers and the server they call back into.

  \<open>conn_base\<close>: an invariant \<open>I c s\<close> ("the connection \<open>c\<close> is alive in \<open>s\<close>") under which a
  handler may rewrite its own connection, and an error callback that returns 1 and keeps it.
  \<open>conn_callbacks\<close> adds a success and a fatality callback: they return 1 and keep the connection, or
  -1 and leave a state without it (\<open>J c s\<close>). \<open>cgi_callbacks\<close> adds the callback of a started CGI
  program. Inside the locales every handler is proved to keep the contract; the server discharges
  it for its own callbacks.
\<close>

section \<open>State updates\<close>

lemma get_put [simp]: "get_conn c (put_conn c k s) = Some k"
  by (simp add: get_conn_def put_conn_def)

lemma get_trace [simp]: "get_conn c (s\<lparr>st_trace := t\<rparr>) = get_conn c s"
  by (simp add: get_conn_def)

lemma log_ev_trace: "log_ev e s = s\<lparr>st_trace := e # st_trace s\<rparr>"
  by (simp add: log_ev_def)

lemma put_trace: "(put_conn c k s)\<lparr>st_trace := t\<rparr> = put_conn c k (s\<lparr>st_trace := t\<rparr>)"
  by (simp add: put_conn_def)

lemma put_put [simp]: "put_conn c k' (put_conn c k s) = put_conn c k' s"
  by (simp add: put_conn_def)

lemma put_same: "get_conn c s = Some k \<Longrightarrow> put_conn c k s = s"
  by (simp add: get_conn_def put_conn_def fun_upd_idem)

definition abort_conn :: "conn_t \<Rightarrow> conn_t" where
  "abort_conn k = k\<lparr>conn_req := (conn_req k)\<lparr>req_phase := REQ_ABORT\<rparr>,
     conn_resp := (conn_resp k)\<lparr>resp_phase := RESP_ABORT\<rparr>\<rparr>"

lemma abort_conn_ok: "data_ok k \<Longrightarrow> conn_ok (abort_conn k)"
  by (simp add: abort_conn_def conn_ok_def phases_ok_def data_ok_def resp_ok_def)

text \<open>A handler may write back a connection with the same identity; its pipes may only appear.\<close>

definition may_put :: "conn_t \<Rightarrow> conn_t \<Rightarrow> bool" where
  "may_put k k' \<longleftrightarrow> same_conn k k'
     \<or> conn_fd k' = conn_fd k \<and> conn_idx k' = conn_idx k \<and> cgi_closed (conn_cgi k)"

lemma may_put_same [simp]: "same_conn k k' \<Longrightarrow> may_put k k'"
  by (simp add: may_put_def)

section \<open>The contract\<close>

locale conn_base =
  fixes I :: "ptr \<Rightarrow> 'a cstate_scheme \<Rightarrow> bool"
    and err_cb :: "ptr \<Rightarrow> int \<Rightarrow> 'a cstate_scheme \<Rightarrow> (int \<times> 'a cstate_scheme) option"
  assumes get: "I c s \<Longrightarrow> \<exists>k. get_conn c s = Some k \<and> conn_ok k"
    and put: "I c s \<Longrightarrow> get_conn c s = Some k \<Longrightarrow> may_put k k' \<Longrightarrow> conn_ok k' \<Longrightarrow> I c (put_conn c k' s)"
    and trace: "I c s \<Longrightarrow> I c (s\<lparr>st_trace := t\<rparr>)"
    and err: "I c s \<Longrightarrow> get_conn c s = Some k \<Longrightarrow> may_put k k' \<Longrightarrow> conn_ok (abort_conn k')
      \<Longrightarrow> post (err_cb c st (put_conn c k' s)) (\<lambda>(rc, s'). rc = 1 \<and> I c s')"
begin

text \<open>The forms the handlers need: rewriting after calls that only extended the history.\<close>

lemma keep:
  assumes "I c s" "get_conn c s = Some k" "may_put k k'" "conn_ok k'"
  shows "I c (put_conn c k' (s\<lparr>st_trace := t\<rparr>))"
  by (rule put [OF trace [OF assms(1)]]) (use assms in simp_all)

lemma err_keep:
  assumes "I c s" "get_conn c s = Some k" "may_put k k'" "conn_ok (abort_conn k')"
  shows "post (err_cb c st (put_conn c k' (s\<lparr>st_trace := t\<rparr>))) (\<lambda>(rc, s'). rc = 1 \<and> I c s')"
  by (rule err [OF trace [OF assms(1)]]) (use assms in simp_all)

lemma err_same:
  assumes "I c s"
  shows "post (err_cb c st (s\<lparr>st_trace := t\<rparr>)) (\<lambda>(rc, s'). rc = 1 \<and> I c s')"
proof -
  obtain k where k: "get_conn c s = Some k" "conn_ok k" using get [OF assms] by blast
  have "post (err_cb c st (put_conn c k (s\<lparr>st_trace := t\<rparr>))) (\<lambda>(rc, s'). rc = 1 \<and> I c s')"
    by (rule err_keep [OF assms k(1)]) (use k abort_conn_ok conn_ok_data in simp_all)
  then show ?thesis using k(1) by (simp add: put_same)
qed

lemma err_now: "I c s \<Longrightarrow> post (err_cb c st s) (\<lambda>(rc, s'). rc = 1 \<and> I c s')"
  using err_same [of c s st "st_trace s"] by simp

text \<open>Parsing: whatever is in the buffer, the connection stays alive and well formed.\<close>

lemma parse_req:
  assumes "I c s"
  shows "post (cn_parse_req err_cb c e s) (\<lambda>(rc, s'). rc = 1 \<and> I c s')"
proof -
  obtain k where k: "get_conn c s = Some k" "conn_ok k" using get [OF assms] by blast
  show ?thesis
    unfolding cn_parse_req_def k(1) Option.bind.bind_lunit
  proof (rule post_bindI [OF parse_lines_of_spec [OF k(2)]], clarify)
    fix r :: "int option" and k'
    assume k': "same_conn k k'" "case r of Some st \<Rightarrow> conn_ok k' | None \<Rightarrow> mid_ok k'"
    show "post (case r of Some status \<Rightarrow> err_cb c status (put_conn c k' s)
        | None \<Rightarrow> body_step k' \<bind> (\<lambda>k. Some (1, put_conn c k s))) (\<lambda>(rc, s'). rc = 1 \<and> I c s')"
    proof (cases r)
      case None
      then show ?thesis
        using k' put [OF assms k(1)]
        by (auto intro!: post_bindI [OF body_step_spec] dest: same_conn_trans [OF k'(1)])
    next
      case (Some st)
      then show ?thesis
        using k' err [OF assms k(1)] abort_conn_ok [of k'] conn_ok_data [of k'] by simp
    qed
  qed
qed

end

section \<open>Handlers that only report errors\<close>

lemma buf_write_ok:
  assumes "buf_write i bs buf = Some buf'"
  shows "sz buf' = sz buf \<and> data_p buf' = data_p buf \<and> (buf_ok buf \<longrightarrow> buf_ok buf')
    \<and> (length (data buf) \<le> BUFSZ + 1 \<longrightarrow> length (data buf') \<le> BUFSZ + 1)
    \<and> i + length bs \<le> length (data buf') \<and> length (data buf) \<le> length (data buf')"
  using assms by (auto simp: buf_write_def bind_eq_Some_conv mem_put_Some buf_ok_def)

lemma phases_resp_abort:
  "phases_ok k \<Longrightarrow> resp_phase (conn_resp k) = RESP_ABORT \<Longrightarrow> req_phase (conn_req k) = REQ_ABORT"
  by (cases "req_phase (conn_req k)"; cases "req_type (conn_req k)")
    (auto simp: phases_ok_def phases_fit_def)

context conn_base
begin

text \<open>The static header: the response is built once, for a complete static request.\<close>

lemma prepare_static_header:
  assumes "I c s" "os_ok os" "conf_ok conf"
    and k: "get_conn c s = Some k" "req_type (conn_req k) = REQ_STATIC"
      "req_phase (conn_req k) = REQ_DONE" "resp_phase (conn_resp k) = RESP_READY"
  shows "post (cn_prepare_static_header os conf err_cb c s) (\<lambda>(rc, s'). rc = 1 \<and> I c s')"
proof -
  have ok: "conn_ok k" using get [OF assms(1)] k(1) by simp
  then have d: "req_ok (conn_req k)" "resp_ok (conn_resp k)" "length (data (conn_buf k)) \<le> BUFSZ + 1"
    "cgi_phase (conn_cgi k) = CGI_DISABLED" "cgi_ok (conn_cgi k)"
    using k by (auto simp: conn_ok_def data_ok_def phases_ok_def phases_fit_def)
  show ?thesis
    unfolding cn_prepare_static_header_def k(1) Option.bind.bind_lunit
  proof (rule post_bindI [OF safe_post [OF resp_build_spec [OF assms(2,3) d(1,2) k(4)]]], clarify)
    fix b resp' tr'
    assume r: "resp_phase resp' = RESP_READY" "resp_alive resp' = req_alive (conn_req k)"
      "b \<longrightarrow> resp_ok (resp'\<lparr>resp_phase := RESP_HEADER\<rparr>) \<and> resp_status resp' = resp_status (conn_resp k)"
      "resp_ok (resp'\<lparr>resp_phase := RESP_ABORT\<rparr>)"
    let ?h = "resp'\<lparr>resp_phase := RESP_HEADER\<rparr>" and ?buf = "buf_reset (conn_buf k)"
    have fail: "post (err_cb c st (put_conn c (k\<lparr>conn_resp := resp'\<rparr>) (s\<lparr>st_trace := tr'\<rparr>)))
        (\<lambda>(rc, s'). rc = 1 \<and> I c s')" for st
      by (rule err_keep [OF assms(1) k(1)])
        (use ok r(4) in \<open>simp_all add: abort_conn_def conn_ok_def phases_ok_def data_ok_def\<close>)
    have hdr: "post (resp_hdr os ?h (data (conn_buf k)) tr') (\<lambda>(n, m). 0 \<le> n \<and> n \<le> 310 \<and> nat n \<le> length m
        \<and> length m \<le> BUFSZ + 1)" if b
      by (rule post_mono [OF safe_post [OF resp_hdr_spec [OF assms(2)]]])
        (use r(3) that d(3) in \<open>auto simp: resp_ok_def\<close>)
    have fin: "I c (put_conn c (k\<lparr>conn_resp := ?h, conn_buf := ?buf\<lparr>data := m, sz := n\<rparr>\<rparr>)
          (s\<lparr>st_trace := tr'\<rparr>))"
      if b "0 \<le> n" "n \<le> 310" "nat n \<le> length m" "length m \<le> BUFSZ + 1" for n m
      by (rule keep [OF assms(1) k(1)])
        (use that r(3) d k ok in \<open>simp_all add: conn_ok_def phases_ok_def phases_fit_def data_ok_def
            buf_ok_def BUFSZ_def\<close>)
    show "post (let s = s\<lparr>st_trace := tr'\<rparr>; k = k\<lparr>conn_resp := resp'\<rparr>
        in if \<not> b then err_cb c (resp_status resp') (put_conn c k s)
           else let resp = resp'\<lparr>resp_phase := RESP_HEADER\<rparr>; buf = buf_reset (conn_buf k)
             in resp_hdr os resp (data buf) (st_trace s) \<bind>
               (\<lambda>(n, m). Some (1, put_conn c (k\<lparr>conn_resp := resp, conn_buf := buf\<lparr>data := m, sz := n\<rparr>\<rparr>) s)))
      (\<lambda>(rc, s'). rc = 1 \<and> I c s')"
    proof (cases b)
      case False
      then show ?thesis using fail by (simp add: Let_def)
    next
      case True
      then show ?thesis using fin
        by (auto simp: Let_def intro!: post_bindI [OF hdr])
    qed
  qed
qed

text \<open>Streaming to and from the CGI program.\<close>

lemma stream_to_cgi:
  assumes "I c s"
  shows "post (cn_stream_to_cgi os err_cb c s) (\<lambda>(rc, s'). rc = 1 \<and> I c s')"
proof -
  obtain k where k: "get_conn c s = Some k" "conn_ok k" using get [OF assms] by blast
  have ok: "conn_ok (k\<lparr>conn_buf := buf_reset (conn_buf k)\<rparr>)"
    using k(2) by (auto simp: conn_ok_def phases_ok_def data_ok_def)
  show ?thesis
    unfolding cn_stream_to_cgi_def k(1) Option.bind.bind_lunit
    using err_same [OF assms] keep [OF assms k(1) _ ok]
    by (intro post_bind) (auto simp: Let_def split: prod.splits)
qed

lemma stream_from_cgi:
  assumes "I c s" "os_ok os" and k: "get_conn c s = Some k" "cgi_phase (conn_cgi k) = CGI_CGI_TO_SRV"
  shows "post (cn_stream_from_cgi os err_cb c s) (\<lambda>(rc, s'). rc = 1 \<and> I c s')"
proof -
  have ok: "conn_ok k" using get [OF assms(1)] k(1) by simp
  then have d: "data_ok k" by (rule conn_ok_data)
  have fits: "phases_fit (req_phase (conn_req k)) (req_type (conn_req k)) g (resp_phase (conn_resp k))"
    if "g = CGI_CGI_TO_SRV \<or> g = CGI_DONE" for g
    using ok k(2) that by (auto simp: conn_ok_def phases_ok_def phases_fit_def)
  let ?g = "\<lambda>bs. (conn_cgi k)\<lparr>cgi_buf_phase := BUF_SEND,
      cgi_phase := (if bs = [] then CGI_DONE else cgi_phase (conn_cgi k))\<rparr>"
  have good: "conn_ok (k\<lparr>conn_buf := buf\<lparr>sz := int (length bs)\<rparr>, conn_cgi := ?g bs\<rparr>)"
    if r: "os_read os t (srv_in (conn_cgi k)) BUFSZ = Some bs" and w: "buf_write 0 bs (conn_buf k) = Some buf"
    for t and bs :: "char list" and buf
  proof -
    have l: "length bs \<le> BUFSZ" by (rule os_okD(2) [OF assms(2) r])
    note b = buf_write_ok [OF w]
    have "buf_ok (buf\<lparr>sz := int (length bs)\<rparr>) \<and> data_p buf = 0" if "req_phase (conn_req k) \<noteq> REQ_ABORT"
      using d k(2) that l b by (simp add: data_ok_def buf_ok_def)
    then have "data_ok (k\<lparr>conn_buf := buf\<lparr>sz := int (length bs)\<rparr>, conn_cgi := ?g bs\<rparr>)"
      using d k(2) b
      by (cases "req_phase (conn_req k) = REQ_ABORT"; cases "bs = []") (simp_all add: data_ok_def cgi_ok_def)
    moreover have "phases_fit (req_phase (conn_req k)) (req_type (conn_req k)) (cgi_phase (?g bs))
        (resp_phase (conn_resp k))"
      by (rule fits) (simp add: k(2))
    ultimately show ?thesis by (simp add: conn_ok_def phases_ok_def)
  qed
  have bad: "conn_ok (abort_conn (k\<lparr>conn_buf := (conn_buf k)\<lparr>sz := - 1\<rparr>,
      conn_cgi := (conn_cgi k)\<lparr>cgi_phase := CGI_ABORT\<rparr>\<rparr>))"
    using d by (simp add: abort_conn_def conn_ok_def phases_ok_def data_ok_def cgi_ok_def resp_ok_def)
  have same: "same_conn k (k\<lparr>conn_buf := b, conn_cgi := (conn_cgi k)\<lparr>cgi_phase := p\<rparr>\<rparr>)"
    "same_conn k (k\<lparr>conn_buf := b, conn_cgi := (conn_cgi k)\<lparr>cgi_buf_phase := bp, cgi_phase := p\<rparr>\<rparr>)"
    for b p bp by (simp_all add: same_conn_def)
  show ?thesis
    unfolding cn_stream_from_cgi_def k(1) Option.bind.bind_lunit Let_def log_ev_trace
    apply (split option.split, intro conjI allI impI post_bind)
     apply (rule err_keep [OF assms(1) k(1) may_put_same [OF same(1)] bad])
    apply (simp only: post_simps prod.case, intro conjI refl)
    apply (rule keep [OF assms(1) k(1) may_put_same [OF same(2)] good]; assumption)
    done
qed

end

section \<open>Handlers that may end the connection\<close>

text \<open>What \<open>recv\<close> delivered fits the buffer.\<close>

lemma recv_conn_ok:
  assumes k: "conn_ok k" and os: "os_ok os" and n: "req_phase (conn_req k) \<noteq> REQ_ABORT"
    and w: "buf_write (nat (buf_end (conn_buf k))) bs (conn_buf k) = Some buf"
    and r: "os_recv os t fd (nat (int BUFSZ - sz (conn_buf k))) = Some bs"
  shows "conn_ok (k\<lparr>conn_buf := buf\<lparr>sz := sz buf + int (length bs)\<rparr>\<rparr>)"
    "length (data (buf\<lparr>sz := sz buf + int (length bs)\<rparr>)) \<le> BUFSZ + 1"
proof -
  have d: "data_ok k" by (rule conn_ok_data [OF k])
  then have b: "buf_ok (conn_buf k)" using n by (simp add: data_ok_def)
  have "length bs \<le> nat (int BUFSZ - sz (conn_buf k))" by (rule os_okD(1) [OF os r])
  then have "buf_ok (buf\<lparr>sz := sz buf + int (length bs)\<rparr>)"
    using b buf_write_ok [OF w] by (auto simp: buf_ok_def buf_end_def nat_add_distrib)
  then show "conn_ok (k\<lparr>conn_buf := buf\<lparr>sz := sz buf + int (length bs)\<rparr>\<rparr>)"
    "length (data (buf\<lparr>sz := sz buf + int (length bs)\<rparr>)) \<le> BUFSZ + 1"
    using k d buf_write_ok [OF w] by (auto simp: conn_ok_def phases_ok_def data_ok_def)
qed

definition alive_or_gone ::
  "(ptr \<Rightarrow> 's \<Rightarrow> bool) \<Rightarrow> (ptr \<Rightarrow> 's \<Rightarrow> bool) \<Rightarrow> ptr \<Rightarrow> int \<times> 's \<Rightarrow> bool" where
  "alive_or_gone I J c = (\<lambda>(rc, s'). rc = 1 \<and> I c s' \<or> rc = - 1 \<and> J c s')"

lemma alive_or_gone_simps [simp]:
  "alive_or_gone I J c (1, s) = I c s" "alive_or_gone I J c (- 1, s) = J c s"
  by (simp_all add: alive_or_gone_def)

locale conn_callbacks = conn_base I err_cb
  for I :: "ptr \<Rightarrow> 'a cstate_scheme \<Rightarrow> bool" and err_cb +
  fixes J :: "ptr \<Rightarrow> 'a cstate_scheme \<Rightarrow> bool"
    and succ_cb fat_cb :: "ptr \<Rightarrow> 'a cstate_scheme \<Rightarrow> (int \<times> 'a cstate_scheme) option"
  assumes succ: "I c s \<Longrightarrow> post (succ_cb c s) (alive_or_gone I J c)"
    and fat: "I c s \<Longrightarrow> post (fat_cb c s) (\<lambda>(rc, s'). rc = - 1 \<and> J c s')"
begin

lemma fat_gone: "I c s \<Longrightarrow> post (fat_cb c s) (alive_or_gone I J c)"
  by (rule post_mono [OF fat]) auto

lemma recv_ignore_ok:
  assumes "I c s"
  shows "post (recv_ignore os fat_cb c s) (alive_or_gone I J c)"
proof -
  obtain k where k: "get_conn c s = Some k" "conn_ok k" using get [OF assms] by blast
  have ok: "conn_ok (k\<lparr>conn_buf := buf\<rparr>)" if "buf_write 0 bs (conn_buf k) = Some buf" for bs buf
    using k(2) buf_write_ok [OF that] by (auto simp: conn_ok_def phases_ok_def data_ok_def)
  show ?thesis
    unfolding recv_ignore_def k(1) Option.bind.bind_lunit smart_recv_def log_ev_trace Let_def prod.case
    using fat_gone [OF trace [OF assms]] keep [OF assms k(1) _ ok]
    by (auto split: option.splits intro!: post_bind)
qed

lemma recv:
  assumes "I c s" "os_ok os"
  shows "post (cn_recv os err_cb fat_cb c s) (alive_or_gone I J c)"
proof -
  obtain k where k: "get_conn c s = Some k" "conn_ok k" using get [OF assms(1)] by blast
  have d: "data_ok k" by (rule conn_ok_data [OF k(2)])
  have ssl: "conn_ok (k\<lparr>conn_ssl := b\<rparr>)" "conn_ok (k\<lparr>conn_ssl_accepted := b\<rparr>)" for b
    using k(2) by (simp_all add: conn_ok_def phases_ok_def data_ok_def)
  let ?dead = "\<lambda>b. k\<lparr>conn_buf := b, conn_req := (conn_req k)\<lparr>req_phase := REQ_ABORT\<rparr>\<rparr>"
  have dead: "conn_ok (?dead b)" if "length (data b) \<le> BUFSZ + 1" for b
    using d that by (simp add: conn_ok_def phases_ok_def data_ok_def)
  have dead0: "conn_ok (k\<lparr>conn_req := (conn_req k)\<lparr>req_phase := REQ_ABORT\<rparr>\<rparr>)"
    using d by (simp add: conn_ok_def phases_ok_def data_ok_def)
  have parse: "post (cn_parse_req err_cb c e (put_conn c k' (s\<lparr>st_trace := t\<rparr>)) \<bind> (\<lambda>(_, s). Some (1, s)))
      (alive_or_gone I J c)" if "same_conn k k'" "conn_ok k'" for e k' t
    by (rule post_bindI [OF parse_req [OF keep [OF assms(1) k(1) may_put_same [OF that(1)] that(2)]]]) auto
  have full: "post (err_cb c 400 s \<bind> (\<lambda>(_, s). recv_ignore os fat_cb c s)) (alive_or_gone I J c)"
    by (rule post_bindI [OF err_now [OF assms(1)]]) (auto intro: recv_ignore_ok)
  show ?thesis
    unfolding cn_recv_def k(1) Option.bind.bind_lunit smart_recv_def log_ev_trace put_trace Let_def prod.case
    using full recv_ignore_ok [OF assms(1)] parse trace [OF assms(1)] recv_conn_ok [OF k(2) assms(2)] dead dead0 ssl
      fat_gone [OF keep [OF assms(1) k(1)]] keep [OF assms(1) k(1)]
    by (intro post_if) (auto split: option.splits intro!: post_bind simp: put_trace)
qed

end

section \<open>Serving\<close>

text \<open>A partial send moves the cursor within the data.\<close>

lemma send_cursor:
  assumes "os_ok os" "buf_next buf n = Some bs" "n \<le> buf_rsize buf"
    and "0 < os_send os t fd bs"
  shows "int (data_p buf + nat (os_send os t fd bs)) \<le> sz buf \<and> os_send os t fd bs \<le> n"
proof -
  have "length bs = nat n" using assms(2) by (auto simp: buf_next_def buf_slice_def split: if_splits)
  then show ?thesis using os_okD(3) [OF assms(1), of t fd bs] assms(3,4)
    by (auto simp: buf_rsize_def split: if_splits)
qed

text \<open>A connection stays well formed when a part of its header or of its file was sent.\<close>

lemma header_sent_ok:
  assumes ok: "conn_ok k" and os: "os_ok os" and p: "resp_phase (conn_resp k) = RESP_HEADER"
    and sl: "buf_next (conn_buf k) (buf_rsize (conn_buf k)) = Some bs"
    and rc: "rc = os_send os t (conn_fd k) bs" "0 < rc"
  shows "conn_ok (k\<lparr>conn_buf := (conn_buf k)\<lparr>data_p := data_p (conn_buf k) + nat rc\<rparr>,
      conn_resp := (if rc = buf_rsize (conn_buf k) then (conn_resp k)\<lparr>resp_phase := RESP_BODY\<rparr>
                    else conn_resp k)\<rparr>)" (is "conn_ok ?k")
proof -
  let ?buf = "conn_buf k" and ?resp = "conn_resp k"
  have d: "data_ok k" by (rule conn_ok_data [OF ok])
  have r: "resp_ok (if rc = buf_rsize ?buf then ?resp\<lparr>resp_phase := RESP_BODY\<rparr> else ?resp)"
    using d p by (simp add: data_ok_def resp_ok_def)
  have c: "int (data_p ?buf + nat rc) \<le> sz ?buf" using send_cursor [OF os sl] rc by simp
  have "req_phase (conn_req k) = REQ_ABORT \<or> cgi_phase (conn_cgi k) \<noteq> CGI_CGI_TO_SRV"
    using ok p by (cases "req_phase (conn_req k)"; cases "req_type (conn_req k)")
      (auto simp: conn_ok_def phases_ok_def phases_fit_def)
  moreover have "buf_ok (?buf\<lparr>data_p := data_p ?buf + nat rc\<rparr>)" if "buf_ok ?buf"
    using that c rc(2) by (simp add: buf_ok_def)
  ultimately have "data_ok ?k"
    using d r by (cases "req_phase (conn_req k) = REQ_ABORT") (simp_all add: data_ok_def)
  moreover have "phases_fit (req_phase (conn_req k)) (req_type (conn_req k)) (cgi_phase (conn_cgi k)) RESP_BODY"
    using ok p by (auto simp: conn_ok_def phases_ok_def phases_fit_def)
  ultimately show ?thesis using ok by (simp add: conn_ok_def phases_ok_def)
qed

lemma body_sent_ok:
  assumes ok: "conn_ok k" and os: "os_ok os" and p: "resp_phase (conn_resp k) = RESP_BODY"
    and mm: "resp_mmbuf (conn_resp k) = Some mm"
    and sl: "buf_next mm (min (int BUFSZ) (buf_rsize mm)) = Some bs"
    and rc: "rc = os_send os t (conn_fd k) bs" "0 < rc"
  shows "conn_ok (k\<lparr>conn_resp := (conn_resp k)\<lparr>resp_mmbuf := Some (mm\<lparr>data_p := data_p mm + nat rc\<rparr>)\<rparr>\<rparr>)"
proof -
  have d: "data_ok k" by (rule conn_ok_data [OF ok])
  have "mm_ok mm" using d p mm by (auto simp: data_ok_def resp_ok_def)
  then have "mm_ok (mm\<lparr>data_p := data_p mm + nat rc\<rparr>)"
    using send_cursor [OF os sl] rc by (auto simp: mm_ok_def)
  then show ?thesis using ok d p by (simp add: conn_ok_def phases_ok_def data_ok_def resp_ok_def)
qed

lemma error_page_spec:
  assumes "os_ok os" "conn_ok k" "resp_phase (conn_resp k) = RESP_ABORT"
  shows "safe (error_page os k tr) (\<lambda>k'. same_conn k k' \<and> conn_ok k' \<and> buf_ok (conn_buf k')
    \<and> data_p (conn_buf k') = 0 \<and> req_phase (conn_req k') = REQ_ABORT
    \<and> unread (conn_buf k') =
        concat (hdr_lines os (conn_resp k') tr) @ resp_msg (resp_status (conn_resp k)))"
proof -
  have rq: "req_phase (conn_req k) = REQ_ABORT"
    by (rule phases_resp_abort) (use assms in \<open>auto simp: conn_ok_def\<close>)
  define msg where "msg = resp_msg (resp_status (conn_resp k))"
  define resp where "resp = (conn_resp k)\<lparr>resp_alive := req_alive (conn_req k), resp_clen := int (length msg)\<rparr>"
  have msg: "length msg \<le> 256" unfolding msg_def by (rule length_page_titles)
  have d: "data_ok k" by (rule conn_ok_data [OF assms(2)])
  have resp: "resp_ok resp" using d msg assms(3) by (simp add: data_ok_def resp_ok_def resp_def)
  let ?h = "concat (hdr_lines os resp tr)"
  have "safe (resp_hdr os resp (data (conn_buf k)) tr) (\<lambda>(n, m').
      n = int (length ?h) \<and> n \<le> 310 \<and> take (nat n) m' = ?h \<and> nat n \<le> length m' \<and> length m' \<le> BUFSZ + 1)"
    by (rule resp_hdr_spec [OF assms(1)]) (use resp d in \<open>auto simp: resp_ok_def data_ok_def\<close>)
  then obtain m' where h: "resp_hdr os resp (data (conn_buf k)) tr = Some (int (length ?h), m')"
      "length ?h \<le> 310" "take (length ?h) m' = ?h" "length ?h \<le> length m'" "length m' \<le> BUFSZ + 1"
    by (auto simp: safe_def)
  define buf where "buf = (buf_reset (conn_buf k))\<lparr>data := m', sz := int (length ?h)\<rparr>"
  let ?d = "take (length ?h) m' @ msg @ drop (length ?h + length msg) m'"
  have w: "buf_write (nat (buf_end buf)) msg buf = Some (buf\<lparr>data := ?d\<rparr>)"
    using h msg by (simp add: buf_write_def mem_put_def buf_def buf_end_def BUFSZ_def)
  let ?buf = "buf\<lparr>data := ?d, sz := int (length ?h) + int (length msg)\<rparr>"
  have b: "buf_ok ?buf" "data_p ?buf = 0" "length (data ?buf) \<le> BUFSZ + 1"
      "unread ?buf = ?h @ msg"
    using h msg by (auto simp: buf_ok_def buf_def unread_def BUFSZ_def nat_add_distrib)
  let ?k = "k\<lparr>conn_buf := ?buf, conn_resp := resp\<rparr>"
  have e: "error_page os k tr = Some ?k"
    using h(1) w by (simp add: error_page_def Let_def buf_def flip: msg_def resp_def)
  show ?thesis
    unfolding e safe_simps
    using b d resp rq assms(2) by (simp add: conn_ok_def phases_ok_def data_ok_def msg_def)
qed

context conn_callbacks
begin

lemma send_error_page:
  assumes "I c s" "os_ok os" and k: "get_conn c s = Some k" "resp_phase (conn_resp k) = RESP_ABORT"
  shows "post (cn_send_error_page os succ_cb fat_cb c s) (alive_or_gone I J c)"
proof -
  have ok: "conn_ok k" using get [OF assms(1)] k(1) by simp
  show ?thesis
    unfolding cn_send_error_page_def k(1) Option.bind.bind_lunit
  proof (rule post_bindI [OF safe_post [OF error_page_spec [OF assms(2) ok k(2)]]], elim conjE)
    fix k'
    assume k': "same_conn k k'" "conn_ok k'" "req_phase (conn_req k') = REQ_ABORT"
    have up: "conn_ok (k'\<lparr>conn_buf := (conn_buf k')\<lparr>data_p := n\<rparr>\<rparr>)" for n
      using k'(2,3) by (simp add: conn_ok_def phases_ok_def data_ok_def)
    show "post (let buf = conn_buf k'
        in buf_next buf (buf_rsize buf) \<bind>
          (\<lambda>bs. let (rc, s) = smart_send os (conn_fd k') bs s
            in if rc \<le> 0 then fat_cb c (put_conn c k' s)
               else let buf = buf\<lparr>data_p := data_p buf + nat rc\<rparr>;
                      s = put_conn c (k'\<lparr>conn_buf := buf\<rparr>) s
                 in if buf_end buf \<le> int (data_p buf) then succ_cb c s else Some (1, s)))
      (alive_or_gone I J c)"
      unfolding smart_send_def log_ev_trace Let_def prod.case
      by (intro post_bind post_if)
        (auto intro!: fat_gone succ keep [OF assms(1) k(1)] simp: k' up)
  qed
qed

lemma serve_header:
  assumes "I c s" "os_ok os" and g: "get_conn c s = Some k" "resp_phase (conn_resp k) = RESP_HEADER"
  shows "post (cn_serve_header os succ_cb fat_cb c k s) (alive_or_gone I J c)"
proof -
  have ok: "conn_ok k" using get [OF assms(1)] g(1) by simp
  have sent: "I c (put_conn c (k\<lparr>conn_buf := (conn_buf k)\<lparr>data_p := data_p (conn_buf k) + nat rc\<rparr>,
      conn_resp := (if rc = buf_rsize (conn_buf k) then (conn_resp k)\<lparr>resp_phase := RESP_BODY\<rparr>
                    else conn_resp k)\<rparr>) (s\<lparr>st_trace := t'\<rparr>))"
    if "buf_next (conn_buf k) (buf_rsize (conn_buf k)) = Some bs"
      and "rc = os_send os t (conn_fd k) bs" "0 < rc" for rc t t' bs
    by (rule keep [OF assms(1) g(1) _ header_sent_ok [OF ok assms(2) g(2) that]]) simp
  show ?thesis
    unfolding cn_serve_header_def smart_send_def log_ev_trace Let_def prod.case
    apply (rule post_bind, rule post_if)
     apply (rule fat_gone [OF trace [OF assms(1)]])
    apply (rule post_bind, rule post_if)
     apply (rule succ, rule sent, assumption, rule refl, simp)
    apply (simp only: post_simps alive_or_gone_simps, rule sent, assumption, rule refl, simp)
    done
qed

lemma serve_body:
  assumes "I c s" "os_ok os" and g: "get_conn c s = Some k" "resp_phase (conn_resp k) = RESP_BODY"
  shows "post (cn_serve_body os succ_cb fat_cb c k s) (alive_or_gone I J c)"
proof -
  have ok: "conn_ok k" using get [OF assms(1)] g(1) by simp
  have sent: "I c (put_conn c (k\<lparr>conn_resp := (conn_resp k)\<lparr>resp_mmbuf :=
      Some (mm\<lparr>data_p := data_p mm + nat rc\<rparr>)\<rparr>\<rparr>) (s\<lparr>st_trace := t'\<rparr>))"
    if "resp_mmbuf (conn_resp k) = Some mm"
      and "buf_next mm (min (int BUFSZ) (buf_rsize mm)) = Some bs"
      and "rc = os_send os t (conn_fd k) bs" "0 < rc" for rc t t' bs mm
    by (rule keep [OF assms(1) g(1) _ body_sent_ok [OF ok assms(2) g(2) that]]) simp
  show ?thesis
    unfolding cn_serve_body_def smart_send_def log_ev_trace Let_def prod.case
    apply (rule post_bind, rule post_bind, rule post_if)
     apply (rule fat_gone [OF trace [OF assms(1)]])
    apply (rule post_if)
     apply (rule succ, rule sent, assumption, assumption, rule refl, simp)
    apply (simp only: post_simps alive_or_gone_simps, rule sent, assumption, assumption, rule refl, simp)
    done
qed

lemma serve_static:
  assumes "I c s" "os_ok os"
  shows "post (cn_serve_static os succ_cb fat_cb c s) (alive_or_gone I J c)"
proof -
  obtain k where k: "get_conn c s = Some k" using get [OF assms(1)] by blast
  show ?thesis
    using send_error_page [OF assms k] serve_header [OF assms k] serve_body [OF assms k] assms(1)
    by (simp add: cn_serve_static_def k split: resp_phase_t.splits)
qed

lemma serve_dynamic:
  assumes "I c s"
  shows "post (cn_serve_dynamic os succ_cb fat_cb c s) (alive_or_gone I J c)"
proof -
  obtain k where k: "get_conn c s = Some k" "conn_ok k" using get [OF assms] by blast
  have ok: "conn_ok (k\<lparr>conn_cgi := (conn_cgi k)\<lparr>cgi_buf_phase := bp\<rparr>\<rparr>)" for bp
    using k(2) by (simp add: conn_ok_def phases_ok_def data_ok_def cgi_ok_def cgi_closed_def)
  show ?thesis
    unfolding cn_serve_dynamic_def k(1) Option.bind.bind_lunit smart_send_def log_ev_trace Let_def prod.case
    using succ [OF assms] fat_gone [OF trace [OF assms]] keep [OF assms k(1) _ ok] keep [OF assms k(1) _ k(2)]
    by (intro post_if post_bind) auto
qed

end

section \<open>Starting a CGI program\<close>

lemma cgi_init_phase:
  "cgi_init os g tr = (True, g', tr') \<Longrightarrow> cgi_phase g' = CGI_SRV_TO_CGI"
  by (auto simp: cgi_init_def Let_def split: option.splits prod.splits if_splits)

locale cgi_callbacks = conn_base I err_cb
  for I :: "ptr \<Rightarrow> 'a cstate_scheme \<Rightarrow> bool" and err_cb +
  fixes inited_cb :: "ptr \<Rightarrow> 'a cstate_scheme \<Rightarrow> (int \<times> 'a cstate_scheme) option"
  assumes inited: "I c s \<Longrightarrow> post (inited_cb c s) (\<lambda>(rc, s'). rc = 1 \<and> I c s')"
begin

lemma init_cgi:
  assumes "I c s" and g: "get_conn c s = Some k" "cgi_phase (conn_cgi k) = CGI_READY"
  shows "post (cn_init_cgi os inited_cb err_cb c s) (\<lambda>(rc, s'). rc = 1 \<and> I c s')"
proof -
  have ok: "conn_ok k" using get [OF assms(1)] g(1) by simp
  then have closed: "cgi_closed (conn_cgi k)" using g(2) by (auto simp: conn_ok_def data_ok_def cgi_ok_def)
  have good: "conn_ok (k\<lparr>conn_cgi := g'\<lparr>cgi_phase := CGI_SRV_TO_CGI\<rparr>\<rparr>)" for g'
    using ok g(2) by (auto simp: conn_ok_def phases_ok_def phases_fit_def data_ok_def cgi_ok_def)
  have bad: "conn_ok (abort_conn (k\<lparr>conn_cgi := g'\<lparr>cgi_phase := CGI_ABORT\<rparr>,
      conn_resp := (conn_resp k)\<lparr>resp_phase := RESP_ABORT\<rparr>\<rparr>))" for g'
    using ok by (auto simp: abort_conn_def conn_ok_def phases_ok_def data_ok_def cgi_ok_def resp_ok_def)
  have put: "may_put k (k\<lparr>conn_cgi := g'\<rparr>)" "may_put k (k\<lparr>conn_cgi := g', conn_resp := p\<rparr>)" for g' p
    using closed by (simp_all add: may_put_def)
  obtain b g' tr' where r: "cgi_init os (conn_cgi k) (st_trace s) = (b, g', tr')"
    by (metis prod_cases3)
  show ?thesis
    unfolding cn_init_cgi_def g(1) Option.bind.bind_lunit r Let_def prod.case
    by (intro post_if inited keep [OF assms(1) g(1) put(1) good] err_keep [OF assms(1) g(1) put(2) bad])
qed

end

end
