(* ===== verification/Pool_Inv.thy ===== *)
theory Pool_Inv
  imports Lisod Conn_Handlers
begin

text \<open>
  The invariant of the server and the proof that the operations of \<open>pool.c\<close> keep it.

  \<open>pool_ok\<close>: the first \<open>n_conns\<close> slots of the array point at distinct live connections that know
  their slot, every live connection has a slot, every connection is well formed, and the two
  descriptor sets hold no descriptor beyond the listeners and those of live connections.
\<close>

section \<open>The invariant\<close>

definition watched :: "conn_t \<Rightarrow> int set" where
  "watched k = {conn_fd k, srv_in (conn_cgi k), srv_err (conn_cgi k)} - {fd. fd < 0}"

definition watch_all :: "(ptr \<rightharpoonup> conn_t) \<Rightarrow> int set" where
  "watch_all h = {fd. \<exists>c k. h c = Some k \<and> fd \<in> watched k}"

definition client_fds :: "(ptr \<rightharpoonup> conn_t) \<Rightarrow> int set" where
  "client_fds h = {fd. \<exists>c k. h c = Some k \<and> fd = conn_fd k}"

definition slots_ok :: "server \<Rightarrow> bool" where
  "slots_ok s \<longleftrightarrow> n_conns s \<le> MAX_CONNS \<and> n_conns s \<le> length (conns s)
     \<and> length (conns s) \<le> MAX_CONNS + 1
     \<and> (\<forall>i < n_conns s. \<exists>c k. conns s ! i = Some c \<and> st_heap s c = Some k
          \<and> conn_idx k = int i \<and> conn_ok k \<and> fd_ok (conn_fd k))
     \<and> (\<forall>c k. st_heap s c = Some k \<longrightarrow> (\<exists>i < n_conns s. conns s ! i = Some c))
     \<and> (\<forall>c \<ge> sv_next s. st_heap s c = None)"

definition sets_ok :: "int \<Rightarrow> int \<Rightarrow> server \<Rightarrow> bool" where
  "sets_ok sock ssl s \<longleftrightarrow> fd_ok sock \<and> fd_ok ssl \<and> min_max_fd s = max sock ssl
     \<and> read_set s \<subseteq> {sock, ssl} \<union> watch_all (st_heap s)
     \<and> write_set s \<subseteq> client_fds (st_heap s)"

definition pool_ok :: "int \<Rightarrow> int \<Rightarrow> server \<Rightarrow> bool" where
  "pool_ok sock ssl s \<longleftrightarrow> slots_ok s \<and> sets_ok sock ssl s"

text \<open>The slot of a live connection is its index.\<close>

lemma slot_of:
  assumes "slots_ok s" "st_heap s c = Some k"
  shows "\<exists>i < n_conns s. conns s ! i = Some c \<and> conn_idx k = int i \<and> conn_ok k \<and> fd_ok (conn_fd k)"
  using assms unfolding slots_ok_def by (metis option.inject)

lemma slot_inj:
  assumes "slots_ok s" "i < n_conns s" "j < n_conns s" "conns s ! i = conns s ! j"
  shows "i = j"
  using assms unfolding slots_ok_def by (metis nat_int option.inject)

text \<open>
  \<open>live s0 c s\<close>: compared with \<open>s0\<close>, only the connection \<open>c\<close> and the sets may have changed.
  \<open>gone s0 c s\<close>: \<open>c\<close> was dropped; every other connection is as it was but for its index, and the
  connections in the slots before \<open>c\<close> kept theirs.
\<close>

definition live :: "int \<Rightarrow> int \<Rightarrow> server \<Rightarrow> ptr \<Rightarrow> server \<Rightarrow> bool" where
  "live sock ssl s0 c s \<longleftrightarrow> pool_ok sock ssl s \<and> st_heap s c \<noteq> None
     \<and> conns s = conns s0 \<and> n_conns s = n_conns s0
     \<and> (\<forall>c'. c' \<noteq> c \<longrightarrow> st_heap s c' = st_heap s0 c')"

definition gone :: "int \<Rightarrow> int \<Rightarrow> server \<Rightarrow> ptr \<Rightarrow> server \<Rightarrow> bool" where
  "gone sock ssl s0 c s \<longleftrightarrow> pool_ok sock ssl s \<and> n_conns s0 = Suc (n_conns s)
     \<and> (\<exists>i < n_conns s0. conns s0 ! i = Some c \<and> (\<forall>j < i. conns s ! j = conns s0 ! j
          \<and> (\<forall>c'. conns s0 ! j = Some c' \<longrightarrow> st_heap s c' = st_heap s0 c')))
     \<and> st_heap s c = None
     \<and> (\<forall>d. d \<noteq> c \<longrightarrow> (\<exists>j. st_heap s d = map_option (\<lambda>m. m\<lparr>conn_idx := j\<rparr>) (st_heap s0 d)))"

lemma live_refl: "pool_ok sock ssl s \<Longrightarrow> st_heap s c = Some k \<Longrightarrow> live sock ssl s c s"
  by (simp add: live_def)

lemma live_get:
  assumes "live sock ssl s0 c s"
  shows "\<exists>k. get_conn c s = Some k \<and> conn_ok k"
  using assms slot_of [of s c] by (auto simp: live_def pool_ok_def get_conn_def)

lemma live_fd_ok:
  assumes "live sock ssl s0 c s" "get_conn c s = Some k"
  shows "fd_ok (conn_fd k)"
  using assms slot_of [of s c k] by (auto simp: live_def pool_ok_def get_conn_def)

lemma watched_put:
  assumes "may_put k k'"
  shows "watched k \<subseteq> watched k'"
  using assms by (auto simp: may_put_def watched_def same_conn_def cgi_closed_def)

lemma slots_put:
  assumes s: "slots_ok s" "st_heap s c = Some k"
    and k': "conn_fd k' = conn_fd k" "conn_idx k' = conn_idx k" "conn_ok k'"
  shows "slots_ok (put_conn c k' s)"
proof -
  from slot_of [OF s] k'(1) have "fd_ok (conn_fd k')" by auto
  moreover have "\<exists>j < n_conns s. conns s ! j = Some c"
    using slot_of [OF s] by blast
  moreover have "c < sv_next s" using s unfolding slots_ok_def by (metis leI option.distinct(1))
  ultimately show ?thesis
    using s k' unfolding slots_ok_def put_conn_def
    by (auto simp: fun_upd_apply) (metis option.inject)+
qed

lemma watch_all_in: "h c = Some k \<Longrightarrow> watched k \<subseteq> watch_all h"
  by (auto simp: watch_all_def)

lemma client_fds_in: "h c = Some k \<Longrightarrow> conn_fd k \<in> client_fds h"
  by (auto simp: client_fds_def)

lemma watch_all_put:
  assumes "h c = Some k" "watched k \<subseteq> watched k'"
  shows "watch_all h \<subseteq> watch_all (h(c \<mapsto> k'))"
proof
  fix fd
  assume "fd \<in> watch_all h"
  then obtain d m where d: "h d = Some m" "fd \<in> watched m" by (auto simp: watch_all_def)
  show "fd \<in> watch_all (h(c \<mapsto> k'))"
  proof (cases "d = c")
    case True
    with d assms have "fd \<in> watched k'" by auto
    then show ?thesis using watch_all_in [of "h(c \<mapsto> k')" c k'] by auto
  next
    case False
    with d watch_all_in [of "h(c \<mapsto> k')" d m] show ?thesis by auto
  qed
qed

lemma client_fds_put:
  assumes "h c = Some k" "conn_fd k' = conn_fd k"
  shows "client_fds h \<subseteq> client_fds (h(c \<mapsto> k'))"
proof
  fix fd
  assume "fd \<in> client_fds h"
  then obtain d m where d: "h d = Some m" "fd = conn_fd m" by (auto simp: client_fds_def)
  show "fd \<in> client_fds (h(c \<mapsto> k'))"
    using d assms client_fds_in [of "h(c \<mapsto> k')" c k'] client_fds_in [of "h(c \<mapsto> k')" d m]
    by (cases "d = c") auto
qed

lemma put_conn_simps [simp]:
  "st_heap (put_conn c k s) = (st_heap s)(c \<mapsto> k)"
  "st_trace (put_conn c k s) = st_trace s"
  "n_conns (put_conn c k s') = n_conns s'" "conns (put_conn c k s') = conns s'"
  "min_max_fd (put_conn c k s') = min_max_fd s'" "max_fd (put_conn c k s') = max_fd s'"
  "read_set (put_conn c k s') = read_set s'" "write_set (put_conn c k s') = write_set s'"
  "sv_next (put_conn c k s') = sv_next s'"
  "read_ready (put_conn c k s') = read_ready s'" "write_ready (put_conn c k s') = write_ready s'"
  by (simp_all add: put_conn_def)

lemma sets_put:
  assumes "sets_ok sock ssl s" "st_heap s c = Some k" "watched k \<subseteq> watched k'" "conn_fd k' = conn_fd k"
  shows "sets_ok sock ssl (put_conn c k' s)"
  using assms(1) watch_all_put [of "st_heap s" c, OF assms(2,3)] client_fds_put [of "st_heap s" c, OF assms(2,4)]
  unfolding sets_ok_def put_conn_simps by blast

lemma live_put:
  assumes "live sock ssl s0 c s" "get_conn c s = Some k" "may_put k k'" "conn_ok k'"
  shows "live sock ssl s0 c (put_conn c k' s)"
proof -
  have h: "st_heap s c = Some k" using assms(2) by (simp add: get_conn_def)
  have e: "conn_fd k' = conn_fd k" "conn_idx k' = conn_idx k"
    using assms(3) by (auto simp: may_put_def same_conn_def)
  have "pool_ok sock ssl (put_conn c k' s)"
    using slots_put [OF _ h e assms(4)] sets_put [OF _ h watched_put [OF assms(3)] e(1)] assms(1)
    by (simp add: live_def pool_ok_def)
  then show ?thesis using assms(1) by (simp add: live_def put_conn_def)
qed

text \<open>What depends on the heap, the slots and the sets only.\<close>

lemma pool_ok_trace [simp]: "pool_ok sock ssl (s\<lparr>st_trace := t\<rparr>) = pool_ok sock ssl s"
  by (simp add: pool_ok_def slots_ok_def sets_ok_def)

lemma live_trace [simp]: "live sock ssl s0 c (s\<lparr>st_trace := t\<rparr>) = live sock ssl s0 c s"
  by (simp add: live_def)

lemma live_ready [simp]:
  "live sock ssl s0 c (s\<lparr>read_ready := r\<rparr>) = live sock ssl s0 c s"
  "live sock ssl s0 c (s\<lparr>write_ready := r\<rparr>) = live sock ssl s0 c s"
  by (simp_all add: live_def pool_ok_def slots_ok_def sets_ok_def)

lemma live_read_set:
  assumes "live sock ssl s0 c s" "get_conn c s = Some k" "r \<subseteq> read_set s \<union> watched k"
  shows "live sock ssl s0 c (s\<lparr>read_set := r\<rparr>)"
proof -
  have "watched k \<subseteq> watch_all (st_heap s)"
    using assms(2) by (intro watch_all_in) (simp add: get_conn_def)
  with assms(1,3) show ?thesis by (auto simp: live_def pool_ok_def slots_ok_def sets_ok_def)
qed

lemma live_write_set:
  assumes "live sock ssl s0 c s" "get_conn c s = Some k" "w \<subseteq> insert (conn_fd k) (write_set s)"
  shows "live sock ssl s0 c (s\<lparr>write_set := w\<rparr>)"
proof -
  have "conn_fd k \<in> client_fds (st_heap s)"
    using assms(2) by (intro client_fds_in) (simp add: get_conn_def)
  with assms(1,3) show ?thesis by (auto simp: live_def pool_ok_def slots_ok_def sets_ok_def)
qed

lemma get_conn_sets [simp]:
  "get_conn c (s\<lparr>read_set := r\<rparr>) = get_conn c s"
  "get_conn c (s\<lparr>write_set := r\<rparr>) = get_conn c s"
  by (simp_all add: get_conn_def)

section \<open>Setting and clearing\<close>

text \<open>The four set operations, as postconditions: the set changes, the connection stays live.\<close>

definition live_with :: "int \<Rightarrow> int \<Rightarrow> server \<Rightarrow> ptr \<Rightarrow> conn_t \<Rightarrow> server \<Rightarrow> bool" where
  "live_with sock ssl s0 c k s \<longleftrightarrow> live sock ssl s0 c s \<and> get_conn c s = Some k"

lemma fd_watched: "fd_ok (conn_fd k) \<Longrightarrow> conn_fd k \<in> watched k"
  by (simp add: watched_def fd_ok_def)

lemma set_fd_read_live:
  assumes "live_with sock ssl s0 c k s" "fd \<in> watched k \<or> fd < 0"
  shows "post (set_fd_read fd s) (live_with sock ssl s0 c k)"
  using assms live_read_set [of sock ssl s0 c s k "insert fd (read_set s)"]
  by (auto simp: set_fd_read_def live_with_def FD_SET_def fd_ok_def split: if_splits)

lemma clr_fd_read_live:
  assumes "live_with sock ssl s0 c k s"
  shows "post (clr_fd_read fd s) (\<lambda>s'. live_with sock ssl s0 c k s' \<and> read_set s' = read_set s - {fd}
    \<and> write_set s' = write_set s)"
  using assms live_read_set [of sock ssl s0 c s k "read_set s - {fd}"]
  by (auto simp: clr_fd_read_def live_with_def FD_CLR_def split: if_splits)

lemma set_fd_write_live:
  assumes "live_with sock ssl s0 c k s"
  shows "post (set_fd_write (conn_fd k) s) (live_with sock ssl s0 c k)"
  using assms live_write_set [of sock ssl s0 c s k "insert (conn_fd k) (write_set s)"]
  by (auto simp: set_fd_write_def live_with_def FD_SET_def split: if_splits)

lemma clr_fd_write_live:
  assumes "live_with sock ssl s0 c k s"
  shows "post (clr_fd_write fd s) (\<lambda>s'. live_with sock ssl s0 c k s' \<and> write_set s' = write_set s - {fd})"
  using assms live_write_set [of sock ssl s0 c s k "write_set s - {fd}"]
  by (auto simp: clr_fd_write_def live_with_def FD_CLR_def split: if_splits)

section \<open>Resetting a connection\<close>

lemma close_pipe_neg [simp]: "fst (close_pipe fd tr) < 0"
  by (simp add: close_pipe_def)

lemma cgi_reset_closed:
  "cgi_reset g tr = (g', tr') \<Longrightarrow> cgi_closed g' \<and> cgi_phase g' = CGI_IDLE \<and> cgi_buf_phase g' = BUF_RECV"
  unfolding cgi_reset_def Let_def case_prod_beta cgi_closed_def by auto

lemma buf_ok_reset_any: "length (data buf) \<le> BUFSZ + 1 \<Longrightarrow> buf_ok (buf_reset buf)"
  by (simp add: buf_ok_def)

lemma reset_conn_ok:
  assumes "data_ok k" "cgi_closed g" "cgi_phase g = CGI_IDLE"
  shows "conn_ok (k\<lparr>conn_buf := buf_reset (conn_buf k), conn_req := req_reset (conn_req k),
    conn_resp := resp_clear (conn_resp k), conn_cgi := g\<rparr>)"
proof -
  have r: "req_phase (req_reset (conn_req k)) = REQ_START" "resp_phase (resp_clear (conn_resp k)) = RESP_READY"
    by (simp_all add: req_reset_def resp_clear_def)
  show ?thesis
    using assms r req_ok_reset [of "conn_req k"] buf_ok_reset_any [of "conn_buf k"]
    unfolding conn_ok_def phases_ok_def phases_fit_def data_ok_def by (simp add: cgi_ok_def)
qed

lemma sets_put_cleared:
  assumes s: "sets_ok sock ssl s" "st_heap s c = Some k"
    and r: "read_set s \<inter> watched k \<subseteq> watched k'" and fd: "conn_fd k' = conn_fd k"
  shows "sets_ok sock ssl (put_conn c k' s)"
proof -
  have "watch_all (st_heap s) \<inter> read_set s \<subseteq> watch_all ((st_heap s)(c \<mapsto> k'))"
  proof
    fix x
    assume x: "x \<in> watch_all (st_heap s) \<inter> read_set s"
    then obtain d m where d: "st_heap s d = Some m" "x \<in> watched m" by (auto simp: watch_all_def)
    show "x \<in> watch_all ((st_heap s)(c \<mapsto> k'))"
    proof (cases "d = c")
      case True
      then have "x \<in> watched k'" using d s(2) r x by auto
      then show ?thesis using watch_all_in [of "(st_heap s)(c \<mapsto> k')" c k'] by auto
    next
      case False
      then show ?thesis using d watch_all_in [of "(st_heap s)(c \<mapsto> k')" d m] by auto
    qed
  qed
  then show ?thesis
    using s(1) client_fds_put [of "st_heap s" c, OF s(2) fd]
    unfolding sets_ok_def put_conn_simps by blast
qed

lemma drop_pipe_live:
  assumes "live_with sock ssl s0 c k s"
  shows "post (drop_pipe fd s) (\<lambda>(fd', s'). live_with sock ssl s0 c k s' \<and> fd' < 0
    \<and> read_set s' = read_set s - {x. x = fd \<and> 0 \<le> fd})"
  unfolding drop_pipe_def
proof (rule post_if)
  assume "0 \<le> fd"
  then show "post (clr_fd_read fd s \<bind> (\<lambda>s. let (fd, tr) = close_pipe fd (st_trace s)
      in Some (fd, s\<lparr>st_trace := tr\<rparr>)))
    (\<lambda>(fd', s'). live_with sock ssl s0 c k s' \<and> fd' < 0 \<and> read_set s' = read_set s - {x. x = fd \<and> 0 \<le> fd})"
    by (intro post_bindI [OF clr_fd_read_live [OF assms]]) (auto simp: close_pipe_def live_with_def)
qed (use assms in auto)

lemma pl_reset_live:
  assumes "live_with sock ssl s0 c k s"
  shows "post (pl_reset_conn c s) (\<lambda>(rc, s'). rc = 1 \<and> (\<exists>g. cgi_closed g
    \<and> live_with sock ssl s0 c (k\<lparr>conn_buf := buf_reset (conn_buf k), conn_req := req_reset (conn_req k),
        conn_resp := resp_clear (conn_resp k), conn_cgi := g\<rparr>) s'))"
proof -
  have g: "get_conn c s = Some k" and lv: "live sock ssl s0 c s" using assms by (simp_all add: live_with_def)
  have dok: "data_ok k" using live_get [OF lv] g by (simp add: conn_ok_data)
  have fd: "conn_fd k \<in> watched k \<or> conn_fd k < 0" by (simp add: watched_def)
  have fin: "live_with sock ssl s0 c (k\<lparr>conn_buf := buf_reset (conn_buf k),
        conn_req := req_reset (conn_req k), conn_resp := resp_clear (conn_resp k), conn_cgi := g\<rparr>)
        (put_conn c (k\<lparr>conn_buf := buf_reset (conn_buf k),
        conn_req := req_reset (conn_req k), conn_resp := resp_clear (conn_resp k), conn_cgi := g\<rparr>)
        (s4\<lparr>st_trace := tr\<rparr>))"
    if l4: "live_with sock ssl s0 c k s4" and cg: "cgi_closed g" "cgi_phase g = CGI_IDLE"
      and rd: "\<forall>x \<in> read_set s4. x \<noteq> srv_in (conn_cgi k) \<and> x \<noteq> srv_err (conn_cgi k) \<or> x < 0" for s4 g tr
  proof -
    let ?k = "k\<lparr>conn_buf := buf_reset (conn_buf k), conn_req := req_reset (conn_req k),
        conn_resp := resp_clear (conn_resp k), conn_cgi := g\<rparr>"
    have h: "st_heap s4 c = Some k" "pool_ok sock ssl s4" using l4
      by (simp_all add: live_with_def get_conn_def live_def)
    have "read_set s4 \<inter> watched k \<subseteq> watched ?k" using rd by (auto simp: watched_def)
    then have "pool_ok sock ssl (put_conn c ?k s4)"
      using slots_put [OF _ h(1), of ?k] sets_put_cleared [OF _ h(1), of sock ssl ?k]
        reset_conn_ok [OF dok cg] h(2) by (simp add: pool_ok_def)
    then show ?thesis using l4 by (simp add: live_with_def live_def flip: put_trace)
  qed
  show ?thesis
    unfolding pl_reset_conn_def g Option.bind.bind_lunit
    apply (rule post_bindI [OF set_fd_read_live [OF assms fd]])
    apply (rule post_bindI [OF clr_fd_write_live], assumption)
    apply (erule conjE, rule post_bindI [OF drop_pipe_live], assumption)
    apply (clarify, rule post_bindI [OF drop_pipe_live], assumption)
    apply (clarify, simp only: Let_def resp_reset_def prod.case, split prod.split, intro allI impI)
    apply (simp only: post_simps prod.case, intro conjI refl, frule cgi_reset_closed)
    apply (rule exI, rule conjI, erule conjunct1, rule fin, assumption)
    subgoal by (elim conjE)
    subgoal by (elim conjE)
    subgoal premises prems using prems(9) by auto
    done
qed

section \<open>Deleting a connection\<close>

lemma idx_in_pool_small:
  assumes "i < n" "n \<le> MAX_CONNS"
  shows "idx_in_pool (int i) n"
proof -
  have "n < 2 ^ 64" using assms(2) by (simp add: MAX_CONNS_def)
  moreover have "i < 2 ^ 64" using assms by (simp add: MAX_CONNS_def)
  ultimately show ?thesis
    using assms(1) by (simp add: idx_in_pool_def word_less_nat_alt unsigned_of_nat take_bit_nat_eq_self)
qed

text \<open>
  The swap: slot \<open>i\<close> gets the pointer of the last slot, which is cleared; the moved connection
  learns its new slot and the deleted one leaves the heap.
\<close>

lemma swap_out:
  assumes s: "slots_ok s" "i < n_conns s" "conns s ! i = Some c"
    and l: "conns s ! (n_conns s - 1) = Some l" "st_heap s l = Some lk"
    and s': "n_conns s' = n_conns s - 1" "sv_next s' = sv_next s"
      "conns s' = (conns s)[i := Some l, n_conns s - 1 := None]"
      "st_heap s' = ((st_heap s)(l \<mapsto> lk\<lparr>conn_idx := int i\<rparr>))(c := None)"
  shows "slots_ok s'"
proof -
  let ?n = "n_conns s - 1"
  have n: "?n < n_conns s" "n_conns s \<le> MAX_CONNS" "n_conns s \<le> length (conns s)"
    "length (conns s) \<le> MAX_CONNS + 1"
    using s(1,2) by (auto simp: slots_ok_def)
  have slot: "\<exists>d k. conns s' ! j = Some d \<and> st_heap s' d = Some k
      \<and> conn_idx k = int j \<and> conn_ok k \<and> fd_ok (conn_fd k)" if j: "j < ?n" for j
  proof (cases "j = i")
    case True
    then have "l \<noteq> c" using slot_inj [OF s(1) n(1) s(2)] l(1) s(3) j by auto
    moreover have "conn_ok lk \<and> fd_ok (conn_fd lk)" using slot_of [OF s(1) l(2)] by blast
    then have "conn_ok (lk\<lparr>conn_idx := int i\<rparr>) \<and> fd_ok (conn_fd lk)"
      by (simp add: conn_ok_def phases_ok_def data_ok_def)
    ultimately show ?thesis using True j n s' by (simp add: nth_list_update)
  next
    case False
    from j have jn: "j < n_conns s" by simp
    obtain d k where d: "conns s ! j = Some d" "st_heap s d = Some k" "conn_idx k = int j"
        "conn_ok k" "fd_ok (conn_fd k)"
      using s(1) jn unfolding slots_ok_def by blast
    have "d \<noteq> c" using slot_inj [OF s(1) jn s(2)] d(1) s(3) False by auto
    moreover have "d \<noteq> l" using slot_inj [OF s(1) jn n(1)] d(1) l(1) j by auto
    ultimately show ?thesis using False j n s' d by (simp add: nth_list_update)
  qed
  have owner: "\<exists>j. j < ?n \<and> conns s' ! j = Some d" if d: "st_heap s' d = Some k" for d k
  proof -
    have dc: "d \<noteq> c" using d s'(4) by auto
    show ?thesis
    proof (cases "d = l")
      case True
      then have "i \<noteq> ?n" using dc l(1) s(3) by auto
      then have "i < ?n" using s(2) by simp
      then show ?thesis using True s' n by (intro exI [of _ i]) (simp add: nth_list_update)
    next
      case False
      then have "st_heap s d = Some k" using d dc s'(4) by simp
      then obtain j where j: "j < n_conns s" "conns s ! j = Some d" using slot_of [OF s(1)] by blast
      have "j \<noteq> i" "j \<noteq> ?n" using j dc False s(3) l(1) by auto
      then have "j < ?n" using j(1) by simp
      then show ?thesis using j \<open>j \<noteq> i\<close> s' n by (intro exI [of _ j]) (simp add: nth_list_update)
    qed
  qed
  have "l < sv_next s" using s(1) l(2) unfolding slots_ok_def by (metis leI option.distinct(1))
  then have "\<forall>d \<ge> sv_next s'. st_heap s' d = None"
    using s(1) s' by (auto simp: slots_ok_def)
  moreover have "length (conns s') = length (conns s)" using s'(3) by simp
  ultimately show ?thesis
    using slot owner n s'(1) unfolding slots_ok_def by auto
qed

lemma sets_gone:
  assumes s: "sets_ok sock ssl s" "st_heap s c = Some k" "cgi_closed (conn_cgi k)"
    and r: "conn_fd k \<notin> read_set s" "conn_fd k \<notin> write_set s"
    and l: "st_heap s l = Some lk"
    and s': "read_set s' = read_set s" "write_set s' = write_set s" "min_max_fd s' = min_max_fd s"
      "st_heap s' = ((st_heap s)(l \<mapsto> lk\<lparr>conn_idx := i\<rparr>))(c := None)"
  shows "sets_ok sock ssl s'"
proof -
  have w: "watched k \<subseteq> {conn_fd k}" using s(3) by (auto simp: watched_def cgi_closed_def)
  have keep: "\<exists>m'. st_heap s' d = Some m' \<and> watched m' = watched m \<and> conn_fd m' = conn_fd m"
    if "st_heap s d = Some m" "d \<noteq> c" for d m
    using that s'(4) l by (cases "d = l") (auto simp: watched_def)
  have "watch_all (st_heap s) \<inter> read_set s \<subseteq> watch_all (st_heap s')"
  proof
    fix x
    assume "x \<in> watch_all (st_heap s) \<inter> read_set s"
    then obtain d m where d: "st_heap s d = Some m" "x \<in> watched m" "x \<in> read_set s"
      by (auto simp: watch_all_def)
    then have "d \<noteq> c" using s(2) w r(1) by auto
    with keep [OF d(1)] d(2) show "x \<in> watch_all (st_heap s')" by (auto simp: watch_all_def)
  qed
  moreover have "client_fds (st_heap s) \<inter> write_set s \<subseteq> client_fds (st_heap s')"
  proof
    fix x
    assume "x \<in> client_fds (st_heap s) \<inter> write_set s"
    then obtain d m where d: "st_heap s d = Some m" "x = conn_fd m" "x \<in> write_set s"
      by (auto simp: client_fds_def)
    then have "d \<noteq> c" using s(2) r(2) by auto
    with keep [OF d(1)] d(2) show "x \<in> client_fds (st_heap s')"
      unfolding client_fds_def by (metis (mono_tags) mem_Collect_eq)
  qed
  ultimately show ?thesis using s(1) unfolding sets_ok_def s'(1-3) by blast
qed

lemma pl_reset_sets:
  assumes "get_conn c s = Some k"
  shows "post (pl_reset_conn c s) (\<lambda>(rc, s'). conn_fd k \<notin> write_set s')"
  unfolding pl_reset_conn_def assms Option.bind.bind_lunit
  by (intro post_bind) (auto simp: set_fd_read_def clr_fd_write_def drop_pipe_def clr_fd_read_def
      FD_SET_def FD_CLR_def Let_def close_pipe_def split: if_splits prod.splits)

text \<open>The end of \<open>pl_del_conn\<close>, from the count on.\<close>

definition del_tail :: "ptr \<Rightarrow> int \<Rightarrow> server \<Rightarrow> (int \<times> server) option" where
  "del_tail c idx s = do {
     let n = n_conns s - 1;
     let i = nat idx;
     let s = s\<lparr>n_conns := n\<rparr>;
     l \<leftarrow> conns_get n s;
     s \<leftarrow> conns_put i (Some l) s;
     lk \<leftarrow> get_conn l s;
     let s = put_conn l (lk\<lparr>conn_idx := idx\<rparr>) s;
     s \<leftarrow> conns_put n None s;
     s \<leftarrow> cn_free c s;
     Some (1, s) }"

lemma del_tail_result:
  assumes "slots_ok s" "i < n_conns s" "conns s ! i = Some c"
  shows "post (del_tail c (int i) s) (\<lambda>(rc, s'). \<exists>l lk. conns s ! (n_conns s - 1) = Some l
    \<and> st_heap s l = Some lk \<and> n_conns s' = n_conns s - 1 \<and> sv_next s' = sv_next s
    \<and> conns s' = (conns s)[i := Some l, n_conns s - 1 := None]
    \<and> st_heap s' = ((st_heap s)(l \<mapsto> lk\<lparr>conn_idx := int i\<rparr>))(c := None)
    \<and> read_set s' = read_set s \<and> write_set s' = write_set s \<and> min_max_fd s' = min_max_fd s)"
proof -
  let ?m = "n_conns s - 1"
  have m: "?m < n_conns s" "?m < length (conns s)" "i < length (conns s)"
    using assms(1,2) by (auto simp: slots_ok_def)
  obtain l lk where l: "conns s ! ?m = Some l" "st_heap s l = Some lk"
    using assms(1) m(1) unfolding slots_ok_def by blast
  have "st_heap s c \<noteq> None" using assms unfolding slots_ok_def by force
  then show ?thesis
    using m l by (auto simp: del_tail_def conns_get_def conns_put_def get_conn_def cn_free_def
        log_ev_def Let_def)
qed

lemma pl_del_eq:
  assumes "slots_ok s" "st_heap s c = Some k"
  shows "\<exists>i < n_conns s. conns s ! i = Some c \<and> conn_idx k = int i \<and> pl_del_conn c s = do {
      (_, s) \<leftarrow> pl_reset_conn c s;
      s \<leftarrow> clr_fd_read (conn_fd k) s;
      del_tail c (int i) (s\<lparr>st_trace := EvClose (conn_fd k) # st_trace s\<rparr>) }"
proof -
  obtain i where i: "i < n_conns s" "conns s ! i = Some c" "conn_idx k = int i"
    using slot_of [OF assms] by blast
  have k: "get_conn c s = Some k" using assms(2) by (simp add: get_conn_def)
  have idx: "idx_in_pool (int i) (n_conns s)"
    using idx_in_pool_small [OF i(1)] assms(1) by (simp add: slots_ok_def)
  have "pl_del_conn c s = do {
      (_, s) \<leftarrow> pl_reset_conn c s;
      s \<leftarrow> clr_fd_read (conn_fd k) s;
      del_tail c (int i) (s\<lparr>st_trace := EvClose (conn_fd k) # st_trace s\<rparr>) }"
    by (simp add: pl_del_conn_def k idx i(3) del_tail_def log_ev_def Let_def)
  with i show ?thesis by blast
qed

text \<open>Deleting keeps the invariant, and everything in the slots before the deleted one.\<close>

lemma del_tail_gone:
  assumes lv: "live sock ssl s0 c s" and same: "conns s = conns s0" "n_conns s = n_conns s0" "st_heap s c = Some k"
    and i: "i < n_conns s" "conns s ! i = Some c" and closed: "cgi_closed (conn_cgi k)"
    and out: "conn_fd k \<notin> read_set s" "conn_fd k \<notin> write_set s"
  shows "post (del_tail c (int i) s) (\<lambda>(rc, s'). gone sock ssl s0 c s')"
proof -
  have other: "\<And>d. d \<noteq> c \<Longrightarrow> st_heap s d = st_heap s0 d" using lv by (simp add: live_def)
  have ok: "slots_ok s" "sets_ok sock ssl s" using lv by (simp_all add: live_def pool_ok_def)
  have n: "n_conns s - 1 < n_conns s" "n_conns s \<le> length (conns s)" using i ok(1) by (auto simp: slots_ok_def)
  show ?thesis
  proof (rule post_mono [OF del_tail_result [OF ok(1) i]], clarify)
    fix rc and s' :: server and l lk
    assume l: "conns s ! (n_conns s - 1) = Some l" "st_heap s l = Some lk"
      and s': "n_conns s' = n_conns s - 1" "sv_next s' = sv_next s"
        "conns s' = (conns s)[i := Some l, n_conns s - 1 := None]"
        "st_heap s' = ((st_heap s)(l \<mapsto> lk\<lparr>conn_idx := int i\<rparr>))(c := None)"
      and sets: "read_set s' = read_set s" "write_set s' = write_set s" "min_max_fd s' = min_max_fd s"
    have "pool_ok sock ssl s'"
      unfolding pool_ok_def
      using swap_out [OF ok(1) i l s'] sets_gone [OF ok(2) same(3) closed _ _ l(2) sets s'(4)] out by simp
    moreover have "conns s' ! j = conns s0 ! j \<and>
        (\<forall>d. conns s0 ! j = Some d \<longrightarrow> st_heap s' d = st_heap s0 d)" if j: "j < i" for j
    proof -
      have jn: "j < n_conns s" "j \<noteq> n_conns s - 1" using j i(1) by simp_all
      have "conns s ! j \<noteq> Some c" "conns s ! j \<noteq> Some l"
        using slot_inj [OF ok(1) jn(1) i(1)] slot_inj [OF ok(1) jn(1) n(1)] i(2) l(1) j jn(2) by auto
      then show ?thesis using other s' j jn(2) n same by (auto simp: nth_list_update)
    qed
    moreover have "\<exists>j. st_heap s' d = map_option (\<lambda>m. m\<lparr>conn_idx := j\<rparr>) (st_heap s0 d)" if d: "d \<noteq> c" for d
    proof (cases "d = l")
      case True
      then have "st_heap s0 d = Some lk" using l(2) other [OF d] by simp
      then show ?thesis using True d s'(4) by (intro exI [of _ "int i"]) simp
    next
      case False
      then have "st_heap s' d = st_heap s0 d" using d s'(4) other by simp
      then show ?thesis
        by (cases "st_heap s0 d") (simp, intro exI [of _ "conn_idx (the (st_heap s0 d))"], simp)
    qed
    ultimately show "gone sock ssl s0 c s'"
      unfolding gone_def using i same s'(1,4) by (intro conjI exI [of _ i] allI impI) auto
  qed
qed

lemma pl_del_gone:
  assumes lv: "live sock ssl s0 c s"
  shows "post (pl_del_conn c s) (\<lambda>(rc, s'). gone sock ssl s0 c s')"
proof -
  obtain k where k: "get_conn c s = Some k" using live_get [OF lv] by blast
  have lw: "live_with sock ssl s0 c k s" using lv k by (simp add: live_with_def)
  have sl: "slots_ok s" "st_heap s c = Some k" using lv k
    by (simp_all add: live_def pool_ok_def get_conn_def)
  obtain i where i: "i < n_conns s" "conns s ! i = Some c"
    and eq: "pl_del_conn c s = do {
      (_, s) \<leftarrow> pl_reset_conn c s;
      s \<leftarrow> clr_fd_read (conn_fd k) s;
      del_tail c (int i) (s\<lparr>st_trace := EvClose (conn_fd k) # st_trace s\<rparr>) }"
    using pl_del_eq [OF sl] by blast
  have fin: "post (del_tail c (int i) (s2\<lparr>st_trace := t\<rparr>)) (\<lambda>(rc, s'). gone sock ssl s0 c s')"
    if s2: "live_with sock ssl s0 c k' s2" "cgi_closed (conn_cgi k')" "conn_fd k' = conn_fd k"
      and out: "conn_fd k \<notin> read_set s2" "conn_fd k \<notin> write_set s2" for s2 k' t
    by (rule del_tail_gone [where k = k']) (use s2 out lv i in \<open>auto simp: live_with_def live_def get_conn_def\<close>)
  show ?thesis
    unfolding eq
    apply (rule post_bindI [OF post_conj [OF pl_reset_live [OF lw] pl_reset_sets [OF k]]])
    apply (clarify, rule post_bindI [OF clr_fd_read_live], assumption)
    apply (elim conjE, rule fin, assumption, simp_all)
    done
qed

text \<open>What is left of the pool, exactly.\<close>

lemma pl_del_exact:
  assumes p: "pool_ok sock ssl s" and k: "st_heap s c = Some k"
  shows "post (pl_del_conn c s) (\<lambda>(rc, s'). rc = 1 \<and> n_conns s = Suc (n_conns s')
    \<and> dom (st_heap s') = dom (st_heap s) - {c}
    \<and> (\<forall>d m. d \<noteq> c \<longrightarrow> st_heap s d = Some m \<longrightarrow> (\<exists>j. st_heap s' d = Some (m\<lparr>conn_idx := j\<rparr>)))
    \<and> conn_fd k \<notin> read_set s' \<union> write_set s')"
proof -
  have s: "slots_ok s" and lw: "live_with sock ssl s c k s"
    using p k live_refl [OF p k] by (simp_all add: pool_ok_def live_with_def get_conn_def)
  have g: "get_conn c s = Some k" using k by (simp add: get_conn_def)
  obtain i where i: "i < n_conns s" "conns s ! i = Some c"
    and eq: "pl_del_conn c s = do {
      (_, s) \<leftarrow> pl_reset_conn c s;
      s \<leftarrow> clr_fd_read (conn_fd k) s;
      del_tail c (int i) (s\<lparr>st_trace := EvClose (conn_fd k) # st_trace s\<rparr>) }"
    using pl_del_eq [OF s k] by blast
  have fin: "post (del_tail c (int i) (s2\<lparr>st_trace := t\<rparr>)) (\<lambda>(rc, s'). rc = 1 \<and> n_conns s = Suc (n_conns s')
      \<and> dom (st_heap s') = dom (st_heap s) - {c}
      \<and> (\<forall>d m. d \<noteq> c \<longrightarrow> st_heap s d = Some m \<longrightarrow> (\<exists>j. st_heap s' d = Some (m\<lparr>conn_idx := j\<rparr>)))
      \<and> conn_fd k \<notin> read_set s' \<union> write_set s')"
    if l: "live_with sock ssl s c k' s2" and out: "conn_fd k \<notin> read_set s2" "conn_fd k \<notin> write_set s2"
    for k' s2 t
  proof -
    define s3 where "s3 = s2\<lparr>st_trace := t\<rparr>"
    have same: "conns s3 = conns s" "n_conns s3 = n_conns s" "slots_ok s3" "st_heap s3 c = Some k'"
      and other: "\<And>d. d \<noteq> c \<Longrightarrow> st_heap s3 d = st_heap s d"
      using l by (auto simp: s3_def live_with_def live_def pool_ok_def slots_ok_def get_conn_def)
    have sets: "read_set s3 = read_set s2" "write_set s3 = write_set s2" by (simp_all add: s3_def)
    have i3: "i < n_conns s3" "conns s3 ! i = Some c" using i same by simp_all
    have upd: "\<exists>j. Some m = Some (m\<lparr>conn_idx := j\<rparr>)" for m :: conn_t by (rule exI [of _ "conn_idx m"]) simp
    have rc: "post (del_tail c (int i) s3) (\<lambda>(rc, s'). rc = 1)"
      unfolding del_tail_def Let_def by (intro post_bind) simp
    show ?thesis
      unfolding s3_def [symmetric]
    proof (rule post_mono [OF post_conj [OF rc del_tail_result [OF same(3) i3]]], clarify)
      fix rc :: int and s' :: server and l lk
      assume l: "conns s3 ! (n_conns s3 - 1) = Some l" "st_heap s3 l = Some lk"
        and s': "n_conns s' = n_conns s3 - 1" "sv_next s' = sv_next s3"
          "conns s' = (conns s3)[i := Some l, n_conns s3 - 1 := None]"
          "st_heap s' = ((st_heap s3)(l \<mapsto> lk\<lparr>conn_idx := int i\<rparr>))(c := None)"
        and s's: "read_set s' = read_set s3" "write_set s' = write_set s3"
      have dl: "dom (st_heap s') = dom (st_heap s) - {c}"
        using s'(4) l(2) other k by (cases "l = c") (auto simp: dom_def split: if_splits)
      have up: "\<exists>j. st_heap s' d = Some (m\<lparr>conn_idx := j\<rparr>)" if "d \<noteq> c" "st_heap s d = Some m" for d m
        using that s'(4) l(2) other upd by (cases "d = l") auto
      show "1 = (1::int) \<and> n_conns s = Suc (n_conns s') \<and> dom (st_heap s') = dom (st_heap s) - {c}
        \<and> (\<forall>d m. d \<noteq> c \<longrightarrow> st_heap s d = Some m \<longrightarrow> (\<exists>j. st_heap s' d = Some (m\<lparr>conn_idx := j\<rparr>)))
        \<and> conn_fd k \<notin> read_set s' \<union> write_set s'"
        using dl up s'(1) i3(1) same(2) s's sets out by auto
    qed
  qed
  show ?thesis
    unfolding eq
    apply (rule post_bindI [OF post_conj [OF pl_reset_live [OF lw] pl_reset_sets [OF g]]])
    apply (clarify, rule post_bindI [OF clr_fd_read_live], assumption)
    apply (elim conjE, rule fin, assumption, simp_all)
    done
qed

end
