(* ===== verification/Lisod_Inv.thy ===== *)
theory Lisod_Inv
  imports Pool_Inv
begin

text \<open>
  The server keeps its invariant: its callbacks satisfy the contracts of \<open>Conn_Handlers\<close>, so the
  handlers do, so every step of the body of the select loop does. The loop over the connections
  ends, and leaves a bound that covers every descriptor of the sets.
\<close>

section \<open>The callbacks\<close>

lemma drop_conn_gone:
  assumes "live sock ssl s0 c s"
  shows "post (liso_drop_conn c s) (\<lambda>(rc, s'). rc = - 1 \<and> gone sock ssl s0 c s')"
  unfolding liso_drop_conn_def by (rule post_bindI [OF pl_del_gone [OF assms]]) auto

lemma abort_status_ok:
  "conn_ok (abort_conn k) \<Longrightarrow>
   conn_ok (k\<lparr>conn_req := (conn_req k)\<lparr>req_phase := REQ_ABORT\<rparr>,
     conn_resp := (conn_resp k)\<lparr>resp_phase := RESP_ABORT, resp_status := st\<rparr>\<rparr>)"
  by (simp add: abort_conn_def conn_ok_def phases_ok_def data_ok_def resp_ok_def)

lemma may_put_abort:
  "may_put k k' \<Longrightarrow> may_put k (k'\<lparr>conn_req := r, conn_resp := p\<rparr>)"
  by (simp add: may_put_def same_conn_def)

lemma conn_err_live:
  assumes "live sock ssl s0 c s" "get_conn c s = Some k" "may_put k k'" "conn_ok (abort_conn k')"
  shows "post (liso_conn_err c st (put_conn c k' s)) (\<lambda>(rc, s'). rc = 1 \<and> live sock ssl s0 c s')"
proof -
  let ?k = "k'\<lparr>conn_req := (conn_req k')\<lparr>req_phase := REQ_ABORT\<rparr>,
    conn_resp := (conn_resp k')\<lparr>resp_phase := RESP_ABORT, resp_status := st\<rparr>\<rparr>"
  have "live_with sock ssl s0 c ?k (put_conn c ?k s)"
    using live_put [OF assms(1,2) may_put_abort [OF assms(3)] abort_status_ok [OF assms(4)]]
    by (simp add: live_with_def)
  from set_fd_write_live [OF this] show ?thesis
    unfolding liso_conn_err_def get_put Option.bind.bind_lunit Let_def put_put
    by (auto simp: live_with_def elim!: post_bindI)
qed

interpretation cb: conn_base "live sock ssl s0" liso_conn_err for sock ssl s0
proof
  show "\<exists>k. get_conn c s = Some k \<and> conn_ok k" if "live sock ssl s0 c s" for c s
    by (rule live_get [OF that])
qed (simp_all add: live_put conn_err_live)

text \<open>A pipelined request is loaded into the buffer the reset has just emptied.\<close>

lemma load_piped_ok:
  assumes "conn_ok k" "data_p (conn_buf k) = 0" "req_phase (conn_req k) = REQ_START"
  shows "safe (load_piped k) (\<lambda>k'. same_conn k k' \<and> conn_ok k'
    \<and> unread (conn_buf k') = take (nat (sz (req_last_buf (conn_req k)))) (data (req_last_buf (conn_req k))))"
proof -
  let ?lb = "req_last_buf (conn_req k)" and ?buf = "conn_buf k"
  have d: "data_ok k" by (rule conn_ok_data [OF assms(1)])
  have lb: "buf_ok ?lb" using d by (simp add: data_ok_def req_ok_def)
  have len: "length (data ?buf) \<le> BUFSZ + 1" using d by (simp add: data_ok_def)
  let ?bs = "take (nat (sz ?lb)) (data ?lb)"
  have bs: "length ?bs = nat (sz ?lb)" "length ?bs \<le> BUFSZ" using lb by (auto simp: buf_ok_def)
  obtain buf where b: "buf_write 0 ?bs (?buf\<lparr>sz := sz ?lb\<rparr>) = Some buf" "sz buf = sz ?lb"
      "data_p buf = 0" "take (length ?bs) (data buf) = ?bs" "length (data buf) \<le> BUFSZ + 1"
      "length ?bs \<le> length (data buf)"
    using buf_write_base [of "?buf\<lparr>sz := sz ?lb\<rparr>" ?bs] len bs assms(2) by auto
  have bok: "buf_ok buf" using b bs lb by (simp add: buf_ok_def)
  have ok: "conn_ok (k\<lparr>conn_buf := buf, conn_req := (conn_req k)\<lparr>req_last_buf := buf_reset ?lb\<rparr>\<rparr>)"
    using assms(1,3) lb b(5) bok
    by (simp add: conn_ok_def phases_ok_def phases_fit_def data_ok_def req_ok_def)
  have sl: "buf_slice ?lb 0 (nat (sz ?lb)) = Some ?bs"
    using lb by (simp add: buf_slice_def buf_ok_def)
  have "0 \<le> sz ?lb" using lb by (simp add: buf_ok_def)
  then show ?thesis
    using sl b(1) ok b bs by (simp add: load_piped_def Let_def unread_def)
qed

lemma get_put_live: "live_with sock ssl s0 c k s \<Longrightarrow> get_conn c s = Some k"
  by (simp add: live_with_def)

lemma live_withD: "live_with sock ssl s0 c k s \<Longrightarrow> live sock ssl s0 c s"
  by (simp add: live_with_def)

lemma live_withI: "live sock ssl s0 c s \<Longrightarrow> get_conn c s = Some k \<Longrightarrow> live_with sock ssl s0 c k s"
  by (simp add: live_with_def)

lemma reset_or_close_live:
  assumes "live sock ssl s0 c s"
  shows "post (liso_reset_or_close c s) (alive_or_gone (live sock ssl s0) (gone sock ssl s0) c)"
proof -
  obtain k where k: "get_conn c s = Some k" using live_get [OF assms] by blast
  let ?k = "\<lambda>g. k\<lparr>conn_buf := buf_reset (conn_buf k), conn_req := req_reset (conn_req k),
        conn_resp := resp_clear (conn_resp k), conn_cgi := g\<rparr>"
  have start: "data_p (conn_buf (?k g)) = 0" "req_phase (conn_req (?k g)) = REQ_START" for g
    by (simp_all add: req_reset_def)
  have sets: "post (clr_fd_read (conn_fd m) s \<bind> (\<lambda>s. set_fd_write (conn_fd m) s \<bind> (\<lambda>s. Some (1, s))))
      (alive_or_gone (live sock ssl s0) (gone sock ssl s0) c)" if "live_with sock ssl s0 c m s" for m s
    apply (rule post_bindI [OF clr_fd_read_live [OF that]])
    apply (elim conjE, erule post_bindI [OF set_fd_write_live])
    apply (simp add: live_with_def)
    done
  have drop: "post (liso_drop_conn c s) (alive_or_gone (live sock ssl s0) (gone sock ssl s0) c)"
    by (rule post_mono [OF drop_conn_gone [OF assms]]) auto
  have piped: "post (cn_parse_req liso_conn_err c 0 (put_conn c k' s')
        \<bind> (\<lambda>(_, s). get_conn c s \<bind> (\<lambda>k. if req_phase (conn_req k) = REQ_DONE
           then clr_fd_read (conn_fd k) s \<bind> (\<lambda>s. set_fd_write (conn_fd k) s \<bind> (\<lambda>s. Some (1, s)))
           else Some (1, s))))
      (alive_or_gone (live sock ssl s0) (gone sock ssl s0) c)"
    if "live_with sock ssl s0 c m s'" "same_conn m k'" "conn_ok k'" for m k' s'
  proof -
    have lv: "live sock ssl s0 c (put_conn c k' s')"
      using live_put [OF live_withD [OF that(1)] get_put_live [OF that(1)] may_put_same [OF that(2)] that(3)] .
    show ?thesis
      by (rule post_bindI [OF cb.parse_req [OF lv]])
        (auto intro!: post_bind post_if sets live_withI)
  qed
  have after: "post (get_conn c s' \<bind> (\<lambda>k. if sz (req_last_buf (conn_req k)) \<noteq> 0
        then load_piped k \<bind> (\<lambda>k. cn_parse_req liso_conn_err c 0 (put_conn c k s')
          \<bind> (\<lambda>(_, s). get_conn c s \<bind> (\<lambda>k. if req_phase (conn_req k) = REQ_DONE
             then clr_fd_read (conn_fd k) s \<bind> (\<lambda>s. set_fd_write (conn_fd k) s \<bind> (\<lambda>s. Some (1, s)))
             else Some (1, s))))
        else Some (1, s'))) (alive_or_gone (live sock ssl s0) (gone sock ssl s0) c)"
    if lw: "live_with sock ssl s0 c (?k g) s'" for g s'
  proof -
    have ok: "conn_ok (?k g)" using live_get [OF live_withD [OF lw]] get_put_live [OF lw] by auto
    show ?thesis
      unfolding get_put_live [OF lw] Option.bind.bind_lunit
      by (rule post_if, rule post_bindI [OF safe_post [OF load_piped_ok [OF ok start]]])
        (use piped [OF lw] live_withD [OF lw] in auto)
  qed
  show ?thesis
    unfolding liso_reset_or_close_def k Option.bind.bind_lunit
    by (rule post_if, rule post_bindI [OF pl_reset_live [OF live_withI [OF assms k]]])
      (use after drop in auto)
qed

lemma cgi_inited_live:
  assumes "live sock ssl s0 c s"
  shows "post (liso_cgi_inited c s) (\<lambda>(rc, s'). rc = 1 \<and> live sock ssl s0 c s')"
proof -
  obtain k where k: "get_conn c s = Some k" using live_get [OF assms] by blast
  have "srv_err (conn_cgi k) \<in> watched k \<or> srv_err (conn_cgi k) < 0" by (simp add: watched_def)
  from set_fd_read_live [OF live_withI [OF assms k] this] show ?thesis
    by (auto simp: liso_cgi_inited_def k live_with_def elim!: post_bindI)
qed

interpretation cb: conn_callbacks "live sock ssl s0" liso_conn_err "gone sock ssl s0"
    liso_reset_or_close liso_drop_conn for sock ssl s0
  by unfold_locales (simp_all add: reset_or_close_live drop_conn_gone)

interpretation cgi_cb: cgi_callbacks "live sock ssl s0" liso_conn_err liso_cgi_inited for sock ssl s0
  by unfold_locales (simp add: cgi_inited_live)

section \<open>The steps of the body of the loop\<close>

text \<open>\<open>served\<close>: still there, or dropped.\<close>

definition served :: "int \<Rightarrow> int \<Rightarrow> server \<Rightarrow> ptr \<Rightarrow> bool \<times> server \<Rightarrow> bool" where
  "served sock ssl s0 c = (\<lambda>(b, s). if b then live sock ssl s0 c s else gone sock ssl s0 c s)"

lemma served_simps [simp]:
  "served sock ssl s0 c (True, s) = live sock ssl s0 c s"
  "served sock ssl s0 c (False, s) = gone sock ssl s0 c s"
  by (simp_all add: served_def)

lemma live_conn: "live sock ssl s0 c s \<Longrightarrow> \<exists>k. get_conn c s = Some k \<and> conn_ok k \<and> live_with sock ssl s0 c k s"
  using live_get live_withI by blast

lemma post_served:
  assumes "post m (alive_or_gone (live sock ssl s0) (gone sock ssl s0) c)"
  shows "post (m \<bind> (\<lambda>(rc, s). Some (0 \<le> rc, s))) (served sock ssl s0 c)"
  by (rule post_bindI [OF assms]) (auto simp: alive_or_gone_def)

lemma sv_recv_live:
  assumes "live sock ssl s0 c s" "os_ok os"
  shows "post (sv_recv os c s) (served sock ssl s0 c)"
  unfolding sv_recv_def
  by (intro post_bind post_if post_served [OF cb.recv]) (use assms in simp_all)

lemma sv_logerr_live: "live sock ssl s0 c s \<Longrightarrow> post (sv_logerr os c s) (live sock ssl s0 c)"
  unfolding sv_logerr_def by (intro post_bind post_if) (auto intro!: post_bind)

lemma post_snd: "post m (\<lambda>(rc, s). rc = 1 \<and> P s) \<Longrightarrow> post (m \<bind> (\<lambda>(_, s). Some s)) P"
  by (auto elim!: post_bindI)

lemma sv_prepare_live:
  assumes "live sock ssl s0 c s" "os_ok os" "conf_ok conf"
  shows "post (sv_prepare os conf c s) (live sock ssl s0 c)"
  unfolding sv_prepare_def
  by (intro post_bind post_if post_snd cb.prepare_static_header) (use assms in auto)

lemma sv_init_cgi_live:
  assumes "live sock ssl s0 c s"
  shows "post (sv_init_cgi os c s) (live sock ssl s0 c)"
  unfolding sv_init_cgi_def
  by (intro post_bind post_if post_snd cgi_cb.init_cgi) (use assms in auto)

lemma sv_select_sets_live:
  assumes "live sock ssl s0 c s"
  shows "post (sv_select_sets c s) (live sock ssl s0 c)"
proof -
  obtain k where k: "get_conn c s = Some k" "live_with sock ssl s0 c k s" using live_conn [OF assms] by blast
  show ?thesis
    unfolding sv_select_sets_def k(1) Option.bind.bind_lunit
    apply (rule post_if)
     apply (rule post_bindI [OF clr_fd_read_live [OF k(2)]], elim conjE)
     apply (rule post_if)
      apply (erule post_mono [OF set_fd_write_live], erule live_withD)
    using assms by (auto dest: live_withD)
qed

lemma live_put_cleared:
  assumes lw: "live_with sock ssl s0 c k s"
    and k': "conn_fd k' = conn_fd k" "conn_idx k' = conn_idx k" "conn_ok k'"
    and r: "read_set s \<inter> watched k \<subseteq> watched k'"
  shows "live_with sock ssl s0 c k' (put_conn c k' s)"
proof -
  have h: "st_heap s c = Some k" "pool_ok sock ssl s"
    using lw by (simp_all add: live_with_def get_conn_def live_def)
  then have "pool_ok sock ssl (put_conn c k' s)"
    using slots_put [OF _ h(1) k'] sets_put_cleared [OF _ h(1) r k'(1)] by (simp add: pool_ok_def)
  then show ?thesis using lw by (simp add: live_with_def live_def)
qed

lemma set_cgi_live:
  assumes "live_with sock ssl s0 c k s" "conn_ok (k\<lparr>conn_cgi := f (conn_cgi k)\<rparr>)"
    "read_set s \<inter> watched k \<subseteq> watched (k\<lparr>conn_cgi := f (conn_cgi k)\<rparr>)"
  shows "post (set_cgi c f s) (live_with sock ssl s0 c (k\<lparr>conn_cgi := f (conn_cgi k)\<rparr>))"
  using live_put_cleared [OF assms(1) _ _ assms(2,3)] get_put_live [OF assms(1)]
  by (simp add: set_cgi_def)

lemma live_with_trace [simp]: "live_with sock ssl s0 c k (s\<lparr>st_trace := t\<rparr>) = live_with sock ssl s0 c k s"
  by (simp add: live_with_def)

lemma conn_err_aborts:
  "post (liso_conn_err c st s) (\<lambda>(rc, s'). \<forall>k'. get_conn c s' = Some k' \<longrightarrow> req_phase (conn_req k') = REQ_ABORT)"
  unfolding liso_conn_err_def Let_def
  by (intro post_bind) (auto simp: set_fd_write_def FD_SET_def split: if_splits)

lemma stream_to_cgi_conn:
  assumes "get_conn c s = Some k"
  shows "post (cn_stream_to_cgi os liso_conn_err c s) (\<lambda>(rc, s'). \<forall>k'. get_conn c s' = Some k' \<longrightarrow>
    req_phase (conn_req k') = REQ_ABORT \<or> k' = k\<lparr>conn_buf := buf_reset (conn_buf k)\<rparr>)"
  unfolding cn_stream_to_cgi_def assms Option.bind.bind_lunit Let_def
  by (intro post_bind) (auto intro!: post_mono [OF conn_err_aborts])

text \<open>The whole body was written: the write end is closed and the read end watched.\<close>

lemma body_written_live:
  assumes lw: "live_with sock ssl s0 c k s" and k: "req_type (conn_req k) = REQ_DYNAMIC"
    "cgi_phase (conn_cgi k) = CGI_SRV_TO_CGI" "req_phase (conn_req k) = REQ_DONE" "data_p (conn_buf k) = 0"
  shows "post (do {
      s \<leftarrow> set_cgi c (\<lambda>g. g\<lparr>srv_out := so\<rparr>) (s\<lparr>st_trace := tr\<rparr>);
      s \<leftarrow> set_fd_read (srv_in (conn_cgi k)) s;
      set_cgi c (\<lambda>g. g\<lparr>cgi_phase := CGI_CGI_TO_SRV\<rparr>) s }) (live sock ssl s0 c)"
proof -
  have ok: "conn_ok k" using live_get [OF live_withD [OF lw]] get_put_live [OF lw] by auto
  let ?k1 = "k\<lparr>conn_cgi := (conn_cgi k)\<lparr>srv_out := so\<rparr>\<rparr>"
  have 1: "post (set_cgi c (\<lambda>g. g\<lparr>srv_out := so\<rparr>) (s\<lparr>st_trace := tr\<rparr>)) (live_with sock ssl s0 c ?k1)"
    by (rule set_cgi_live)
      (use lw ok k(2) in \<open>simp_all add: watched_def conn_ok_def phases_ok_def data_ok_def cgi_ok_def\<close>)
  have in1: "srv_in (conn_cgi k) \<in> watched ?k1 \<or> srv_in (conn_cgi k) < 0" by (simp add: watched_def)
  have 2: "post (set_cgi c (\<lambda>g. g\<lparr>cgi_phase := CGI_CGI_TO_SRV\<rparr>) s') (live sock ssl s0 c)"
    if "live_with sock ssl s0 c ?k1 s'" for s'
    by (rule post_mono [OF set_cgi_live [OF that] live_withD])
      (use ok k in \<open>simp_all add: watched_def conn_ok_def phases_ok_def phases_fit_def data_ok_def cgi_ok_def\<close>)
  show ?thesis
    by (rule post_bindI [OF 1], rule post_bindI [OF set_fd_read_live], assumption, rule in1, rule 2)
qed

lemma sv_to_cgi_live:
  assumes "live sock ssl s0 c s"
  shows "post (sv_to_cgi os c s) (live sock ssl s0 c)"
proof -
  obtain k where k: "get_conn c s = Some k" using live_conn [OF assms] by blast
  have step: "post (get_conn c s' \<bind> (\<lambda>k. if req_phase (conn_req k) = REQ_DONE then do {
         let (so, tr) = close_pipe (srv_out (conn_cgi k)) (st_trace s');
         s \<leftarrow> set_cgi c (\<lambda>g. g\<lparr>srv_out := so\<rparr>) (s'\<lparr>st_trace := tr\<rparr>);
         s \<leftarrow> set_fd_read (srv_in (conn_cgi k)) s;
         set_cgi c (\<lambda>g. g\<lparr>cgi_phase := CGI_CGI_TO_SRV\<rparr>) s } else Some s')) (live sock ssl s0 c)"
    if d: "req_type (conn_req k) = REQ_DYNAMIC \<and> cgi_phase (conn_cgi k) = CGI_SRV_TO_CGI"
      and lv: "live sock ssl s0 c s'"
      and b: "\<forall>k'. get_conn c s' = Some k' \<longrightarrow>
        req_phase (conn_req k') = REQ_ABORT \<or> k' = k\<lparr>conn_buf := buf_reset (conn_buf k)\<rparr>" for s'
  proof (rule post_bind)
    fix m
    assume m: "get_conn c s' = Some m"
    then have "req_phase (conn_req m) = REQ_DONE \<Longrightarrow> m = k\<lparr>conn_buf := buf_reset (conn_buf k)\<rparr>"
      using b by auto
    then show "post (if req_phase (conn_req m) = REQ_DONE then do {
         let (so, tr) = close_pipe (srv_out (conn_cgi m)) (st_trace s');
         s \<leftarrow> set_cgi c (\<lambda>g. g\<lparr>srv_out := so\<rparr>) (s'\<lparr>st_trace := tr\<rparr>);
         s \<leftarrow> set_fd_read (srv_in (conn_cgi m)) s;
         set_cgi c (\<lambda>g. g\<lparr>cgi_phase := CGI_CGI_TO_SRV\<rparr>) s } else Some s') (live sock ssl s0 c)"
      using body_written_live [OF live_withI [OF lv m]] d lv
      by (intro post_if) (simp_all add: Let_def split: prod.split)
  qed
  show ?thesis
    unfolding sv_to_cgi_def k Option.bind.bind_lunit
    apply (rule post_if)
     apply (rule post_bindI [OF post_conj [OF cb.stream_to_cgi [OF assms] stream_to_cgi_conn [OF k]]])
     apply (clarify, rule step, simp_all add: assms)
    done
qed

lemma sv_from_cgi_live:
  assumes "live sock ssl s0 c s" "os_ok os"
  shows "post (sv_from_cgi os c s) (live sock ssl s0 c)"
proof -
  obtain k where k: "get_conn c s = Some k" using live_conn [OF assms(1)] by blast
  have close: "post (clr_fd_read (srv_in (conn_cgi m)) s' \<bind> (\<lambda>s.
      let (si, tr) = close_pipe (srv_in (conn_cgi m)) (st_trace s)
      in set_cgi c (\<lambda>g. g\<lparr>srv_in := si\<rparr>) (s\<lparr>st_trace := tr\<rparr>))) (live sock ssl s0 c)"
    if lw: "live_with sock ssl s0 c m s'" and d: "cgi_phase (conn_cgi m) = CGI_DONE" for m s'
  proof (rule post_bindI [OF clr_fd_read_live [OF lw]], elim conjE)
    fix s2 :: server
    assume s2: "live_with sock ssl s0 c m s2" "read_set s2 = read_set s' - {srv_in (conn_cgi m)}"
    have ok: "conn_ok m" using live_get [OF live_withD [OF lw]] get_put_live [OF lw] by auto
    have "post (set_cgi c (\<lambda>g. g\<lparr>srv_in := si\<rparr>) (s2\<lparr>st_trace := tr\<rparr>))
        (live_with sock ssl s0 c (m\<lparr>conn_cgi := (conn_cgi m)\<lparr>srv_in := si\<rparr>\<rparr>))" for si tr
      by (rule set_cgi_live) (use s2 ok d in
        \<open>auto simp: watched_def conn_ok_def phases_ok_def data_ok_def cgi_ok_def\<close>)
    from post_mono [OF this live_withD]
    show "post (let (si, tr) = close_pipe (srv_in (conn_cgi m)) (st_trace s2)
        in set_cgi c (\<lambda>g. g\<lparr>srv_in := si\<rparr>) (s2\<lparr>st_trace := tr\<rparr>)) (live sock ssl s0 c)"
      by (simp add: Let_def split: prod.split)
  qed
  have after: "post (get_conn c s' \<bind> (\<lambda>k.
      (if cgi_buf_phase (conn_cgi k) = BUF_SEND then set_fd_write (conn_fd k) s' else Some s') \<bind> (\<lambda>s.
       if cgi_phase (conn_cgi k) = CGI_DONE then clr_fd_read (srv_in (conn_cgi k)) s \<bind> (\<lambda>s.
         let (si, tr) = close_pipe (srv_in (conn_cgi k)) (st_trace s)
         in set_cgi c (\<lambda>g. g\<lparr>srv_in := si\<rparr>) (s\<lparr>st_trace := tr\<rparr>))
       else Some s))) (live sock ssl s0 c)" if lv: "live sock ssl s0 c s'" for s'
  proof (rule post_bind)
    fix m
    assume m: "get_conn c s' = Some m"
    have w: "post (if cgi_buf_phase (conn_cgi m) = BUF_SEND then set_fd_write (conn_fd m) s' else Some s')
        (live_with sock ssl s0 c m)"
      using set_fd_write_live [OF live_withI [OF lv m]] live_withI [OF lv m] by simp
    show "post ((if cgi_buf_phase (conn_cgi m) = BUF_SEND then set_fd_write (conn_fd m) s' else Some s') \<bind> (\<lambda>s.
       if cgi_phase (conn_cgi m) = CGI_DONE then clr_fd_read (srv_in (conn_cgi m)) s \<bind> (\<lambda>s.
         let (si, tr) = close_pipe (srv_in (conn_cgi m)) (st_trace s)
         in set_cgi c (\<lambda>g. g\<lparr>srv_in := si\<rparr>) (s\<lparr>st_trace := tr\<rparr>))
       else Some s)) (live sock ssl s0 c)"
      by (rule post_bindI [OF w], rule post_if) (auto intro: close [unfolded Let_def] live_withD)
  qed
  show ?thesis
    unfolding sv_from_cgi_def k Option.bind.bind_lunit
    apply (rule post_bind, rule post_if)
     apply (rule post_bindI [OF cb.stream_from_cgi [OF assms k]])
    using after assms(1) by auto
qed

lemma sv_send_dynamic_live:
  assumes "live sock ssl s0 c s"
  shows "post (sv_send_dynamic os c s) (served sock ssl s0 c)"
proof -
  have clr: "live sock ssl s0 c x" if "live sock ssl s0 c s'" "get_conn c s' = Some m"
      "clr_fd_write fd s' = Some x" for m s' x fd
    using postD [OF clr_fd_write_live [OF live_withI [OF that(1,2)]] that(3)] by (simp add: live_with_def)
  show ?thesis
    unfolding sv_send_dynamic_def
    apply (rule post_bind, rule post_bind, rule post_if)
     apply (rule post_bindI [OF cb.serve_dynamic [OF assms]])
    using assms clr by (auto simp: alive_or_gone_def intro!: post_bind)
qed

lemma sv_dynamic_live:
  assumes "live sock ssl s0 c s" "os_ok os"
  shows "post (sv_dynamic os c s) (served sock ssl s0 c)"
  unfolding sv_dynamic_def
  by (rule post_bind, rule post_if)
    (auto simp: assms intro!: post_bindI [OF sv_from_cgi_live [OF assms]] sv_send_dynamic_live)

lemma sv_static_live:
  assumes "live sock ssl s0 c s" "os_ok os"
  shows "post (sv_static os c s) (served sock ssl s0 c)"
  unfolding sv_static_def
  by (intro post_bind post_if post_served [OF cb.serve_static]) (use assms in simp_all)

lemma serve_conn_live:
  assumes "live sock ssl s0 c s" "os_ok os" "conf_ok conf"
  shows "post (serve_conn os conf c s) (served sock ssl s0 c)"
proof -
  have rest: "post (sv_logerr os c s1 \<bind> (\<lambda>s. sv_prepare os conf c s \<bind> (\<lambda>s. sv_init_cgi os c s
      \<bind> (\<lambda>s. sv_select_sets c s \<bind> (\<lambda>s. sv_to_cgi os c s \<bind> (\<lambda>s. sv_dynamic os c s
      \<bind> (\<lambda>(alive, s). if \<not> alive then Some (False, s) else sv_static os c s)))))))
      (served sock ssl s0 c)" if lv: "live sock ssl s0 c s1" for s1
    apply (rule post_bindI [OF sv_logerr_live [OF lv]])
    apply (rule post_bindI [OF sv_prepare_live [OF _ assms(2,3)]], assumption)
    apply (rule post_bindI [OF sv_init_cgi_live], assumption)
    apply (rule post_bindI [OF sv_select_sets_live], assumption)
    apply (rule post_bindI [OF sv_to_cgi_live], assumption)
    apply (rule post_bindI [OF sv_dynamic_live [OF _ assms(2)]], assumption)
    apply (clarify, rule post_if)
    by (simp_all add: sv_static_live assms(2))
  show ?thesis
    unfolding serve_conn_def
    apply (rule post_bindI [OF sv_recv_live [OF assms(1,2)]])
    apply (clarify, rule post_if)
    by (simp_all add: rest)
qed

section \<open>The loop over the connections\<close>

text \<open>\<open>m\<close> bounds the descriptors of the connections in the first \<open>i\<close> slots.\<close>

definition covered :: "nat \<Rightarrow> int \<Rightarrow> server \<Rightarrow> bool" where
  "covered i m s \<longleftrightarrow> min_max_fd s \<le> m
     \<and> (\<forall>j < i. \<forall>c k. conns s ! j = Some c \<longrightarrow> st_heap s c = Some k \<longrightarrow> watched k \<subseteq> {..m})"

lemma watched_max: "watched k \<subseteq> {..conn_max_fd k m}"
  by (auto simp: watched_def conn_max_fd_def)

lemma conn_max_fd_ge: "m \<le> conn_max_fd k m"
  by (simp add: conn_max_fd_def)

lemma covered_mono: "covered i m s \<Longrightarrow> m \<le> m' \<Longrightarrow> covered i m' s"
  by (fastforce simp: covered_def)

lemma covered_le: "covered i m s \<Longrightarrow> j \<le> i \<Longrightarrow> covered j m s"
  unfolding covered_def by (meson less_le_trans)

lemma pool_min_max: "pool_ok sock ssl s \<Longrightarrow> min_max_fd s = max sock ssl"
  by (simp add: pool_ok_def sets_ok_def)

lemma pool_slot:
  assumes "pool_ok sock ssl s" "i < n_conns s"
  shows "\<exists>c. conns_get i s = Some c \<and> conns s ! i = Some c \<and> live sock ssl s c s"
proof -
  have s: "slots_ok s" using assms(1) by (simp add: pool_ok_def)
  then obtain c k where c: "conns s ! i = Some c" "st_heap s c = Some k"
    using assms(2) unfolding slots_ok_def by blast
  have "i < length (conns s)" using s assms(2) by (simp add: slots_ok_def)
  with c show ?thesis using live_refl [OF assms(1) c(2)] by (simp add: conns_get_def)
qed

lemma live_covered:
  assumes "covered i m s" "pool_ok sock ssl s" "i < n_conns s" "conns s ! i = Some c"
    and lv: "live sock ssl s c s'" and k: "get_conn c s' = Some k"
  shows "covered (Suc i) (conn_max_fd k m) s'"
proof -
  have s: "slots_ok s" and s': "conns s' = conns s" "\<And>d. d \<noteq> c \<Longrightarrow> st_heap s' d = st_heap s d"
    "min_max_fd s' = min_max_fd s"
    using assms(2) lv by (auto simp: pool_ok_def live_def pool_min_max)
  have "watched k' \<subseteq> {..conn_max_fd k m}"
    if j: "j < Suc i" "conns s' ! j = Some d" "st_heap s' d = Some k'" for j d k'
  proof (cases "j = i")
    case True
    then have "k' = k" using j k assms(4) s'(1) by (simp add: get_conn_def)
    then show ?thesis by (simp add: watched_max)
  next
    case False
    then have "j < i" using j(1) by simp
    then have "d \<noteq> c" using slot_inj [OF s _ assms(3), of j] j(2) assms(3,4) s'(1) by auto
    then have "watched k' \<subseteq> {..m}"
      using assms(1) \<open>j < i\<close> j s' by (simp add: covered_def)
    then show ?thesis using conn_max_fd_ge [of m k] by auto
  qed
  then show ?thesis
    using assms(1) conn_max_fd_ge [of m k] s'(3) by (auto simp: covered_def)
qed

lemma gone_covered:
  assumes "covered i m s" "pool_ok sock ssl s" "i < n_conns s" "conns s ! i = Some c"
    and g: "gone sock ssl s c s'"
  shows "covered i m s' \<and> pool_ok sock ssl s' \<and> n_conns s = Suc (n_conns s')"
proof -
  have s: "slots_ok s" "min_max_fd s' = min_max_fd s"
    using assms(2) g by (auto simp: pool_ok_def gone_def pool_min_max)
  obtain i' where i': "i' < n_conns s" "conns s ! i' = Some c"
      "\<forall>j < i'. conns s' ! j = conns s ! j
         \<and> (\<forall>c'. conns s ! j = Some c' \<longrightarrow> st_heap s' c' = st_heap s c')"
    using g by (auto simp: gone_def)
  have "i' = i" by (rule slot_inj [OF s(1) i'(1) assms(3)]) (simp add: i'(2) assms(4))
  then have "covered i m s'" using assms(1) i'(3) s(2) by (auto simp: covered_def)
  then show ?thesis using g by (simp add: gone_def)
qed

lemma serve_loop_ok:
  assumes "os_ok os" "conf_ok conf"
  shows "pool_ok sock ssl s \<Longrightarrow> covered i m s \<Longrightarrow> n_conns s - i \<le> fuel \<Longrightarrow>
    \<exists>r. serve_loop fuel os conf i m s = Some r
      \<and> post r (\<lambda>(m', s'). pool_ok sock ssl s' \<and> covered (n_conns s') m' s' \<and> n_conns s' \<le> n_conns s)"
proof (induction fuel arbitrary: i m s)
  case 0
  then have "covered (n_conns s) m s" using covered_le [of i m s "n_conns s"] by simp
  with 0 show ?case by (subst serve_loop.simps) simp
next
  case (Suc fuel)
  show ?case
  proof (cases "i < n_conns s")
    case False
    then have "covered (n_conns s) m s" using covered_le [OF Suc.prems(2), of "n_conns s"] by simp
    with False Suc.prems(1) show ?thesis by (subst serve_loop.simps) simp
  next
    case True
    obtain c where c: "conns_get i s = Some c" "conns s ! i = Some c" "live sock ssl s c s"
      using pool_slot [OF Suc.prems(1) True] by blast
    show ?thesis
    proof (cases "serve_conn os conf c s")
      case None
      then show ?thesis using True c by (subst serve_loop.simps) simp
    next
      case (Some r)
      obtain b s1 where r: "r = (b, s1)" by (cases r)
      have sv: "served sock ssl s c (b, s1)"
        using postD [OF serve_conn_live [OF c(3) assms]] Some r by simp
      show ?thesis
      proof (cases b)
        case True
        then have lv: "live sock ssl s c s1" using sv by simp
        then obtain k where k: "get_conn c s1 = Some k" using live_get by blast
        have s1: "pool_ok sock ssl s1" "n_conns s1 = n_conns s" using lv by (auto simp: live_def)
        have cov: "covered (Suc i) (conn_max_fd k m) s1"
          by (rule live_covered [OF Suc.prems(2,1) \<open>i < n_conns s\<close> c(2) lv k])
        have "n_conns s1 - Suc i \<le> fuel" using s1(2) Suc.prems(3) by simp
        from Suc.IH [OF s1(1) cov this] show ?thesis
          using \<open>i < n_conns s\<close> c(1) Some r True k s1(2) by (subst serve_loop.simps) simp
      next
        case False
        then have g: "gone sock ssl s c s1" using sv by simp
        note gc = gone_covered [OF Suc.prems(2,1) \<open>i < n_conns s\<close> c(2) g]
        have "n_conns s1 - i \<le> fuel" using gc Suc.prems(3) by simp
        with gc Suc.IH [of s1 i m] obtain r' where r': "serve_loop fuel os conf i m s1 = Some r'"
          "post r' (\<lambda>(m', s'). pool_ok sock ssl s' \<and> covered (n_conns s') m' s' \<and> n_conns s' \<le> n_conns s1)"
          by blast
        have "n_conns s1 \<le> n_conns s" using gc by simp
        with r' have "post r' (\<lambda>(m', s'). pool_ok sock ssl s' \<and> covered (n_conns s') m' s' \<and> n_conns s' \<le> n_conns s)"
          by (auto elim!: post_mono)
        then show ?thesis
          using \<open>i < n_conns s\<close> c(1) Some r False r'(1) by (subst serve_loop.simps) simp
      qed
    qed
  qed
qed

text \<open>\<open>select_ok\<close>: every watched descriptor is below the first argument of the next \<open>select\<close>.\<close>

definition select_ok :: "server \<Rightarrow> bool" where
  "select_ok s \<longleftrightarrow> read_set s \<union> write_set s \<subseteq> {..max_fd s}"

lemma covered_sets:
  assumes "pool_ok sock ssl s" "covered (n_conns s) m s"
  shows "read_set s \<union> write_set s \<subseteq> {..m}"
proof
  fix fd
  assume "fd \<in> read_set s \<union> write_set s"
  then consider "fd = sock \<or> fd = ssl" | d k where "st_heap s d = Some k" "fd \<in> watched k"
    | d k where "st_heap s d = Some k" "fd = conn_fd k"
    using assms(1) by (auto simp: pool_ok_def sets_ok_def watch_all_def client_fds_def)
  then show "fd \<in> {..m}"
  proof cases
    case 1
    then show ?thesis using assms by (auto simp: covered_def pool_min_max)
  next
    case (2 d k)
    then show ?thesis using slot_of [of s d k] assms by (auto simp: pool_ok_def covered_def)
  next
    case (3 d k)
    then have "fd \<in> watched k"
      using slot_of [of s d k] assms(1) by (auto simp: pool_ok_def watched_def fd_ok_def)
    then show ?thesis using 3 slot_of [of s d k] assms by (auto simp: pool_ok_def covered_def)
  qed
qed

lemma pool_ok_max_fd [simp]: "pool_ok sock ssl (s\<lparr>max_fd := m\<rparr>) = pool_ok sock ssl s"
  by (simp add: pool_ok_def slots_ok_def sets_ok_def)

lemma serve_all_ok:
  assumes "pool_ok sock ssl s" "os_ok os" "conf_ok conf"
  shows "post (serve_all os conf s) (\<lambda>s'. pool_ok sock ssl s' \<and> select_ok s' \<and> n_conns s' \<le> n_conns s)"
proof -
  have "covered 0 (min_max_fd s) s" by (simp add: covered_def)
  from serve_loop_ok [OF assms(2,3,1) this, of "n_conns s"] obtain r where
    r: "serve_loop (n_conns s) os conf 0 (min_max_fd s) s = Some r"
    "post r (\<lambda>(m', s'). pool_ok sock ssl s' \<and> covered (n_conns s') m' s' \<and> n_conns s' \<le> n_conns s)"
    by auto
  moreover have "select_ok (s'\<lparr>max_fd := m'\<rparr>)" if "pool_ok sock ssl s'" "covered (n_conns s') m' s'" for m' s'
    using covered_sets [OF that] by (simp add: select_ok_def)
  ultimately show ?thesis by (auto simp: serve_all_def split: option.split)
qed

section \<open>Accepting\<close>

text \<open>A new connection takes the first free slot.\<close>

lemma add_slot:
  assumes s: "slots_ok s" and n: "n_conns s < MAX_CONNS"
    and k: "conn_idx k = int (n_conns s)" "conn_ok k" "fd_ok (conn_fd k)"
    and s': "n_conns s' = Suc (n_conns s)" "sv_next s' = Suc (sv_next s)"
      "st_heap s' = (st_heap s)(sv_next s \<mapsto> k)"
      "length (conns s') \<le> MAX_CONNS + 1" "n_conns s < length (conns s')"
      "conns s' ! n_conns s = Some (sv_next s)" "\<forall>j < n_conns s. conns s' ! j = conns s ! j"
  shows "slots_ok s'"
proof -
  have fresh: "\<And>d k. st_heap s d = Some k \<Longrightarrow> d \<noteq> sv_next s"
    using s by (auto simp: slots_ok_def)
  have "\<exists>d m. conns s' ! j = Some d \<and> st_heap s' d = Some m \<and> conn_idx m = int j \<and> conn_ok m \<and> fd_ok (conn_fd m)"
    if j: "j < n_conns s'" for j
  proof (cases "j = n_conns s")
    case True
    then show ?thesis using k s' by simp
  next
    case False
    then have j': "j < n_conns s" using j s'(1) by simp
    then obtain d m where d: "conns s ! j = Some d" "st_heap s d = Some m" "conn_idx m = int j"
        "conn_ok m" "fd_ok (conn_fd m)"
      using s unfolding slots_ok_def by blast
    then show ?thesis using fresh [OF d(2)] j' s' by simp
  qed
  moreover have "\<exists>j < n_conns s'. conns s' ! j = Some d" if d: "st_heap s' d = Some m" for d m
  proof (cases "d = sv_next s")
    case True
    then show ?thesis using s' by (intro exI [of _ "n_conns s"]) simp
  next
    case False
    then have "st_heap s d = Some m" using d s'(3) by simp
    from slot_of [OF s this] obtain j where "j < n_conns s" "conns s ! j = Some d" by blast
    then show ?thesis using s'(1,7) by (intro exI [of _ j]) simp
  qed
  moreover have "\<forall>d \<ge> sv_next s'. st_heap s' d = None"
    using s s'(2,3) by (auto simp: slots_ok_def)
  ultimately show ?thesis using s'(1,4,5) n unfolding slots_ok_def by auto
qed

lemma sets_grow:
  assumes "sets_ok sock ssl s" "st_heap s c = None" "fd_ok (conn_fd k)"
    and s': "st_heap s' = (st_heap s)(c \<mapsto> k)" "min_max_fd s' = min_max_fd s"
      "read_set s' = insert (conn_fd k) (read_set s)" "write_set s' = write_set s"
  shows "sets_ok sock ssl s'"
proof -
  have "watch_all (st_heap s) \<subseteq> watch_all (st_heap s')"
  proof
    fix fd
    assume "fd \<in> watch_all (st_heap s)"
    then obtain d m where d: "st_heap s d = Some m" "fd \<in> watched m" by (auto simp: watch_all_def)
    then have "d \<noteq> c" using assms(2) by auto
    then show "fd \<in> watch_all (st_heap s')" using d s'(1) watch_all_in [of "st_heap s'" d m] by auto
  qed
  moreover have "conn_fd k \<in> watch_all (st_heap s')"
    using s'(1) watch_all_in [of "st_heap s'" c k] fd_watched [OF assms(3)] by auto
  moreover have "client_fds (st_heap s) \<subseteq> client_fds (st_heap s')"
  proof
    fix fd
    assume "fd \<in> client_fds (st_heap s)"
    then obtain d m where d: "st_heap s d = Some m" "fd = conn_fd m" by (auto simp: client_fds_def)
    then have "d \<noteq> c" using assms(2) by auto
    then show "fd \<in> client_fds (st_heap s')" using d s'(1) client_fds_in [of "st_heap s'" d m] by auto
  qed
  ultimately show ?thesis using assms(1) s'(2-4) unfolding sets_ok_def by auto
qed

lemma cn_new_ok:
  "conn_ok ((cn_new fd i)\<lparr>conn_req := (conn_req (cn_new fd i))\<lparr>req_addr := ad, req_port := p\<rparr>\<rparr>)"
proof -
  have "cgi_closed cgi_new \<and> cgi_phase cgi_new = CGI_IDLE"
    by (simp add: cgi_new_def cgi_reset_def close_pipe_def cgi_closed_def)
  moreover have "req_phase req_new = REQ_START" "resp_phase resp_new = RESP_READY"
    by (simp_all add: req_new_def req_reset_def resp_new_def resp_clear_def)
  moreover have "length (data buf_new) \<le> BUFSZ + 1" by (simp add: buf_new_def)
  ultimately show ?thesis
    by (simp add: cn_new_def conn_ok_def phases_ok_def phases_fit_def data_ok_def cgi_ok_def req_ok_new)
qed

text \<open>A state with a connection that is not in the pool yet, as between its allocation and its entry.\<close>

definition with_new :: "conn_t \<Rightarrow> trace \<Rightarrow> server \<Rightarrow> server" where
  "with_new k t s = s\<lparr>sv_next := Suc (sv_next s), st_heap := (st_heap s)(sv_next s \<mapsto> k), st_trace := t\<rparr>"

lemma put_new: "put_conn (sv_next s) m (with_new k t s) = with_new m t s"
  by (rule server.equality) (simp_all add: with_new_def put_conn_def)

lemma get_new: "get_conn (sv_next s) (with_new k t s) = Some k"
  by (simp add: with_new_def get_conn_def)

lemma log_new: "log_ev e (with_new k t s) = with_new k (e # t) s" "st_trace (with_new k t s) = t"
  by (simp_all add: with_new_def log_ev_def)

lemma add_new_ok:
  assumes p: "pool_ok sock ssl s" and n: "n_conns s < MAX_CONNS"
    and k: "conn_idx k = int (n_conns s)" "conn_ok k" "fd_ok (conn_fd k)"
  shows "safe (pl_add_conn (sv_next s) (with_new k t s)) (\<lambda>(rc, s'). rc = 1 \<and> pool_ok sock ssl s'
    \<and> n_conns s' = Suc (n_conns s) \<and> st_heap s' = (st_heap s)(sv_next s \<mapsto> k))"
proof -
  have ok: "slots_ok s" "sets_ok sock ssl s" using p by (simp_all add: pool_ok_def)
  have fresh: "st_heap s (sv_next s) = None" using ok(1) by (simp add: slots_ok_def)
  let ?s1 = "(with_new k t s)\<lparr>read_set := insert (conn_fd k) (read_set s)\<rparr>"
  define cs where "cs = (if n_conns s < length (conns s)
    then (conns s)[n_conns s := Some (sv_next s)] else conns s @ [Some (sv_next s)])"
  have len: "n_conns s \<le> length (conns s)" "length (conns s) \<le> MAX_CONNS + 1"
    using ok(1) by (simp_all add: slots_ok_def)
  have cs: "length cs \<le> MAX_CONNS + 1" "n_conns s < length cs" "cs ! n_conns s = Some (sv_next s)"
      "\<forall>j < n_conns s. cs ! j = conns s ! j"
    using len n by (auto simp: cs_def nth_append)
  have idx: "k\<lparr>conn_idx := int (n_conns s)\<rparr> = k" unfolding k(1) [symmetric] by simp
  have put: "put_conn (sv_next s) (k\<lparr>conn_idx := int (n_conns s)\<rparr>) ?s1 = ?s1"
    unfolding idx by (intro server.equality) (simp_all add: put_conn_def with_new_def)
  have e: "pl_add_conn (sv_next s) (with_new k t s) = Some (1, ?s1\<lparr>conns := cs, n_conns := Suc (n_conns s)\<rparr>)"
    using n k(3) len put
    by (auto simp: pl_add_conn_def set_fd_read_def FD_SET_def get_conn_def with_new_def conns_put_def cs_def Let_def)
  have "slots_ok (?s1\<lparr>conns := cs, n_conns := Suc (n_conns s)\<rparr>)"
    by (rule add_slot [OF ok(1) n k]) (use cs in \<open>simp_all add: with_new_def\<close>)
  moreover have "sets_ok sock ssl (?s1\<lparr>conns := cs, n_conns := Suc (n_conns s)\<rparr>)"
    by (rule sets_grow [OF ok(2) fresh k(3)]) (simp_all add: with_new_def)
  ultimately show ?thesis unfolding e by (simp add: pool_ok_def with_new_def)
qed

lemma cn_init_ssl_new:
  "\<exists>rc k' t'. cn_init_ssl os (sv_next s) (with_new k t s) = Some (rc, with_new k' t' s)
    \<and> (rc = 1 \<or> rc = - 1 \<and> \<not> conn_ssl k') \<and> (conn_ok k \<longrightarrow> conn_ok k') \<and> conn_fd k' = conn_fd k \<and> conn_idx k' = conn_idx k"
proof -
  have "conn_ok k \<longrightarrow> conn_ok (k\<lparr>conn_ssl := b, conn_req := (conn_req k)\<lparr>req_scheme := h\<rparr>\<rparr>)"
    "conn_ok k \<longrightarrow> conn_ok (k\<lparr>conn_ssl := b\<rparr>)" for b h
    by (simp_all add: conn_ok_def phases_ok_def data_ok_def)
  then show ?thesis
    unfolding cn_init_ssl_def get_new Option.bind.bind_lunit log_new put_new Let_def
    by (auto simp: log_new put_new)
qed

lemma free_new:
  assumes "pool_ok sock ssl s"
  shows "safe (cn_free (sv_next s) (log_ev e (with_new k t s)))
    (\<lambda>s'. pool_ok sock ssl s' \<and> n_conns s' = n_conns s \<and> st_heap s' = st_heap s)"
proof -
  have "st_heap s (sv_next s) = None" using assms by (simp add: pool_ok_def slots_ok_def)
  then have h: "(st_heap s)(sv_next s := None) = st_heap s" by (simp add: fun_upd_idem)
  from assms have "pool_ok sock ssl (s\<lparr>sv_next := Suc (sv_next s), st_trace := u\<rparr>)" for u
    by (auto simp: pool_ok_def slots_ok_def sets_ok_def)
  with h show ?thesis
    by (simp add: cn_free_def get_conn_def log_ev_def with_new_def Let_def)
qed

text \<open>Accepting never fails, and adds at most one connection.\<close>

lemma accept_conn_ok:
  assumes p: "pool_ok sock ssl s" and os: "os_ok os"
  shows "safe (liso_accept_conn os conf lsock ctx s) (\<lambda>(r, s'). pool_ok sock ssl s'
    \<and> n_conns s' = (if r = None then n_conns s else Suc (n_conns s)))"
proof (cases "os_accept os (st_trace s) lsock")
  case None
  then show ?thesis using p by (simp add: liso_accept_conn_def log_ev_def)
next
  case (Some r)
  obtain fd ad where r: "os_accept os (st_trace s) lsock = Some (fd, ad)" using Some by (cases r) auto
  note ad = os_okD(5) [OF os r]
  let ?s = "log_ev (EvAccept lsock (Some fd)) s"
  let ?ps = "\<lambda>s'. pool_ok sock ssl s' \<and> n_conns s' = n_conns s"
  consider "FD_SETSIZE \<le> fd" | "n_conns s = MAX_CONNS" | "fd < FD_SETSIZE" "n_conns s \<noteq> MAX_CONNS" by linarith
  then show ?thesis
  proof cases
    case 3
    have n: "n_conns s < MAX_CONNS" using 3(2) p by (simp add: pool_ok_def slots_ok_def)
    have "length ad < INET_ADDRSTRLEN" using ad by simp
    then obtain m where m: "mem_put (INET_ADDRSTRLEN + 1) 0 (ad @ [NUL]) (req_addr (conn_req (cn_new fd (int (n_conns s))))) = Some m"
      by (auto simp: mem_put_def)
    let ?port = "if ctx then conf_https_port conf else conf_http_port conf"
    define k where "k = (cn_new fd (int (n_conns s)))\<lparr>conn_req := (conn_req (cn_new fd (int (n_conns s))))
      \<lparr>req_addr := m, req_port := Some ?port\<rparr>\<rparr>"
    have k: "conn_idx k = int (n_conns s)" "conn_ok k" "fd_ok (conn_fd k)"
      using ad 3(1) by (simp_all add: k_def cn_new_ok fd_ok_def) (simp_all add: cn_new_def)
    define s1 where "s1 = with_new k (st_trace ?s) s"
    have al: "alloc_conn k ?s = (sv_next s, s1)"
      by (simp add: alloc_conn_def s1_def with_new_def put_conn_def log_ev_def)
    obtain rc k' t' where ssl: "(if ctx then cn_init_ssl os (sv_next s) s1 else Some (1, s1)) = Some (rc, with_new k' t' s)"
        "rc = 1 \<or> rc = - 1" "conn_ok k'" "conn_fd k' = conn_fd k" "conn_idx k' = conn_idx k"
      using cn_init_ssl_new [of os s k "st_trace ?s"] k(2) s1_def by (cases ctx) auto
    have e: "liso_accept_conn os conf lsock ctx s =
        (if rc < 0 then do { s \<leftarrow> cn_free (sv_next s) (log_ev (EvClose fd) (with_new k' t' s)); Some (None, s) }
         else do { (rc, s') \<leftarrow> pl_add_conn (sv_next s) (with_new k' t' s);
           Some (if rc < 0 then None else Some (sv_next s), s') })"
      using r 3 m al ssl(1) by (simp add: liso_accept_conn_def log_ev_def Let_def k_def)
    show ?thesis
    proof (cases "rc < 0")
      case True
      show ?thesis
        unfolding e if_P [OF True] by (rule safe_bindI [OF free_new [OF p]]) simp
    next
      case False
      have k': "conn_idx k' = int (n_conns s)" "fd_ok (conn_fd k')" using ssl k by simp_all
      show ?thesis
        unfolding e if_not_P [OF False]
        by (rule safe_bindI [OF add_new_ok [OF p n k'(1) ssl(3) k'(2)]]) auto
    qed
  qed (use p r in \<open>simp_all add: liso_accept_conn_def log_ev_def Let_def\<close>)
qed

text \<open>One turn of the select loop.\<close>

lemma pool_ok_ready [simp]:
  "pool_ok sock ssl (s\<lparr>read_ready := r\<rparr>) = pool_ok sock ssl s"
  "pool_ok sock ssl (s\<lparr>write_ready := r\<rparr>) = pool_ok sock ssl s"
  by (simp_all add: pool_ok_def slots_ok_def sets_ok_def)

lemma accept_ready_ok:
  assumes "pool_ok sock ssl s" "os_ok os"
  shows "post (accept_ready os conf lsock ctx s) (pool_ok sock ssl)"
  unfolding accept_ready_def
  by (rule post_bind, rule post_if, rule post_bindI [OF safe_post [OF accept_conn_ok [OF assms]]])
    (use assms(1) in auto)

lemma select_turn_ok:
  assumes "pool_ok sock ssl s" "select_ok s" "os_ok os" "conf_ok conf"
  shows "post (select_turn os conf lsock lssl s) (\<lambda>s'. pool_ok sock ssl s' \<and> select_ok s')"
proof -
  have sel: "select_ok (s\<lparr>read_ready := a, write_ready := b, st_trace := t\<rparr>)" for a b t
    using assms(2) by (simp add: select_ok_def)
  have turn: "post (do {
       s \<leftarrow> accept_ready os conf lsock False s1;
       s \<leftarrow> accept_ready os conf lssl True s;
       serve_all os conf s }) (\<lambda>s'. pool_ok sock ssl s' \<and> select_ok s')" if "pool_ok sock ssl s1" for s1
    apply (rule post_bindI [OF accept_ready_ok [OF that assms(3)]])
    apply (rule post_bindI [OF accept_ready_ok [OF _ assms(3)]], assumption)
    apply (rule post_mono [OF serve_all_ok [OF _ assms(3,4)]], assumption, simp)
    done
  show ?thesis
    using turn assms(1) sel
    by (auto simp: select_turn_def pl_ready_def log_ev_def Let_def split: option.split)
qed

end
