(* ===== verification/Startup_Inv.thy ===== *)
theory Startup_Inv
  imports Startup Lisod_Inv
begin

text \<open>
  Start-up, tear-down and the whole run of the server: start-up has no undefined behaviour and
  hands a well-formed pool to the loop, every state of the run is well formed, and the tear-down
  frees every connection once.
\<close>

section \<open>The pool at the ends of its life\<close>

lemma pl_new_ok:
  assumes "fd_ok sock" "fd_ok ssl"
  shows "safe (pl_new sock ssl tr) (\<lambda>s. pool_ok sock ssl s \<and> select_ok s \<and> n_conns s = 0
    \<and> st_heap s = Map.empty \<and> st_trace s = tr)"
  using assms
  by (simp add: pl_new_def pool_ok_def slots_ok_def sets_ok_def select_ok_def)

text \<open>Freeing slot after slot: the pointers left are those of the slots left.\<close>

lemma free_all_ok:
  "\<forall>j < n. \<exists>c k. conns s ! (i + j) = Some c \<and> st_heap s c = Some k \<Longrightarrow>
   \<forall>j < n. \<forall>j' < n. conns s ! (i + j) = conns s ! (i + j') \<longrightarrow> j = j' \<Longrightarrow>
   \<forall>c k. st_heap s c = Some k \<longrightarrow> (\<exists>j < n. conns s ! (i + j) = Some c) \<Longrightarrow>
   i + n \<le> length (conns s) \<Longrightarrow>
   safe (free_all i n s) (\<lambda>s'. st_heap s' = Map.empty)"
proof (induction n arbitrary: i s)
  case 0
  then show ?case by (simp add: fun_eq_iff)
next
  case (Suc n)
  obtain c k where c: "conns s ! i = Some c" "st_heap s c = Some k"
    using Suc.prems(1) by fastforce
  have "\<exists>t. cn_free c s = Some (s\<lparr>st_trace := t, st_heap := (st_heap s)(c := None)\<rparr>)"
    using c(2) by (cases "conn_ssl k")
      (auto simp: cn_free_def get_conn_def log_ev_def Let_def intro: exI [of _ "st_trace s"])
  then obtain t where f: "cn_free c s = Some (s\<lparr>st_trace := t, st_heap := (st_heap s)(c := None)\<rparr>)"
    by blast
  let ?s = "s\<lparr>st_trace := t, st_heap := (st_heap s)(c := None)\<rparr>"
  have "safe (free_all (Suc i) n ?s) (\<lambda>s'. st_heap s' = Map.empty)"
  proof (rule Suc.IH)
    show "\<forall>j < n. \<exists>d m. conns ?s ! (Suc i + j) = Some d \<and> st_heap ?s d = Some m"
    proof (intro allI impI)
      fix j
      assume j: "j < n"
      obtain d m where d: "conns s ! (i + Suc j) = Some d" "st_heap s d = Some m"
        using Suc.prems(1) j by (meson Suc_less_eq)
      have "conns s ! (i + Suc j) \<noteq> conns s ! (i + 0)"
        using Suc.prems(2) [rule_format, of "Suc j" 0] j by auto
      with d c show "\<exists>d m. conns ?s ! (Suc i + j) = Some d \<and> st_heap ?s d = Some m" by auto
    qed
    show "\<forall>j < n. \<forall>j' < n. conns ?s ! (Suc i + j) = conns ?s ! (Suc i + j') \<longrightarrow> j = j'"
    proof (intro allI impI)
      fix j j'
      assume "j < n" "j' < n" "conns ?s ! (Suc i + j) = conns ?s ! (Suc i + j')"
      then show "j = j'" using Suc.prems(2) [rule_format, of "Suc j" "Suc j'"] by simp
    qed
    show "\<forall>d m. st_heap ?s d = Some m \<longrightarrow> (\<exists>j < n. conns ?s ! (Suc i + j) = Some d)"
    proof (intro allI impI)
      fix d m
      assume d: "st_heap ?s d = Some m"
      then have "d \<noteq> c" "st_heap s d = Some m" by (auto split: if_splits)
      then obtain j where j: "j < Suc n" "conns s ! (i + j) = Some d" using Suc.prems(3) by blast
      with \<open>d \<noteq> c\<close> c(1) obtain j' where "j = Suc j'" by (cases j) auto
      with j show "\<exists>j < n. conns ?s ! (Suc i + j) = Some d" by auto
    qed
    show "Suc i + n \<le> length (conns ?s)" using Suc.prems(4) by simp
  qed
  then show ?case using c f Suc.prems(4) by (simp add: conns_get_def)
qed

lemma pl_free_ok:
  assumes "pool_ok sock ssl s"
  shows "safe (pl_free s) (\<lambda>s'. st_heap s' = Map.empty)"
proof -
  have s: "slots_ok s" using assms by (simp add: pool_ok_def)
  have inj: "\<forall>j < n_conns s. \<forall>j' < n_conns s. conns s ! (0 + j) = conns s ! (0 + j') \<longrightarrow> j = j'"
    using slot_inj [OF s] by auto
  show ?thesis
    unfolding pl_free_def
    by (rule free_all_ok [OF _ inj]) (use s slot_of [OF s] in \<open>auto simp: slots_ok_def\<close>)
qed

section \<open>Tear-down\<close>

text \<open>A fixed line always fits, whatever the date.\<close>

lemma log_fixed:
  assumes "log_os_ok lo" "log_format fmt [] = Some s" "no_nul s" "length s \<le> 64"
  shows "safe (log_line lo fmt [] l) (\<lambda>l'. log_fd l' = log_fd l)"
    "safe (log_errln lo fmt [] l) (\<lambda>l'. log_fd l' = log_fd l)"
proof -
  have d: "length (lo_date lo cs) < 64" for cs using assms(1) by (simp add: log_os_ok_def LOG_DATESZ_def)
  have "safe (log_marked mark lo fmt [] l) (\<lambda>l'. log_fd l' = log_fd l)"
    if "no_nul mark" "length mark \<le> 64" for mark
    using assms(4) that(2) d [of "log_calls l @ [LogLockf (log_fd l) F_LOCK (lo_lockf lo (log_calls l) (log_fd l) F_LOCK)]"]
    unfolding log_marked_run [OF assms(1,2,3) that(1)] Let_def
    by (simp add: LINESZ_def BUFSZ_def LOG_DATESZ_def)
  then show "safe (log_line lo fmt [] l) (\<lambda>l'. log_fd l' = log_fd l)"
    "safe (log_errln lo fmt [] l) (\<lambda>l'. log_fd l' = log_fd l)"
    by (simp_all add: log_line_def log_errln_def)
qed

definition proc_ok :: "proc \<Rightarrow> bool" where
  "proc_ok p \<longleftrightarrow> (\<forall>s. pr_pool p = Some s \<longrightarrow> pool_ok (pr_sock p) (pr_ssl_sock p) s)"

definition pool_empty :: "proc \<Rightarrow> bool" where
  "pool_empty p \<longleftrightarrow> (\<forall>s. pr_pool p = Some s \<longrightarrow> st_heap s = Map.empty)"

lemma pc_simps [simp]:
  "pr_sock (pc c p) = pr_sock p" "pr_ssl_sock (pc c p) = pr_ssl_sock p" "pr_ctx (pc c p) = pr_ctx p"
  "pr_pool (pc c p) = pr_pool p" "pr_lfp (pc c p) = pr_lfp p" "pr_log (pc c p) = pr_log p"
  "pr_calls (pc c p) = pr_calls p @ [c]"
  "pr_sock (pc_when b c p) = pr_sock p" "pr_ssl_sock (pc_when b c p) = pr_ssl_sock p"
  "pr_ctx (pc_when b c p) = pr_ctx p" "pr_pool (pc_when b c p) = pr_pool p"
  "pr_lfp (pc_when b c p) = pr_lfp p" "pr_log (pc_when b c p) = pr_log p"
  "pr_calls (pc_when b c p) = pr_calls p @ (if b then [c] else [])"
  by (simp_all add: pc_def pc_when_def)

lemma free_pool_ok:
  assumes "proc_ok p"
  shows "safe (free_pool p) (\<lambda>p'. pool_empty p' \<and> (\<exists>q. p' = p\<lparr>pr_pool := q\<rparr>))"
proof (cases "pr_pool p")
  case None
  then show ?thesis by (auto simp: free_pool_def pool_empty_def intro!: exI [of _ "pr_pool p"])
next
  case (Some s)
  then have "safe (pl_free s) (\<lambda>s'. st_heap s' = Map.empty)"
    using pl_free_ok assms by (auto simp: proc_ok_def)
  then show ?thesis
    by (auto simp: free_pool_def Some pool_empty_def intro!: safe_bindI)
qed

text \<open>The calls of the tear-down: the listeners, the lock file and the context, and the exit.\<close>

definition teardown_calls :: "int \<Rightarrow> proc \<Rightarrow> pcall list" where
  "teardown_calls rc p =
     [PcSetsockopt fd. fd \<leftarrow> [pr_sock p, pr_ssl_sock p], 0 < fd]
     @ [PcClose fd. fd \<leftarrow> [pr_sock p, pr_ssl_sock p, pr_lfp p], 0 < fd]
     @ (if pr_ctx p then [PcCtxFree] else []) @ [PcExit rc]"

lemma teardown_ok:
  assumes "proc_ok p" "log_os_ok (sy_log sys)"
  shows "safe (teardown sys rc p) (\<lambda>(rc', p'). rc' = rc \<and> pool_empty p'
    \<and> pr_calls p' = pr_calls p @ teardown_calls rc p)"
proof -
  define p1 where "p1 = pc_when (pr_ctx p) PcCtxFree (release_lock
    (pc_when (0 < pr_ssl_sock p) (PcClose (pr_ssl_sock p)) (pc_when (0 < pr_sock p) (PcClose (pr_sock p))
    (pc_when (0 < pr_ssl_sock p) (PcSetsockopt (pr_ssl_sock p))
    (pc_when (0 < pr_sock p) (PcSetsockopt (pr_sock p)) p)))))"
  have calls: "pr_calls p1 @ [PcExit rc] = pr_calls p @ teardown_calls rc p"
    by (simp add: p1_def teardown_calls_def release_lock_def)
  have "proc_ok p1" using assms(1) by (simp add: p1_def release_lock_def proc_ok_def)
  note free = free_pool_ok [OF this]
  have fmt: "log_format ''-------- Liso Server stops --------'' [] = Some ''-------- Liso Server stops --------''"
    by code_simp
  have stop: "safe (if log_inited (pr_log q) then do {
          l \<leftarrow> log_line (sy_log sys) ''-------- Liso Server stops --------'' [] (pr_log q);
          Some (q\<lparr>pr_log := log_stop l\<rparr>) }
        else Some q) (\<lambda>p'. pool_empty p' \<and> pr_calls p' = pr_calls q)" if "pool_empty q" for q
  proof (rule safe_if)
    show "safe (log_line (sy_log sys) ''-------- Liso Server stops --------'' [] (pr_log q) \<bind>
        (\<lambda>l. Some (q\<lparr>pr_log := log_stop l\<rparr>))) (\<lambda>p'. pool_empty p' \<and> pr_calls p' = pr_calls q)"
      by (rule safe_bindI [OF log_fixed(1) [OF assms(2) fmt]]) (use that in \<open>simp_all add: pool_empty_def\<close>)
  qed (use that in simp)
  have td: "teardown sys rc p = free_pool p1 \<bind> (\<lambda>p.
      (if log_inited (pr_log p) then do {
          l \<leftarrow> log_line (sy_log sys) ''-------- Liso Server stops --------'' [] (pr_log p);
          Some (p\<lparr>pr_log := log_stop l\<rparr>) }
        else Some p) \<bind> (\<lambda>p. Some (exit_with rc p)))"
    by (simp add: teardown_def p1_def Let_def release_lock_def)
  show ?thesis
    unfolding td
    apply (rule safe_bindI [OF free], elim conjE exE)
    apply (rule safe_bindI [OF stop], assumption)
    using calls by (simp add: exit_with_def pool_empty_def)
qed

section \<open>Start-up\<close>

text \<open>
  The contract of the calls of start-up: a listener's descriptor is below \<open>FD_SETSIZE\<close>, and the
  process number is a \<open>pid_t\<close>.
\<close>

definition sys_ok :: "sys \<Rightarrow> bool" where
  "sys_ok sys \<longleftrightarrow> (\<forall>cs. sy_socket sys cs < FD_SETSIZE) \<and> sy_getpid sys < 2 ^ 31 \<and> log_os_ok (sy_log sys)"

text \<open>A run that either exits with status 0 or 1 or goes on in a state with \<open>Q\<close>.\<close>

definition starts :: "'a run \<Rightarrow> ('a \<Rightarrow> proc \<Rightarrow> bool) \<Rightarrow> bool" where
  "starts r Q = safe r (\<lambda>x. case x of Inl (rc, p) \<Rightarrow> rc \<in> {EXIT_SUCCESS, EXIT_FAILURE}
     \<and> last (pr_calls p) = PcExit rc \<and> pr_calls p \<noteq> [] | Inr (v, p) \<Rightarrow> Q v p)"

lemma starts_go_on:
  assumes "starts r Q" "\<And>v p. Q v p \<Longrightarrow> starts (f v p) R"
  shows "starts (go_on r f) R"
  using assms(1) unfolding starts_def go_on_def
  by (rule safe_bindI) (use assms(2) in \<open>auto simp: starts_def split: sum.splits\<close>)

lemma starts_simps [simp]:
  "starts (Some (Inr (v, p))) Q = Q v p"
  "starts (Some (Inl (exit_with rc p))) Q = (rc \<in> {EXIT_SUCCESS, EXIT_FAILURE})"
  by (auto simp: starts_def exit_with_def)

lemma starts_if: "(b \<Longrightarrow> starts m Q) \<Longrightarrow> (\<not> b \<Longrightarrow> starts n Q) \<Longrightarrow> starts (if b then m else n) Q"
  by simp

lemma fail_start_ok:
  assumes "proc_ok p" "log_os_ok (sy_log sys)"
  shows "starts (fail_start sys p) Q"
  using teardown_ok [OF assms, of EXIT_FAILURE]
  by (auto simp: starts_def fail_start_def safe_def teardown_calls_def)

text \<open>What the steps of start-up leave alone.\<close>

definition same_globals :: "proc \<Rightarrow> proc \<Rightarrow> bool" where
  "same_globals p p' \<longleftrightarrow> pr_sock p' = pr_sock p \<and> pr_ssl_sock p' = pr_ssl_sock p
     \<and> pr_pool p' = pr_pool p \<and> pr_ctx p' = pr_ctx p"

lemma same_globals_simps [simp]:
  "same_globals p p" "same_globals p (pc c p') = same_globals p p'"
  "same_globals p (p'\<lparr>pr_lfp := fd\<rparr>) = same_globals p p'"
  "same_globals p (p'\<lparr>pr_log := l\<rparr>) = same_globals p p'"
  by (simp_all add: same_globals_def)

lemma proc_ok_simps [simp]:
  "proc_ok (pc c p) = proc_ok p" "proc_ok (p\<lparr>pr_lfp := fd\<rparr>) = proc_ok p"
  "proc_ok (p\<lparr>pr_log := l\<rparr>) = proc_ok p" "proc_ok (p\<lparr>pr_ctx := b\<rparr>) = proc_ok p"
  by (simp_all add: proc_ok_def)

lemma same_globals_ok: "same_globals p p' \<Longrightarrow> proc_ok p \<Longrightarrow> proc_ok p'"
  by (simp add: same_globals_def proc_ok_def)

lemma safe_starts: "safe m P \<Longrightarrow> (\<And>x. P x \<Longrightarrow> starts (f x) Q) \<Longrightarrow> starts (m \<bind> f) Q"
  unfolding starts_def by (rule safe_bindI)

lemma open_listener_ok:
  assumes "proc_ok p" "sys_ok sys"
  shows "starts (open_listener_socket sys port p) (\<lambda>fd p'. fd_ok fd \<and> same_globals p p')"
proof -
  have lo: "log_os_ok (sy_log sys)" and fd: "sy_socket sys (pr_calls p) < FD_SETSIZE"
    using assms(2) by (simp_all add: sys_ok_def)
  have fmt: "log_format ''Failed creating socket.'' [] = Some ''Failed creating socket.''" by code_simp
  have "starts (do {
        l \<leftarrow> log_errln (sy_log sys) ''Failed creating socket.'' [] l;
        fail_start sys (q\<lparr>pr_log := l\<rparr>) }) Q" if "proc_ok q" for q l and Q :: "int \<Rightarrow> proc \<Rightarrow> bool"
    by (rule safe_starts [OF log_fixed(2) [OF lo fmt]]) (use that lo in \<open>simp_all add: fail_start_ok\<close>)
  then show ?thesis
    unfolding open_listener_socket_def Let_def
    by (intro starts_if fail_start_ok) (use assms(1) lo fd in \<open>simp_all add: fd_ok_def\<close>)
qed

lemma new_ssl_ctx_ok:
  assumes "proc_ok p" "sys_ok sys" "is_cstr prv" "is_cstr crt"
  shows "starts (new_ssl_ctx sys prv crt p) (\<lambda>ctx p'. ctx \<and> same_globals p p')"
proof -
  have c: "cstr_at prv 0 = Some (cstr prv)" "cstr_at crt 0 = Some (cstr crt)"
    using assms(3,4) by (simp_all add: cstr_at_cstr)
  show ?thesis
    unfolding new_ssl_ctx_def Let_def c Option.bind.bind_lunit
    by (intro starts_if fail_start_ok) (use assms(1,2) in \<open>simp_all add: sys_ok_def\<close>)
qed

lemma daemonize_ok:
  assumes "proc_ok p" "sys_ok sys" "is_cstr lock_file"
  shows "starts (daemonize sys lock_file p) (\<lambda>_ p'. same_globals p p')"
proof -
  have "sy_getpid sys < 10 ^ 10" using assms(2) by (simp add: sys_ok_def)
  then have "length (show_nat (sy_getpid sys)) \<le> 10" by (rule length_show_nat) simp
  then have l: "length (show_int (int (sy_getpid sys)) @ [LF]) < 256" by (simp add: show_int_def)
  have n: "no_nul (show_int (int (sy_getpid sys)) @ [LF])" by simp
  note str = str_put_in [OF l] cstr_at_cstr [OF is_cstr_append_NUL(1)] cstr_append_NUL [OF n]
  have c: "cstr_at lock_file 0 = Some (cstr lock_file)" using assms(3) by (simp add: cstr_at_cstr)
  show ?thesis
    unfolding daemonize_def Let_def c Option.bind.bind_lunit str
    by (intro starts_if) (simp_all add: EXIT_SUCCESS_def EXIT_FAILURE_def)
qed

text \<open>The arguments: nine strings, with a document root that is not empty.\<close>

definition argv_ok :: "mem list \<Rightarrow> bool" where
  "argv_ok argv \<longleftrightarrow> length argv = 9 \<and> list_all is_cstr argv \<and> cstr (argv ! 5) \<noteq> []"

lemma read_conf_ok:
  assumes "argv_ok argv"
  shows "safe (read_conf argv) (\<lambda>conf. conf_ok conf \<and> is_cstr (conf_lock conf) \<and> is_cstr (conf_log conf)
    \<and> is_cstr (conf_prv conf) \<and> is_cstr (conf_crt conf))"
proof -
  have "is_cstr (argv ! i)" if "i < 9" for i
    using assms that by (simp add: argv_ok_def list_all_length)
  then show ?thesis using assms
    by (simp add: read_conf_def atoi_arg_def cstr_at_cstr conf_ok_def argv_ok_def)
qed

lemma start_pool_ok:
  assumes "proc_ok p" "pr_pool p = None" "sys_ok sys"
  shows "starts (start_pool sys conf p) (\<lambda>_ p'. \<exists>s. pr_pool p' = Some s
    \<and> pool_ok (pr_sock p') (pr_ssl_sock p') s \<and> select_ok s \<and> st_heap s = Map.empty \<and> st_trace s = [])"
  unfolding start_pool_def Let_def
proof (rule starts_go_on [OF open_listener_ok [OF assms(1,3)]])
  fix fd p1
  assume 1: "fd_ok fd \<and> same_globals p p1"
  then have ok: "proc_ok (p1\<lparr>pr_sock := fd\<rparr>)" using assms(2) by (simp add: proc_ok_def same_globals_def)
  show "starts (go_on (open_listener_socket sys (conf_https_port conf) (p1\<lparr>pr_sock := fd\<rparr>)) (\<lambda>fd p.
      pl_new (pr_sock (p\<lparr>pr_ssl_sock := fd\<rparr>)) (pr_ssl_sock (p\<lparr>pr_ssl_sock := fd\<rparr>)) [] \<bind>
      (\<lambda>s. Some (Inr ((), p\<lparr>pr_ssl_sock := fd, pr_pool := Some s\<rparr>)))))
    (\<lambda>_ p'. \<exists>s. pr_pool p' = Some s \<and> pool_ok (pr_sock p') (pr_ssl_sock p') s \<and> select_ok s \<and> st_heap s = Map.empty \<and> st_trace s = [])"
  proof (rule starts_go_on [OF open_listener_ok [OF ok assms(3)]])
    fix fd2 p2
    assume 2: "fd_ok fd2 \<and> same_globals (p1\<lparr>pr_sock := fd\<rparr>) p2"
    then have s: "pr_sock (p2\<lparr>pr_ssl_sock := fd2\<rparr>) = fd" "pr_ssl_sock (p2\<lparr>pr_ssl_sock := fd2\<rparr>) = fd2"
      by (simp_all add: same_globals_def)
    have f: "fd_ok fd" "fd_ok fd2" using 1 2 by simp_all
    show "starts (pl_new (pr_sock (p2\<lparr>pr_ssl_sock := fd2\<rparr>)) (pr_ssl_sock (p2\<lparr>pr_ssl_sock := fd2\<rparr>)) [] \<bind>
        (\<lambda>s. Some (Inr ((), p2\<lparr>pr_ssl_sock := fd2, pr_pool := Some s\<rparr>))))
      (\<lambda>_ p'. \<exists>s. pr_pool p' = Some s \<and> pool_ok (pr_sock p') (pr_ssl_sock p') s \<and> select_ok s \<and> st_heap s = Map.empty \<and> st_trace s = [])"
      unfolding s by (rule safe_starts [OF pl_new_ok [OF f]]) (use s in simp)
  qed
qed

lemma start_log_ok:
  assumes "proc_ok p" "sys_ok sys" "is_cstr (conf_log conf)"
  shows "starts (start_log sys conf p) (\<lambda>_ p'. same_globals p p')"
proof -
  have lo: "log_os_ok (sy_log sys)" using assms(2) by (simp add: sys_ok_def)
  have fmt: "log_format ''-------- Liso Server starts --------'' [] = Some ''-------- Liso Server starts --------''"
    by code_simp
  have c: "cstr_at (conf_log conf) 0 = Some (cstr (conf_log conf))" using assms(3) by (simp add: cstr_at_cstr)
  have log: "starts (log_line (sy_log sys) ''-------- Liso Server starts --------'' [] l \<bind>
      (\<lambda>l. Some (Inr ((), q\<lparr>pr_log := l\<rparr>)))) (\<lambda>_ p'. same_globals p p')" if "same_globals p q" for q l
    by (rule safe_starts [OF log_fixed(1) [OF lo fmt]]) (use that in simp_all)
  show ?thesis
    unfolding start_log_def Let_def c Option.bind.bind_lunit case_prod_beta
    using log by (intro starts_if fail_start_ok) (simp_all add: assms(1) lo same_globals_def)
qed

lemma lisod_start_ok:
  assumes "argv_ok argv" "sys_ok sys"
  shows "starts (lisod_start sys argv proc0) (\<lambda>conf p. conf_ok conf \<and> pr_ctx p
    \<and> (\<exists>s. pr_pool p = Some s \<and> pool_ok (pr_sock p) (pr_ssl_sock p) s \<and> select_ok s
        \<and> st_heap s = Map.empty \<and> st_trace s = []))"
proof -
  let ?P = "\<lambda>p. \<exists>s. pr_pool p = Some s \<and> pool_ok (pr_sock p) (pr_ssl_sock p) s \<and> select_ok s
        \<and> st_heap s = Map.empty \<and> st_trace s = []"
  have 0: "proc_ok proc0" "pr_pool proc0 = None" by (simp_all add: proc_ok_def proc0_def)
  have P: "?P p' \<and> proc_ok p'" if "?P p" "same_globals p p'" for p p'
    using that by (auto simp: same_globals_def proc_ok_def)
  have len: "length argv = ARG_CNT + 1" using assms(1) by (simp add: argv_ok_def ARG_CNT_def)
  have PO: "proc_ok p" if "?P p" for p using that by (auto simp: proc_ok_def)
  show ?thesis
    unfolding lisod_start_def if_not_P [OF not_not [THEN iffD2, OF len]]
    apply (rule safe_starts [OF read_conf_ok [OF assms(1)]], elim conjE)
    apply (rule starts_go_on [OF start_pool_ok [OF 0 assms(2)]])
    apply (rule starts_go_on [OF daemonize_ok [OF PO assms(2)]], assumption, assumption)
    apply (drule P, assumption, elim conjE)
    apply (rule starts_go_on [OF new_ssl_ctx_ok [OF _ assms(2)]], assumption, assumption, assumption)
    apply (elim conjE, drule P, assumption, elim conjE)
    apply (rule starts_go_on [OF start_log_ok [OF _ assms(2)]])
    by (auto simp: same_globals_def)
qed

section \<open>The run\<close>

lemma reap_frame:
  assumes "reap sys p = Some p'"
  shows "same_globals p p' \<and> pr_log p' = pr_log p"
proof (rule reap.raw_induct [of "\<lambda>sys p p'. same_globals p p' \<and> pr_log p' = pr_log p", OF _ assms])
  fix rec :: "sys \<Rightarrow> proc \<Rightarrow> proc option" and sys p p'
  assume IH: "\<And>sys p p'. rec sys p = Some p' \<Longrightarrow> same_globals p p' \<and> pr_log p' = pr_log p"
    and "(let pid = sy_waitpid sys (pr_calls p); p = pc (PcWaitpid pid) p
      in if 0 < pid then rec sys p else Some p) = Some p'"
  then show "same_globals p p' \<and> pr_log p' = pr_log p"
    by (auto simp: Let_def same_globals_def dest!: IH split: if_splits)
qed

text \<open>\<open>waitpid\<close> reports at most \<open>n\<close> children: the loop ends.\<close>

definition reaped :: "pcall list \<Rightarrow> nat" where
  "reaped cs = length [c \<leftarrow> cs. case c of PcWaitpid pid \<Rightarrow> 0 < pid | _ \<Rightarrow> False]"

lemma reap_returns:
  assumes "\<And>cs. n \<le> reaped cs \<Longrightarrow> sy_waitpid sys cs \<le> 0"
  shows "\<exists>p'. reap sys p = Some p'"
proof (induction "n - reaped (pr_calls p)" arbitrary: p rule: less_induct)
  case less
  let ?pid = "sy_waitpid sys (pr_calls p)"
  show ?case
  proof (cases "0 < ?pid")
    case True
    then have "reaped (pr_calls p) < n" using assms [of "pr_calls p"] by (meson not_less)
    then have "n - reaped (pr_calls (pc (PcWaitpid ?pid) p)) < n - reaped (pr_calls p)"
      using True by (simp add: reaped_def)
    from less [OF this] show ?thesis using True by (subst reap.simps) (simp add: Let_def)
  next
    case False
    then show ?thesis by (subst reap.simps) (simp add: Let_def)
  qed
qed

definition running_ok :: "proc \<Rightarrow> bool" where
  "running_ok p \<longleftrightarrow> (\<exists>s. pr_pool p = Some s \<and> pool_ok (pr_sock p) (pr_ssl_sock p) s \<and> select_ok s)"

lemma running_same: "running_ok p \<Longrightarrow> same_globals p p' \<Longrightarrow> running_ok p'"
  by (simp add: running_ok_def same_globals_def)

lemma handler_frame:
  "signal_handler sys sig p = Some (Inr ((), p')) \<Longrightarrow> same_globals p p' \<and> pr_log p' = pr_log p"
  by (cases sig) (auto simp: signal_handler_def dest: reap_frame)

lemma step_running:
  assumes "lisod_step os sys conf (Running p) (Running p')" "running_ok p" "os_ok os" "conf_ok conf"
  shows "running_ok p'"
  using assms(1)
proof (rule lisod_stepE)
  fix s s'
  assume turn: "pr_pool p = Some s" "select_turn os conf (pr_sock p) (pr_ssl_sock p) s = Some s'"
    "Running p' = Running (p\<lparr>pr_pool := Some s'\<rparr>)"
  then have "pool_ok (pr_sock p) (pr_ssl_sock p) s" "select_ok s"
    using assms(2) by (simp_all add: running_ok_def)
  from postD [OF select_turn_ok [OF this assms(3,4)] turn(2)] show ?thesis
    using turn(3) by (simp add: running_ok_def)
next
  fix sig p''
  assume "signal_handler sys sig p = Some (Inr ((), p''))" "Running p' = Running p''"
  then show ?thesis using running_same [OF assms(2)] handler_frame by simp
qed simp

lemma reach_running:
  assumes "argv_ok argv" "sys_ok sys" "os_ok os"
  shows "lisod_reach os sys argv conf x \<Longrightarrow> conf_ok conf \<and> (\<forall>p. x = Running p \<longrightarrow> running_ok p)"
proof (induction rule: lisod_reach.induct)
  case (started p)
  then show ?case
    using lisod_start_ok [OF assms(1,2)] by (auto simp: starts_def running_ok_def)
next
  case (stepped x y)
  show ?case
  proof (intro conjI allI impI)
    fix q
    assume y: "y = Running q"
    show "running_ok q"
    proof (cases x)
      case (Running p)
      then show ?thesis using step_running [of os sys conf p q] stepped y assms(3) by simp
    next
      case (Stopped rc p)
      then show ?thesis using stepped.hyps(2) by simp
    qed
  qed (use stepped.IH in simp)
qed

text \<open>A run that has stopped did so in the tear-down, with status 0.\<close>

lemma step_stopped:
  assumes "lisod_step os sys conf (Running p) (Stopped rc p')" "running_ok p" "log_os_ok (sy_log sys)"
  shows "rc = EXIT_SUCCESS \<and> pool_empty p' \<and> pr_calls p' = pr_calls p @ teardown_calls rc p"
  using assms(1)
proof (rule lisod_stepE)
  fix sig rc' p''
  assume "signal_handler sys sig p = Some (Inl (rc', p''))" "Stopped rc p' = Stopped rc' p''"
  then have t: "teardown sys EXIT_SUCCESS p = Some (rc, p')"
    by (cases sig) (auto simp: signal_handler_def)
  have "proc_ok p" using assms(2) by (auto simp: running_ok_def proc_ok_def)
  from teardown_ok [OF this assms(3), of EXIT_SUCCESS] show ?thesis using t by (simp add: safe_def)
qed simp_all

section \<open>Successful start-up\<close>

text \<open>Every call succeeds, but for the last check of the key, which start-up ignores.\<close>

definition sys_good :: "sys \<Rightarrow> bool" where
  "sys_good sys \<longleftrightarrow> (\<forall>cs. 0 \<le> sy_socket sys cs \<and> sy_fork sys cs = 0 \<and> sy_ctx_new sys cs)
     \<and> (\<forall>cs fd port. sy_bind sys cs fd port) \<and> (\<forall>cs fd. sy_listen sys cs fd)
     \<and> (\<forall>cs name. 0 \<le> sy_open sys cs name) \<and> (\<forall>cs fd. 0 \<le> sy_tlock sys cs fd)
     \<and> (\<forall>cs name. sy_ctx_key sys cs name \<and> sy_ctx_cert sys cs name)
     \<and> (\<forall>cs fd. 0 \<le> lo_lockf (sy_log sys) cs fd F_TEST)"

definition goes :: "'a run \<Rightarrow> ('a \<Rightarrow> proc \<Rightarrow> bool) \<Rightarrow> bool" where
  "goes r Q \<longleftrightarrow> (\<exists>v p. r = Some (Inr (v, p)) \<and> Q v p)"

lemma goes_simps [simp]: "goes (Some (Inr (v, p))) Q = Q v p"
  by (simp add: goes_def)

lemma goes_go_on: "goes r Q \<Longrightarrow> (\<And>v p. Q v p \<Longrightarrow> goes (f v p) R) \<Longrightarrow> goes (go_on r f) R"
  by (auto simp: goes_def go_on_def)

lemma goes_mono: "goes r Q \<Longrightarrow> (\<And>v p. Q v p \<Longrightarrow> R v p) \<Longrightarrow> goes r R"
  by (auto simp: goes_def)

lemma safe_goes: "safe m P \<Longrightarrow> (\<And>x. P x \<Longrightarrow> goes (f x) Q) \<Longrightarrow> goes (m \<bind> f) Q"
  by (auto simp: safe_def)

lemma open_listener_goes:
  assumes "sys_good sys" "sys_ok sys"
  shows "goes (open_listener_socket sys port p) (\<lambda>fd p'. fd_ok fd \<and> pr_log p' = pr_log p
    \<and> pr_sock p' = pr_sock p \<and> fd = sy_socket sys (pr_calls p) \<and> pr_calls p' \<noteq> [])"
  using assms by (auto simp: open_listener_socket_def Let_def sys_good_def sys_ok_def fd_ok_def pc_def not_less [symmetric])

lemma daemonize_goes:
  assumes "sys_good sys" "sys_ok sys" "is_cstr lock_file"
  shows "goes (daemonize sys lock_file p) (\<lambda>_ p'. pr_log p' = pr_log p \<and> 0 \<le> pr_lfp p'
    \<and> pr_sock p' = pr_sock p \<and> pr_ssl_sock p' = pr_ssl_sock p \<and> pr_pool p' = pr_pool p)"
proof -
  have "sy_getpid sys < 10 ^ 10" using assms(2) by (simp add: sys_ok_def)
  then have "length (show_nat (sy_getpid sys)) \<le> 10" by (rule length_show_nat) simp
  then have l: "length (show_int (int (sy_getpid sys)) @ [LF]) < 256" by (simp add: show_int_def)
  have n: "no_nul (show_int (int (sy_getpid sys)) @ [LF])" by simp
  note str = str_put_in [OF l] cstr_at_cstr [OF is_cstr_append_NUL(1)] cstr_append_NUL [OF n]
  have c: "cstr_at lock_file 0 = Some (cstr lock_file)" using assms(3) by (simp add: cstr_at_cstr)
  have g: "sy_fork sys cs = 0" "\<not> sy_open sys cs name < 0" "\<not> sy_tlock sys cs fd < 0"
      "0 \<le> sy_open sys cs name" for cs name fd
    using assms(1) by (simp_all add: sys_good_def not_less)
  show ?thesis
    unfolding daemonize_def Let_def c Option.bind.bind_lunit str
    by (simp add: g)
qed

lemma new_ssl_ctx_goes:
  assumes "sys_good sys" "is_cstr prv" "is_cstr crt"
  shows "goes (new_ssl_ctx sys prv crt p) (\<lambda>ctx p'. ctx \<and> pr_log p' = pr_log p \<and> 0 \<le> pr_lfp p' = (0 \<le> pr_lfp p)
    \<and> pr_sock p' = pr_sock p \<and> pr_ssl_sock p' = pr_ssl_sock p \<and> pr_pool p' = pr_pool p)"
  using assms by (simp add: new_ssl_ctx_def cstr_at_cstr sys_good_def)

lemma start_log_goes:
  assumes "sys_good sys" "log_os_ok (sy_log sys)" "is_cstr (conf_log conf)" "log_fd (pr_log p) \<le> 0"
  shows "goes (start_log sys conf p) (\<lambda>_ p'. pr_sock p' = pr_sock p \<and> pr_ssl_sock p' = pr_ssl_sock p
    \<and> pr_ctx p' = pr_ctx p \<and> pr_pool p' = pr_pool p)"
proof -
  have fmt: "log_format ''-------- Liso Server starts --------'' [] = Some ''-------- Liso Server starts --------''"
    by code_simp
  have c: "cstr_at (conf_log conf) 0 = Some (cstr (conf_log conf))" using assms(3) by (simp add: cstr_at_cstr)
  have t: "0 \<le> lo_lockf (sy_log sys) cs fd F_TEST" for cs fd using assms(1) by (simp add: sys_good_def)
  have init: "fst (log_init (sy_log sys) name l) = 1" if "log_fd l \<le> 0" for name l
    using that t by (simp add: log_init_def log_lockf_def log_do_def Let_def not_less)
  have log: "goes (log_line (sy_log sys) ''-------- Liso Server starts --------'' [] l \<bind>
      (\<lambda>l. Some (Inr ((), q\<lparr>pr_log := l\<rparr>)))) Q" if "\<And>l. Q () (q\<lparr>pr_log := l\<rparr>)" for q l Q
    by (rule safe_goes [OF log_fixed(1) [OF assms(2) fmt]]) (use that in simp_all)
  show ?thesis
    unfolding start_log_def Let_def c Option.bind.bind_lunit case_prod_beta
    using assms(4) by (simp add: init log)
qed

lemma lisod_start_goes:
  assumes "argv_ok argv" "sys_ok sys" "sys_good sys"
  shows "goes (lisod_start sys argv proc0) (\<lambda>conf p. read_conf argv = Some conf \<and> fd_ok (pr_sock p)
    \<and> fd_ok (pr_ssl_sock p) \<and> pr_ctx p \<and> pr_sock p = sy_socket sys []
    \<and> (\<exists>cs. cs \<noteq> [] \<and> pr_ssl_sock p = sy_socket sys cs)
    \<and> pr_pool p = pl_new (pr_sock p) (pr_ssl_sock p) [])"
proof -
  have lo: "log_os_ok (sy_log sys)" using assms(2) by (simp add: sys_ok_def)
  have len: "length argv = ARG_CNT + 1" using assms(1) by (simp add: argv_ok_def ARG_CNT_def)
  obtain conf where conf: "read_conf argv = Some conf" "is_cstr (conf_lock conf)" "is_cstr (conf_log conf)"
      "is_cstr (conf_prv conf)" "is_cstr (conf_crt conf)"
    using read_conf_ok [OF assms(1)] by (auto simp: safe_def)
  have pool: "goes (start_pool sys conf p) (\<lambda>_ p'. fd_ok (pr_sock p') \<and> fd_ok (pr_ssl_sock p')
      \<and> pr_log p' = pr_log p \<and> pr_sock p' = sy_socket sys (pr_calls p)
      \<and> (\<exists>cs. cs \<noteq> [] \<and> pr_ssl_sock p' = sy_socket sys cs)
      \<and> pr_pool p' = pl_new (pr_sock p') (pr_ssl_sock p') [])" for p
    unfolding start_pool_def Let_def
    apply (rule goes_go_on [OF open_listener_goes [OF assms(3,2)]])
    apply (rule goes_go_on [OF open_listener_goes [OF assms(3,2)]])
    by (auto simp: pl_new_def)
  show ?thesis
    unfolding lisod_start_def if_not_P [OF not_not [THEN iffD2, OF len]] conf(1) Option.bind.bind_lunit
    apply (rule goes_go_on [OF pool])
    apply (rule goes_go_on [OF daemonize_goes [OF assms(3,2) conf(2)]])
    apply (rule goes_go_on [OF new_ssl_ctx_goes [OF assms(3) conf(4,5)]])
    apply (rule goes_go_on [OF start_log_goes [OF assms(3) lo conf(3)]])
    by (auto simp: proc0_def log_state0_def)
qed

end
