(* ===== verification/Examples.thy ===== *)
theory Examples
  imports Startup_Inv
begin

text \<open>
  A concrete environment, configuration and server, on which the general properties are
  evaluated: every client sends one small request, every send is accepted whole, every path is a
  file of five bytes, and start-up succeeds.
\<close>

definition ex_get :: string where
  "ex_get = ''GET /a.html HTTP/1.1'' @ CRLF @ ''Host: liso'' @ CRLF @ CRLF"

definition ex_os :: os where
  "ex_os = \<lparr>
     os_recv = (\<lambda>_ _ n. Some (take n ex_get)),
     os_send = (\<lambda>_ _ bs. int (length bs)),
     os_read = (\<lambda>_ _ _. Some []),
     os_write = (\<lambda>_ _ bs. int (length bs)),
     os_accept = (\<lambda>_ _. Some (5, ''10.0.0.1'')),
     os_pipe = (\<lambda>_. Some (7, 8)),
     os_fork = (\<lambda>_. Some 100),
     os_open = (\<lambda>_ _. Some 9),
     os_stat = (\<lambda>_ _. Some \<lparr>st_isdir = False, st_size = 5, st_mtime = 0\<rparr>),
     os_mmap = (\<lambda>_ _ n. if 0 < n then Some (replicate (nat n) (CHR ''x'')) else None),
     os_ssl_new = (\<lambda>_ _. True),
     os_ssl_set_fd = (\<lambda>_ _. True),
     os_ssl_accept = (\<lambda>_ _. 1),
     os_select = (\<lambda>_ n r w. Some ({fd \<in> r. fd < n}, {fd \<in> w. fd < n})),
     os_time = (\<lambda>_. 0),
     os_date = (\<lambda>_. ''now'')\<rparr>"

lemma ex_os_ok: "os_ok ex_os"
  by (simp add: os_ok_def ex_os_def no_nul_def INET_ADDRSTRLEN_def DATESZ_def)

definition ex_argv :: "mem list" where
  "ex_argv = map lit [''lisod'', ''8080'', ''8443'', ''log'', ''lock'', ''www'', ''cgi'', ''key'', ''crt'']"

definition ex_log_os :: log_os where
  "ex_log_os = \<lparr>lo_open = (\<lambda>_ _. 6), lo_lockf = (\<lambda>_ _ _. 0), lo_date = (\<lambda>_. ''now'')\<rparr>"

definition ex_sys :: sys where
  "ex_sys = \<lparr>
     sy_socket = (\<lambda>cs. if cs = [] then 3 else 4),
     sy_bind = (\<lambda>_ _ _. True), sy_listen = (\<lambda>_ _. True), sy_dtablesize = 1024,
     sy_fork = (\<lambda>_. 0), sy_getpid = 4711, sy_open = (\<lambda>_ _. 5), sy_tlock = (\<lambda>_ _. 0),
     sy_ctx_new = (\<lambda>_. True), sy_ctx_key = (\<lambda>_ _. True), sy_ctx_cert = (\<lambda>_ _. True),
     sy_ctx_check = (\<lambda>_. False),
     sy_waitpid = (\<lambda>cs. if reaped cs < 2 then 17 else 0),
     sy_log = ex_log_os\<rparr>"

lemma ex_sys_ok: "sys_ok ex_sys"
  by (simp add: sys_ok_def ex_sys_def FD_SETSIZE_def log_os_ok_def ex_log_os_def no_nul_def LOG_DATESZ_def)

lemma ex_argv_ok: "argv_ok ex_argv"
  by (simp add: argv_ok_def ex_argv_def lit_def cstr_def is_cstr_def)

definition ex_conf :: conf_t where
  "ex_conf = the (read_conf ex_argv)"

lemma ex_conf_ok: "conf_ok ex_conf" "read_conf ex_argv = Some ex_conf"
  using read_conf_ok [OF ex_argv_ok] by (auto simp: ex_conf_def safe_def)

text \<open>The server after start-up, and with one accepted connection.\<close>

definition ex_server0 :: server where
  "ex_server0 = the (pl_new 3 4 [])"

definition ex_server :: server where
  "ex_server = snd (the (liso_accept_conn ex_os ex_conf 3 False ex_server0))"

lemma ex_server0_ok: "pool_ok 3 4 ex_server0 \<and> select_ok ex_server0 \<and> n_conns ex_server0 = 0"
  using pl_new_ok [of 3 4 "[]"] by (auto simp: fd_ok_def FD_SETSIZE_def ex_server0_def safe_def)

lemma ex_server_ok: "pool_ok 3 4 ex_server"
  using accept_conn_ok [OF conjunct1 [OF ex_server0_ok] ex_os_ok, of ex_conf 3 False]
  by (auto simp: ex_server_def safe_def)

lemma ex_server_conn: "n_conns ex_server = 1 \<and> conns ex_server = [Some 0]
    \<and> map_option conn_fd (get_conn 0 ex_server) = Some 5"
  by code_simp

end
