(* ===== verification/Conn_Props.thy ===== *)
theory Conn_Props
  imports Examples
begin

text \<open>
  What the handlers of a connection do with the bytes: splitting a request from the next one,
  handing a body to a CGI program, sending a static response, an error page, or what a CGI program
  answers, under partial reads, sends and writes.
\<close>

section \<open>Pipelined requests\<close>

lemma unread_split:
  assumes "buf_ok b" "n < length (unread b)" "r = length (unread b) - n"
  shows "buf_slice b (nat (buf_end b - int r)) r = Some (drop n (unread b))"
    and "unread (b\<lparr>sz := sz b - int r\<rparr>) = take n (unread b)"
    and "int r \<le> buf_end b" "r \<le> BUFSZ"
proof -
  have b: "0 \<le> sz b" "nat (sz b) \<le> length (data b)" "sz b \<le> int BUFSZ" "int (data_p b) \<le> sz b"
    using assms(1) by (simp_all add: buf_ok_def)
  have r: "r \<le> nat (sz b)" "int r \<le> sz b" "data_p b + n + r = nat (sz b)"
    using b assms(2,3) by (auto simp: unread_def)
  have e: "nat (buf_end b - int r) = data_p b + n" "nat (sz b - int r) = data_p b + n"
    using r b by (simp_all add: buf_end_def)
  have "data_p b + n + r \<le> length (data b)" using r b by simp
  moreover have "take r (drop (data_p b + n) (data b)) = drop n (unread b)"
    using r(3) by (simp add: unread_def drop_take add.commute flip: r(3))
  ultimately show "buf_slice b (nat (buf_end b - int r)) r = Some (drop n (unread b))"
    by (simp add: buf_slice_def e)
  show "unread (b\<lparr>sz := sz b - int r\<rparr>) = take n (unread b)"
    using r(3) by (simp add: unread_def take_drop min_def e add.commute)
  show "int r \<le> buf_end b" "r \<le> BUFSZ" using r b by (simp_all add: buf_end_def)
qed

lemma take_body_run:
  assumes "buf_ok (conn_buf k)" "buf_ok (req_last_buf (conn_req k))" "req_rsize (conn_req k) = int n"
  shows "\<exists>k'. take_body k = Some k' \<and> unread (conn_buf k') = take n (unread (conn_buf k))
    \<and> req_phase (conn_req k') =
        (if n \<le> length (unread (conn_buf k)) then REQ_DONE else req_phase (conn_req k))
    \<and> req_rsize (conn_req k') = int n - int (length (unread (conn_buf k)))
    \<and> (if n < length (unread (conn_buf k))
       then unread (req_last_buf (conn_req k')) = drop n (unread (conn_buf k))
         \<and> data_p (req_last_buf (conn_req k')) = 0
       else req_last_buf (conn_req k') = req_last_buf (conn_req k))"
proof -
  let ?b = "conn_buf k" and ?lb = "req_last_buf (conn_req k)"
  have len: "buf_rsize ?b = int (length (unread ?b))" using length_unread [OF assms(1)] by simp
  show ?thesis
  proof (cases "n < length (unread ?b)")
    case False
    then show ?thesis by (auto simp: take_body_def assms(3) len Let_def)
  next
    case True
    define r where "r = length (unread ?b) - n"
    note sp = unread_split [OF assms(1) True r_def]
    have r: "int n - buf_rsize ?b = - int r" "0 < r" "length (drop n (unread ?b)) = r"
      using True len by (simp_all add: r_def)
    have "length (data ((buf_reset ?lb)\<lparr>sz := int r\<rparr>)) \<le> BUFSZ + 1" using assms(2) by (simp add: buf_ok_def)
    then obtain lb where lb: "buf_write 0 (drop n (unread ?b)) ((buf_reset ?lb)\<lparr>sz := int r\<rparr>) = Some lb"
        "sz lb = int r" "data_p lb = 0" "take r (data lb) = drop n (unread ?b)"
      using buf_write_base [of "(buf_reset ?lb)\<lparr>sz := int r\<rparr>" "drop n (unread ?b)"] r(3) sp(4) by auto
    have "take_body k = Some (k\<lparr>conn_req := (conn_req k)\<lparr>req_rsize := - int r, req_phase := REQ_DONE, req_last_buf := lb\<rparr>,
        conn_buf := ?b\<lparr>sz := sz ?b - int r\<rparr>\<rparr>)"
      using r sp lb(1) by (simp add: take_body_def assms(3) Let_def)
    moreover have "unread lb = drop n (unread ?b)" using lb by (simp only: unread_def drop_0 nat_int)
    ultimately show ?thesis using True sp(2) lb(3) r(1) len by simp
  qed
qed

text \<open>C14: with the header read and \<open>n\<close> body bytes outstanding, \<open>take_body\<close> keeps exactly the
  first \<open>n\<close> unread bytes as the body; the request is done when they are all there, and the bytes
  beyond them go to \<open>last_buf\<close>.\<close>

theorem take_body_splits:
  assumes "buf_ok (conn_buf k)" "buf_ok (req_last_buf (conn_req k))" "req_rsize (conn_req k) = int n"
  shows "\<exists>k'. take_body k = Some k' \<and> unread (conn_buf k') = take n (unread (conn_buf k))
    \<and> req_phase (conn_req k') =
        (if n \<le> length (unread (conn_buf k)) then REQ_DONE else req_phase (conn_req k))
    \<and> req_rsize (conn_req k') = int n - int (length (unread (conn_buf k)))
    \<and> (if n < length (unread (conn_buf k))
       then unread (req_last_buf (conn_req k')) = drop n (unread (conn_buf k))
       else req_last_buf (conn_req k') = req_last_buf (conn_req k))"
  using take_body_run [OF assms] by (cases "n < length (unread (conn_buf k))") (simp, blast, simp)

definition ex_buf :: "string \<Rightarrow> buf_t" where
  "ex_buf s = \<lparr>sz = int (length s), data = s, data_p = 0\<rparr>"

lemma ex_buf_ok: "length s \<le> BUFSZ \<Longrightarrow> buf_ok (ex_buf s)" "unread (ex_buf s) = s"
  by (simp_all add: ex_buf_def buf_ok_def unread_def)

definition ex_conn :: "string \<Rightarrow> int \<Rightarrow> conn_t" where
  "ex_conn s n = (cn_new 5 0)\<lparr>conn_buf := ex_buf s, conn_req := req_new\<lparr>req_phase := REQ_BODY, req_rsize := n\<rparr>,
     conn_cgi := cgi_new\<lparr>cgi_phase := CGI_DISABLED\<rparr>\<rparr>"

lemma last_buf_new [simp]: "req_last_buf req_new = buf_new"
  by (simp add: req_new_def req_reset_def)

theorem take_body_splits_witness:
  "\<exists>k'. take_body (ex_conn ''bodyGET /'' 4) = Some k' \<and> unread (conn_buf k') = ''body''
    \<and> req_phase (conn_req k') = REQ_DONE \<and> req_rsize (conn_req k') = - 5
    \<and> unread (req_last_buf (conn_req k')) = ''GET /''"
proof -
  have u: "unread (conn_buf (ex_conn ''bodyGET /'' 4)) = ''bodyGET /''"
    by (simp add: ex_conn_def ex_buf_ok(2))
  have b: "buf_ok (conn_buf (ex_conn ''bodyGET /'' 4))" "buf_ok (req_last_buf (conn_req (ex_conn ''bodyGET /'' 4)))"
    "req_rsize (conn_req (ex_conn ''bodyGET /'' 4)) = int 4"
    using ex_buf_ok(1) [of "''bodyGET /''"] by (simp_all add: ex_conn_def BUFSZ_def)
  from take_body_splits [OF b, unfolded u] show ?thesis by simp
qed

text \<open>C15: pipelining loses nothing. The bytes beyond the body that \<open>take_body\<close> put aside are,
  after the connection is reset for the next request, exactly what \<open>load_piped\<close> puts in front of
  the parser.\<close>

theorem pipelined_roundtrip:
  assumes "conn_ok k" "req_phase (conn_req k) = REQ_BODY" "req_rsize (conn_req k) = int n"
    and "n < length (unread (conn_buf k))" "take_body k = Some k'"
    and "cgi_closed g" "cgi_phase g = CGI_IDLE"
  shows "\<exists>k''. load_piped (k'\<lparr>conn_buf := buf_reset (conn_buf k'), conn_req := req_reset (conn_req k'),
      conn_resp := resp_clear (conn_resp k'), conn_cgi := g\<rparr>) = Some k''
    \<and> conn_ok k'' \<and> unread (conn_buf k'') = drop n (unread (conn_buf k))"
proof -
  let ?k = "k'\<lparr>conn_buf := buf_reset (conn_buf k'), conn_req := req_reset (conn_req k'),
      conn_resp := resp_clear (conn_resp k'), conn_cgi := g\<rparr>"
  have d: "buf_ok (conn_buf k)" "buf_ok (req_last_buf (conn_req k))"
    using assms(1,2) by (auto simp: conn_ok_def data_ok_def req_ok_def)
  have lb: "unread (req_last_buf (conn_req k')) = drop n (unread (conn_buf k))"
      "data_p (req_last_buf (conn_req k')) = 0"
    using take_body_run [OF d assms(3)] assms(4,5) by auto
  have "conn_ok k'" using postD [OF take_body_ok [OF assms(1,2)] assms(5)] by simp
  then have "conn_ok ?k" using reset_conn_ok [OF conn_ok_data assms(6,7)] by simp
  from load_piped_ok [OF this] lb show ?thesis
    by (auto simp: safe_def unread_def req_reset_def)
qed

lemma cgi_new_closed: "cgi_closed cgi_new" "cgi_phase cgi_new = CGI_IDLE"
  by (simp_all add: cgi_new_def cgi_reset_def close_pipe_def cgi_closed_def)

lemma ex_conn_ok:
  assumes "length s \<le> BUFSZ" "0 \<le> n"
  shows "conn_ok (ex_conn s n)"
proof -
  have "req_type req_new = REQ_STATIC" "resp_phase resp_new = RESP_READY"
    by (simp_all add: req_new_def req_reset_def resp_new_def resp_clear_def)
  moreover have "length s \<le> BUFSZ + 1" using assms(1) by simp
  ultimately show ?thesis
    using assms ex_buf_ok(1) [OF assms(1)] cgi_new_closed
    by (simp add: ex_conn_def cn_new_def conn_ok_def phases_ok_def phases_fit_def data_ok_def req_ok_new
        cgi_ok_def cgi_closed_def
        ex_buf_def)
qed

theorem pipelined_roundtrip_witness:
  "\<exists>k' k''. take_body (ex_conn ''bodyGET /'' 4) = Some k'
    \<and> load_piped (k'\<lparr>conn_buf := buf_reset (conn_buf k'), conn_req := req_reset (conn_req k'),
      conn_resp := resp_clear (conn_resp k'), conn_cgi := cgi_new\<rparr>) = Some k''
    \<and> conn_ok k'' \<and> unread (conn_buf k'') = ''GET /''"
proof -
  let ?k = "ex_conn ''bodyGET /'' 4"
  have ok: "conn_ok ?k" by (rule ex_conn_ok) (simp_all add: BUFSZ_def)
  have u: "unread (conn_buf ?k) = ''bodyGET /''" by (simp add: ex_conn_def ex_buf_ok(2))
  have p: "req_phase (conn_req ?k) = REQ_BODY" "req_rsize (conn_req ?k) = int 4" by (simp_all add: ex_conn_def)
  have d: "buf_ok (conn_buf ?k)" "buf_ok (req_last_buf (conn_req ?k))"
    using ok p(1) by (auto simp: conn_ok_def data_ok_def req_ok_def)
  obtain k' where k': "take_body ?k = Some k'" using take_body_run [OF d p(2)] by blast
  have "4 < length (unread (conn_buf ?k))" by (simp add: u)
  from pipelined_roundtrip [OF ok p this k' cgi_new_closed] k' show ?thesis by (simp add: u)
qed

section \<open>Handing the body to a CGI program\<close>

lemma slice_unread:
  assumes "nat (sz b) \<le> length (data b)" "data_p b \<le> nat (sz b)" "n \<le> length (unread b)"
  shows "buf_slice b (data_p b) n = Some (take n (unread b))"
proof -
  have "data_p b + n \<le> nat (sz b)" using assms by (simp add: unread_def min_def split: if_splits)
  then show ?thesis using assms(1) by (simp add: buf_slice_def unread_def take_drop min_def add.commute)
qed

lemma unread_slice: "buf_ok b \<Longrightarrow> n \<le> length (unread b) \<Longrightarrow> buf_slice b (data_p b) n = Some (take n (unread b))"
  by (rule slice_unread) (auto simp: buf_ok_def)

lemma cgi_body_whole:
  assumes "buf_ok b" "unread b \<noteq> []" "os_write os tr fd (unread b) = int (length (unread b))"
  shows "\<exists>tr'. write_loop os fd b (buf_rsize b) tr = Some (True, tr')
    \<and> written_to fd tr' = written_to fd tr @ unread b"
proof -
  have len: "buf_rsize b = int (length (unread b))" "0 < length (unread b)"
    using length_unread [OF assms(1)] assms(2) by simp_all
  have "write_loop os fd b (buf_rsize b) tr = Some (True, EvWrite fd (unread b) (int (length (unread b))) # tr)"
    using unread_slice [OF assms(1), of "length (unread b)"] len assms(3)
    by (simp add: write_loop.simps Let_def)
  then show ?thesis by simp
qed

lemma cgi_body_split:
  assumes "buf_ok b" "0 < n" "n < length (unread b)" "os_write os tr fd (unread b) = int n"
    and "\<And>tr bs. length bs < length (unread b) \<Longrightarrow> os_write os tr fd bs = int (length bs)"
  shows "\<exists>tr'. write_loop os fd b (buf_rsize b) tr = Some (True, tr')
    \<and> written_to fd tr' = written_to fd tr @ take n (unread b) @ take (length (unread b) - n) (unread b)"
proof -
  let ?u = "unread b"
  have len: "buf_rsize b = int (length ?u)" using length_unread [OF assms(1)] by simp
  have s: "buf_slice b (data_p b) (length ?u) = Some ?u"
    "buf_slice b (data_p b) (length ?u - n) = Some (take (length ?u - n) ?u)"
    using unread_slice [OF assms(1), of "length ?u"] unread_slice [OF assms(1), of "length ?u - n"] by simp_all
  have l: "length (take (length ?u - n) ?u) = length ?u - n" "length ?u - n < length ?u"
    using assms(2,3) by simp_all
  have z: "nat (int (length ?u) - int n) = length ?u - n" "0 < int (length ?u) - int n"
    using assms(3) by simp_all
  let ?tr = "EvWrite fd ?u (int n) # tr" and ?r = "take (length ?u - n) ?u"
  have w: "os_write os ?tr fd ?r = int (length ?u - n)" using assms(5) [of ?r ?tr] l by simp
  have "write_loop os fd b (int (length ?u)) tr = write_loop os fd b (int (length ?u) - int n) ?tr"
    using s(1) assms(2-4) by (subst write_loop.simps) (auto simp: Let_def)
  also have "\<dots> = write_loop os fd b 0 (EvWrite fd ?r (int (length ?u - n)) # ?tr)"
    using s(2) z w assms(3) by (subst write_loop.simps) (simp add: Let_def of_nat_diff)
  also have "\<dots> = Some (True, EvWrite fd ?r (int (length ?u - n)) # ?tr)"
    by (subst write_loop.simps) simp
  finally show ?thesis unfolding len by simp
qed

text \<open>C17: a body the pipe accepts in one \<open>write\<close> arrives once and whole. One that is accepted in
  two parts arrives wrong: the cursor is not moved after the first \<open>n\<close> bytes, so the second \<open>write\<close>
  starts again at the first byte, and the last \<open>n\<close> bytes never arrive.\<close>

theorem cgi_body_write:
  assumes "buf_ok b" "0 < n" "n \<le> length (unread b)" "os_write os tr fd (unread b) = int n"
    and "\<And>tr bs. length bs < length (unread b) \<Longrightarrow> os_write os tr fd bs = int (length bs)"
  shows "\<exists>tr'. write_loop os fd b (buf_rsize b) tr = Some (True, tr')
    \<and> written_to fd tr' = written_to fd tr @ take n (unread b) @ take (length (unread b) - n) (unread b)"
proof (cases "n = length (unread b)")
  case True
  have "unread b \<noteq> []" using assms(2) True by auto
  with cgi_body_whole [OF assms(1) this] assms(4) True show ?thesis by simp
next
  case False
  then have "n < length (unread b)" using assms(3) by simp
  from cgi_body_split [OF assms(1,2) this assms(4,5)] show ?thesis by simp
qed

theorem cgi_body_write_witness:
  "(\<exists>tr'. write_loop ex_os 8 (ex_buf ''abcd'') 4 [] = Some (True, tr') \<and> written_to 8 tr' = ''abcd'')
   \<and> (\<exists>tr'. write_loop (ex_os\<lparr>os_write := \<lambda>_ _ bs. if length bs = 4 then 2 else int (length bs)\<rparr>) 8
      (ex_buf ''abcd'') 4 [] = Some (True, tr') \<and> written_to 8 tr' = ''abab'')"
  using cgi_body_write [of "ex_buf ''abcd''" 2
      "ex_os\<lparr>os_write := \<lambda>_ _ bs. if length bs = 4 then 2 else int (length bs)\<rparr>" "[]" 8]
    cgi_body_write [of "ex_buf ''abcd''" 4 ex_os "[]" 8] ex_buf_ok(1) [of "''abcd''"]
  by (simp add: ex_buf_ok(2) BUFSZ_def ex_os_def) (simp add: ex_buf_def buf_rsize_def)

section \<open>One connection at a time\<close>

text \<open>C16: serving a connection touches no other connection: the others are as they were, but for
  the index of the one that takes the slot of a dropped connection. The one that is served is in
  the pool afterwards exactly when the turn says that it is alive, and the pool stays well formed.\<close>

theorem serve_conn_isolated:
  assumes "pool_ok sock ssl s" "os_ok os" "conf_ok conf" "st_heap s c = Some k"
    and "serve_conn os conf c s = Some (alive, s')"
  shows "pool_ok sock ssl s' \<and> (alive \<longleftrightarrow> st_heap s' c \<noteq> None)
    \<and> n_conns s = (if alive then n_conns s' else Suc (n_conns s'))
    \<and> (\<forall>d. d \<noteq> c \<longrightarrow> (if alive then st_heap s' d = st_heap s d
         else \<exists>j. st_heap s' d = map_option (\<lambda>m. m\<lparr>conn_idx := j\<rparr>) (st_heap s d)))"
proof -
  have "served sock ssl s c (alive, s')"
    using postD [OF serve_conn_live [OF live_refl [OF assms(1,4)] assms(2,3)] assms(5)] .
  then show ?thesis by (cases alive) (simp_all add: live_def gone_def)
qed

lemma ex_server_serve: "map_option fst (serve_conn ex_os ex_conf 0 ex_server) = Some True"
  by code_simp

theorem serve_conn_isolated_witness:
  "\<exists>s'. serve_conn ex_os ex_conf 0 ex_server = Some (True, s') \<and> pool_ok 3 4 s' \<and> n_conns s' = 1
    \<and> st_heap s' 0 \<noteq> None"
proof -
  obtain s' where s': "serve_conn ex_os ex_conf 0 ex_server = Some (True, s')" using ex_server_serve by auto
  obtain k where k: "st_heap ex_server 0 = Some k" using ex_server_conn by (auto simp: get_conn_def)
  from serve_conn_isolated [OF ex_server_ok ex_os_ok ex_conf_ok(1) k s'] s' ex_server_conn
  show ?thesis by simp
qed

end
