(* ===== verification/Send_Props.thy ===== *)
theory Send_Props
  imports Conn_Props
begin

text \<open>
  Sending: a static response under partial sends, the error page, and what a CGI program answers.
\<close>

section \<open>The static response\<close>

text \<open>
  A client that takes at least one byte of every send; callbacks that tell success (2) from a
  connection that goes on (1) and one that is lost (-1); and the handler called until it is over.
\<close>

definition sends :: "os \<Rightarrow> bool" where
  "sends os \<longleftrightarrow> (\<forall>tr fd bs. bs \<noteq> [] \<longrightarrow> 0 < os_send os tr fd bs \<and> os_send os tr fd bs \<le> int (length bs))"

definition over_cb :: "ptr \<Rightarrow> cstate \<Rightarrow> (int \<times> cstate) option" where
  "over_cb c s = Some (2, s)"

definition lost_cb :: "ptr \<Rightarrow> cstate \<Rightarrow> (int \<times> cstate) option" where
  "lost_cb c s = Some (- 1, s)"

fun deliver :: "nat \<Rightarrow> os \<Rightarrow> ptr \<Rightarrow> cstate \<Rightarrow> (int \<times> cstate) option" where
  "deliver 0 os c s = Some (1, s)"
| "deliver (Suc n) os c s = do {
     (rc, s) \<leftarrow> cn_serve_static os over_cb lost_cb c s;
     if rc = 1 then deliver n os c s else Some (rc, s) }"

text \<open>\<open>h\<close> of the header and \<open>f\<close> of the file are still to be sent.\<close>

definition spans :: "buf_t \<Rightarrow> bool" where
  "spans b \<longleftrightarrow> 0 \<le> sz b \<and> nat (sz b) \<le> length (data b) \<and> data_p b \<le> nat (sz b)"

definition to_send :: "conn_t \<Rightarrow> char list \<Rightarrow> char list \<Rightarrow> bool" where
  "to_send k h f \<longleftrightarrow> req_meth (conn_req k) \<noteq> M_HEAD \<and> f \<noteq> []
     \<and> (\<exists>mm. resp_mmbuf (conn_resp k) = Some mm \<and> spans mm \<and> unread mm = f)
     \<and> (resp_phase (conn_resp k) = RESP_HEADER \<and> h \<noteq> [] \<and> spans (conn_buf k) \<and> unread (conn_buf k) = h
        \<or> resp_phase (conn_resp k) = RESP_BODY \<and> h = [])"

lemma spans_facts:
  assumes "spans b"
  shows "buf_rsize b = int (length (unread b))" "n \<le> length (unread b) \<Longrightarrow> buf_slice b (data_p b) n = Some (take n (unread b))"
    and "n \<le> length (unread b) \<Longrightarrow> spans (b\<lparr>data_p := data_p b + n\<rparr>)"
    and "unread (b\<lparr>data_p := data_p b + n\<rparr>) = drop n (unread b)"
    and "n \<le> length (unread b) \<Longrightarrow> (buf_end b \<le> int (data_p b + n)) = (n = length (unread b))"
proof -
  have l: "length (unread b) = nat (sz b) - data_p b" using assms by (simp add: spans_def unread_def)
  then show "buf_rsize b = int (length (unread b))" using assms by (simp add: spans_def buf_rsize_def)
  show "n \<le> length (unread b) \<Longrightarrow> buf_slice b (data_p b) n = Some (take n (unread b))"
    by (rule slice_unread) (use assms in \<open>simp_all add: spans_def\<close>)
  show "n \<le> length (unread b) \<Longrightarrow> spans (b\<lparr>data_p := data_p b + n\<rparr>)"
    using assms l by (simp add: spans_def le_diff_conv2 add.commute)
  show "unread (b\<lparr>data_p := data_p b + n\<rparr>) = drop n (unread b)" by (simp add: unread_def add.commute)
  show "n \<le> length (unread b) \<Longrightarrow> (buf_end b \<le> int (data_p b + n)) = (n = length (unread b))"
    using assms l by (auto simp: spans_def buf_end_def)
qed

lemma spans_sz [simp]: "sz (b\<lparr>data_p := n\<rparr>) = sz b" "buf_end (b\<lparr>data_p := n\<rparr>) = buf_end b"
  by (simp_all add: buf_end_def)

text \<open>One call sends a prefix that is not empty, and is over exactly when nothing is left; this holds
  for whatever callbacks, in whatever extension of the state.\<close>

definition same_request_side :: "conn_t \<Rightarrow> conn_t \<Rightarrow> bool" where
  "same_request_side k k' \<longleftrightarrow> conn_fd k' = conn_fd k \<and> conn_req k' = conn_req k \<and> conn_cgi k' = conn_cgi k
     \<and> conn_idx k' = conn_idx k"

lemma header_step:
  assumes os: "sends os" and g: "get_conn c s = Some k" and k: "to_send k h f" "h \<noteq> []"
  shows "\<exists>n k' tr. 0 < n \<and> n \<le> length h
    \<and> cn_serve_static os over lost c s = Some (1, put_conn c k' (s\<lparr>st_trace := tr\<rparr>))
    \<and> same_request_side k k' \<and> to_send k' (drop n h) f
    \<and> sent_to (conn_fd k) tr = sent_to (conn_fd k) (st_trace s) @ take n h"
proof -
  have ph: "resp_phase (conn_resp k) = RESP_HEADER" and b: "spans (conn_buf k)" "unread (conn_buf k) = h"
    using k by (auto simp: to_send_def)
  obtain mm where mm: "resp_mmbuf (conn_resp k) = Some mm" "spans mm" "unread mm = f" "f \<noteq> []"
    using k(1) by (auto simp: to_send_def)
  let ?rc = "os_send os (st_trace s) (conn_fd k) h"
  have rc: "0 < ?rc" "?rc \<le> int (length h)" using os k(2) by (auto simp: sends_def)
  define n where "n = nat ?rc"
  have n: "?rc = int n" "0 < n" "n \<le> length h" using rc by (simp_all add: n_def)
  note sp = spans_facts [OF b(1), unfolded b(2)]
  have sl: "buf_slice (conn_buf k) (data_p (conn_buf k)) (length h) = Some h" using sp(2) [of "length h"] by simp
  have fm: "\<not> buf_end mm \<le> int (data_p mm)" using spans_facts(5) [OF mm(2), of 0] mm(3,4) by auto
  let ?k = "k\<lparr>conn_buf := (conn_buf k)\<lparr>data_p := data_p (conn_buf k) + n\<rparr>,
      conn_resp := (if n = length h then (conn_resp k)\<lparr>resp_phase := RESP_BODY\<rparr> else conn_resp k)\<rparr>"
  let ?tr = "EvSend (conn_fd k) h (int n) # st_trace s"
  have m: "req_meth (conn_req k) \<noteq> M_HEAD" using k(1) by (simp add: to_send_def)
  have "cn_serve_static os over lost c s = Some (1, put_conn c ?k (s\<lparr>st_trace := ?tr\<rparr>))"
    using g ph sl n fm mm(1) m
    by (simp add: cn_serve_static_def cn_serve_header_def smart_send_def log_ev_def Let_def sp(1))
  moreover have "to_send ?k (drop n h) f"
    using k(1) mm m ph n sp(3,4) by (auto simp: to_send_def)
  ultimately show ?thesis
    using n by (intro exI [of _ n] exI [of _ ?k] exI [of _ ?tr]) (auto simp: same_request_side_def)
qed

lemma body_step_send:
  assumes os: "sends os" and g: "get_conn c s = Some k" and k: "to_send k [] f"
  shows "\<exists>n k' tr. 0 < n \<and> n \<le> length f
    \<and> cn_serve_static os over lost c s =
        (if n = length f then over c (put_conn c k' (s\<lparr>st_trace := tr\<rparr>))
         else Some (1, put_conn c k' (s\<lparr>st_trace := tr\<rparr>)))
    \<and> same_request_side k k' \<and> (n < length f \<longrightarrow> to_send k' [] (drop n f))
    \<and> sent_to (conn_fd k) tr = sent_to (conn_fd k) (st_trace s) @ take n f"
proof -
  have ph: "resp_phase (conn_resp k) = RESP_BODY" using k by (auto simp: to_send_def)
  obtain mm where mm: "resp_mmbuf (conn_resp k) = Some mm" "spans mm" "unread mm = f" "f \<noteq> []"
    using k by (auto simp: to_send_def)
  define a where "a = min BUFSZ (length f)"
  have a: "0 < a" "a \<le> length f" using mm(4) by (simp_all add: a_def BUFSZ_def)
  have ta: "take a f \<noteq> []" "length (take a f) = a" using a by auto
  let ?rc = "os_send os (st_trace s) (conn_fd k) (take a f)"
  have rc: "0 < ?rc" "?rc \<le> int a" using os ta by (metis sends_def)+
  define n where "n = nat ?rc"
  have n: "?rc = int n" "0 < n" "n \<le> a" "n \<le> length f" using rc a by (simp_all add: n_def)
  note sp = spans_facts [OF mm(2), unfolded mm(3)]
  have as: "min (int BUFSZ) (buf_rsize mm) = int a" by (simp add: sp(1) a_def)
  have sl: "buf_slice mm (data_p mm) a = Some (take a f)" using sp(2) a by simp
  let ?k = "k\<lparr>conn_resp := (conn_resp k)\<lparr>resp_mmbuf := Some (mm\<lparr>data_p := data_p mm + n\<rparr>)\<rparr>\<rparr>"
  let ?tr = "EvSend (conn_fd k) (take a f) (int n) # st_trace s"
  have "cn_serve_static os over lost c s =
      (if n = length f then over c (put_conn c ?k (s\<lparr>st_trace := ?tr\<rparr>))
       else Some (1, put_conn c ?k (s\<lparr>st_trace := ?tr\<rparr>)))"
    using g ph sl n mm(1) as sp(5) [OF n(4)]
    by (simp add: cn_serve_static_def cn_serve_body_def smart_send_def log_ev_def Let_def)
  moreover have "n < length f \<longrightarrow> to_send ?k [] (drop n f)"
    using k ph n sp(3) [OF n(4)] sp(4) by (auto simp: to_send_def)
  moreover have "take n (take a f) = take n f" using n(3) by (simp add: min_def)
  ultimately show ?thesis
    using n by (intro exI [of _ n] exI [of _ ?k] exI [of _ ?tr]) (auto simp: same_request_side_def)
qed

lemma deliver_run:
  assumes os: "sends os"
  shows "get_conn c s = Some k \<Longrightarrow> to_send k h f \<Longrightarrow> length h + length f \<le> fuel \<Longrightarrow>
    \<exists>s'. deliver fuel os c s = Some (2, s')
      \<and> sent_to (conn_fd k) (st_trace s') = sent_to (conn_fd k) (st_trace s) @ h @ f"
proof (induction fuel arbitrary: s k h f)
  case 0
  then show ?case by (simp add: to_send_def)
next
  case (Suc fuel)
  show ?case
  proof (cases "h = []")
    case False
    obtain n k' tr where n: "0 < n" "n \<le> length h" "same_request_side k k'" "to_send k' (drop n h) f"
      and st: "cn_serve_static os over_cb lost_cb c s = Some (1, put_conn c k' (s\<lparr>st_trace := tr\<rparr>))"
        "sent_to (conn_fd k) tr = sent_to (conn_fd k) (st_trace s) @ take n h"
      using header_step [OF os Suc.prems(1,2) False, of over_cb lost_cb] by blast
    let ?s = "put_conn c k' (s\<lparr>st_trace := tr\<rparr>)"
    have "length (drop n h) + length f \<le> fuel" using n(1,2) Suc.prems(3) by simp
    from Suc.IH [OF get_put n(4) this] obtain s' where
      "deliver fuel os c ?s = Some (2, s')"
      "sent_to (conn_fd k') (st_trace s') = sent_to (conn_fd k') (st_trace ?s) @ drop n h @ f"
      by blast
    then show ?thesis using st n(3) by (simp add: same_request_side_def)
  next
    case True
    then have k: "to_send k [] f" using Suc.prems(2) by simp
    obtain n k' tr where n: "0 < n" "n \<le> length f" "same_request_side k k'"
        "n < length f \<longrightarrow> to_send k' [] (drop n f)"
      and st: "cn_serve_static os over_cb lost_cb c s =
          (if n = length f then Some (2, put_conn c k' (s\<lparr>st_trace := tr\<rparr>))
           else Some (1, put_conn c k' (s\<lparr>st_trace := tr\<rparr>)))"
        "sent_to (conn_fd k) tr = sent_to (conn_fd k) (st_trace s) @ take n f"
      using body_step_send [OF os Suc.prems(1) k, of over_cb lost_cb] unfolding over_cb_def by blast
    let ?s = "put_conn c k' (s\<lparr>st_trace := tr\<rparr>)"
    show ?thesis
    proof (cases "n = length f")
      case True
      then show ?thesis using st \<open>h = []\<close> by simp
    next
      case False
      then have n': "n < length f" using n(2) by simp
      have "length ([]::char list) + length (drop n f) \<le> fuel" using n(1) n' Suc.prems(3) by simp
      from Suc.IH [OF get_put n(4) [rule_format, OF n'] this] obtain s' where
        "deliver fuel os c ?s = Some (2, s')"
        "sent_to (conn_fd k') (st_trace s') = sent_to (conn_fd k') (st_trace ?s) @ [] @ drop n f"
        by blast
      then show ?thesis using st n(3) False \<open>h = []\<close> by (simp add: same_request_side_def)
    qed
  qed
qed

text \<open>C18: the static response to a request other than HEAD arrives exactly once and whole, however
  the client splits the sends, as long as each takes at least one byte: with the header \<open>h\<close> in the
  buffer and a file \<open>f\<close> that is not empty mapped, calling \<open>cn_serve_static\<close> until it reports success
  sends \<open>h\<close> and then \<open>f\<close>, in at most as many calls as there are bytes. (For HEAD the handler reports
  success after its first send; see \<open>head_header_cut\<close>.)\<close>

theorem static_response_delivered:
  assumes "sends os" "get_conn c s = Some k" "to_send k h f" "length h + length f \<le> fuel"
  shows "\<exists>s'. deliver fuel os c s = Some (2, s')
    \<and> sent_to (conn_fd k) (st_trace s') = sent_to (conn_fd k) (st_trace s) @ h @ f"
  by (rule deliver_run [OF assms])

definition ex_static :: "string \<Rightarrow> string \<Rightarrow> conn_t" where
  "ex_static h f = (cn_new 5 0)\<lparr>conn_buf := ex_buf h,
     conn_req := req_new\<lparr>req_meth := M_GET, req_phase := REQ_DONE\<rparr>,
     conn_resp := resp_new\<lparr>resp_phase := RESP_HEADER, resp_mmbuf := Some (ex_buf f)\<rparr>\<rparr>"

definition ex_state :: "conn_t \<Rightarrow> cstate" where
  "ex_state k = \<lparr>st_heap = [0 \<mapsto> k], st_trace = []\<rparr>"

definition trickle_os :: os where
  "trickle_os = ex_os\<lparr>os_send := \<lambda>_ _ bs. min 2 (int (length bs))\<rparr>"

lemma trickle_sends: "sends trickle_os"
  by (simp add: sends_def trickle_os_def)

lemma ex_state_get: "get_conn 0 (ex_state k) = Some k" "st_trace (ex_state k) = []"
  by (simp_all add: ex_state_def get_conn_def)

theorem static_response_delivered_witness:
  "\<exists>s'. deliver 8 trickle_os 0 (ex_state (ex_static ''HDR'' ''hello'')) = Some (2, s')
    \<and> sent_to 5 (st_trace s') = ''HDRhello''"
proof -
  have "to_send (ex_static ''HDR'' ''hello'') ''HDR'' ''hello''"
    by (simp add: to_send_def ex_static_def spans_def ex_buf_def unread_def)
  from static_response_delivered [OF trickle_sends ex_state_get(1) this, of 8] show ?thesis
    by (simp add: ex_state_get(2) ex_static_def cn_new_def)
qed

text \<open>A HEAD request is answered with part of a header when the client takes only part of it:
  after the first send the handler reports success, whatever is left.\<close>

lemma head_header_cut:
  assumes "get_conn c s = Some k" "req_meth (conn_req k) = M_HEAD" "resp_phase (conn_resp k) = RESP_HEADER"
    and "spans (conn_buf k)" "os_send os (st_trace s) (conn_fd k) (unread (conn_buf k)) = int n"
    and "0 < n" "n < length (unread (conn_buf k))"
  shows "\<exists>s'. cn_serve_static os over_cb lost_cb c s = Some (2, s')
    \<and> sent_to (conn_fd k) (st_trace s') = sent_to (conn_fd k) (st_trace s) @ take n (unread (conn_buf k))"
proof -
  note sp = spans_facts [OF assms(4)]
  have "buf_slice (conn_buf k) (data_p (conn_buf k)) (length (unread (conn_buf k))) = Some (unread (conn_buf k))"
    using sp(2) [of "length (unread (conn_buf k))"] by simp
  then show ?thesis
    using assms by (simp add: cn_serve_static_def cn_serve_header_def smart_send_def log_ev_def Let_def
        sp(1) over_cb_def)
qed

lemma head_header_cut_witness:
  "\<exists>s'. cn_serve_static trickle_os over_cb lost_cb 0
      (ex_state ((ex_static ''HDR'' ''hello'')\<lparr>conn_req := req_new\<lparr>req_meth := M_HEAD\<rparr>\<rparr>)) = Some (2, s')
    \<and> sent_to 5 (st_trace s') = ''HD''"
proof -
  let ?k = "(ex_static ''HDR'' ''hello'')\<lparr>conn_req := req_new\<lparr>req_meth := M_HEAD\<rparr>\<rparr>"
  have k: "req_meth (conn_req ?k) = M_HEAD" "resp_phase (conn_resp ?k) = RESP_HEADER" "conn_fd ?k = 5"
    "spans (conn_buf ?k)" "unread (conn_buf ?k) = ''HDR''"
    by (simp_all add: ex_static_def spans_def ex_buf_def unread_def cn_new_def)
  from head_header_cut [OF ex_state_get(1) k(1,2,4), of trickle_os 2, unfolded k(3,5)] show ?thesis
    by (simp add: ex_state_get(2) trickle_os_def)
qed

section \<open>Error pages\<close>

text \<open>The page: the header of the response, with the length of the message, and the message.\<close>

definition page_bytes :: "os \<Rightarrow> conn_t \<Rightarrow> trace \<Rightarrow> char list" where
  "page_bytes os k tr =
     (let msg = resp_msg (resp_status (conn_resp k))
      in concat (hdr_lines os ((conn_resp k)\<lparr>resp_alive := req_alive (conn_req k), resp_clen := int (length msg)\<rparr>) tr)
           @ msg)"

lemma error_page_resp:
  "error_page os k tr = Some k' \<Longrightarrow> conn_resp k' = (conn_resp k)\<lparr>resp_alive := req_alive (conn_req k),
     resp_clen := int (length (resp_msg (resp_status (conn_resp k))))\<rparr> \<and> conn_req k' = conn_req k"
  by (auto simp: error_page_def Let_def bind_eq_Some_conv)

lemma error_page_run:
  assumes "os_ok os" "conn_ok k" "resp_phase (conn_resp k) = RESP_ABORT"
  shows "\<exists>k'. error_page os k tr = Some k' \<and> conn_ok k' \<and> same_conn k k' \<and> data_p (conn_buf k') = 0
    \<and> buf_ok (conn_buf k') \<and> unread (conn_buf k') = page_bytes os k tr
    \<and> conn_resp k' = (conn_resp k)\<lparr>resp_alive := req_alive (conn_req k),
        resp_clen := int (length (resp_msg (resp_status (conn_resp k))))\<rparr> \<and> conn_req k' = conn_req k"
proof -
  obtain k' where k': "error_page os k tr = Some k'" "conn_ok k'" "same_conn k k'" "buf_ok (conn_buf k')"
      "data_p (conn_buf k') = 0"
      "unread (conn_buf k') = concat (hdr_lines os (conn_resp k') tr) @ resp_msg (resp_status (conn_resp k))"
    using error_page_spec [OF assms] by (auto simp: safe_def)
  then show ?thesis using error_page_resp [OF k'(1)] by (simp add: page_bytes_def Let_def)
qed

lemma page_not_empty: "page_bytes os k tr \<noteq> []"
  by (simp add: page_bytes_def Let_def hdr_lines_def)

lemma send_error_page_run:
  assumes "os_ok os" "conn_ok k" "resp_phase (conn_resp k) = RESP_ABORT" "get_conn c s = Some k"
    and p: "p = page_bytes os k (st_trace s)" "os_send os (st_trace s) (conn_fd k) p = int n" "0 < n"
  shows "\<exists>k'. cn_send_error_page os over_cb lost_cb c s =
      Some (if n < length p then 1 else 2, put_conn c k' (s\<lparr>st_trace := EvSend (conn_fd k) p (int n) # st_trace s\<rparr>))
    \<and> conn_ok k' \<and> conn_fd k' = conn_fd k \<and> conn_req k' = conn_req k
    \<and> resp_phase (conn_resp k') = RESP_ABORT \<and> resp_status (conn_resp k') = resp_status (conn_resp k)
    \<and> resp_hdrs (conn_resp k') = resp_hdrs (conn_resp k)"
proof -
  obtain k' where k': "error_page os k (st_trace s) = Some k'" "conn_ok k'" "same_conn k k'"
      "data_p (conn_buf k') = 0" "buf_ok (conn_buf k')" "unread (conn_buf k') = p"
      "conn_resp k' = (conn_resp k)\<lparr>resp_alive := req_alive (conn_req k),
        resp_clen := int (length (resp_msg (resp_status (conn_resp k))))\<rparr>" "conn_req k' = conn_req k"
    using error_page_run [OF assms(1-3)] p(1) by blast
  have sp: "spans (conn_buf k')" using k'(5) by (auto simp: buf_ok_def spans_def)
  note sp = spans_facts [OF sp, unfolded k'(6)]
  have n: "n \<le> length p" using os_okD(3) [OF assms(1), of "st_trace s" "conn_fd k" p] p(2) by simp
  have sl: "buf_slice (conn_buf k') (data_p (conn_buf k')) (length p) = Some p" using sp(2) [of "length p"] by simp
  let ?k = "k'\<lparr>conn_buf := (conn_buf k')\<lparr>data_p := data_p (conn_buf k') + n\<rparr>\<rparr>"
  have fd: "conn_fd k' = conn_fd k" using k'(3) by (simp add: same_conn_def)
  have ab: "req_phase (conn_req k) = REQ_ABORT"
    using assms(2,3) by (intro phases_resp_abort) (auto simp: conn_ok_def)
  have ok: "conn_ok ?k" using k'(2,8) ab by (simp add: conn_ok_def phases_ok_def data_ok_def)
  have "cn_send_error_page os over_cb lost_cb c s =
      Some (if n < length p then 1 else 2, put_conn c ?k (s\<lparr>st_trace := EvSend (conn_fd k) p (int n) # st_trace s\<rparr>))"
    using k'(1) sl n p(2,3) fd sp(5) [OF n] assms(4)
    by (simp add: cn_send_error_page_def smart_send_def log_ev_def Let_def sp(1) over_cb_def)
  then show ?thesis using ok fd k'(7,8) assms(3) by (intro exI [of _ ?k]) simp
qed

text \<open>C20: an aborted request is answered with the error page of its status: one \<open>send\<close> of the
  whole page, header and message; when the client takes all of it the handler reports success.\<close>

theorem error_page_sent:
  assumes "os_ok os" "conn_ok k" "resp_phase (conn_resp k) = RESP_ABORT" "get_conn c s = Some k"
    and "p = page_bytes os k (st_trace s)" "os_send os (st_trace s) (conn_fd k) p = int (length p)"
  shows "\<exists>s'. cn_send_error_page os over_cb lost_cb c s = Some (2, s')
    \<and> sent_to (conn_fd k) (st_trace s') = sent_to (conn_fd k) (st_trace s) @ p"
  using send_error_page_run [OF assms] page_not_empty [of os k "st_trace s"] assms(5) by auto

definition ex_abort :: conn_t where
  "ex_abort = (let k = abort_conn (cn_new 5 0) in k\<lparr>conn_resp := (conn_resp k)\<lparr>resp_status := 404\<rparr>\<rparr>)"

lemma ex_abort_ok: "conn_ok ex_abort" "resp_phase (conn_resp ex_abort) = RESP_ABORT" "conn_fd ex_abort = 5"
proof -
  have "data_ok (cn_new 5 0)"
    using cgi_new_closed by (simp add: data_ok_def cn_new_def req_ok_new cgi_ok_def)
      (simp add: buf_new_def req_new_def req_reset_def)
  then have "conn_ok (abort_conn (cn_new 5 0))" by (rule abort_conn_ok)
  then show "conn_ok ex_abort" by (simp add: ex_abort_def Let_def conn_ok_def phases_ok_def data_ok_def resp_ok_def)
  show "resp_phase (conn_resp ex_abort) = RESP_ABORT" "conn_fd ex_abort = 5"
    by (simp_all add: ex_abort_def abort_conn_def Let_def cn_new_def)
qed

theorem error_page_sent_witness:
  "\<exists>s' p. cn_send_error_page ex_os over_cb lost_cb 0 (ex_state ex_abort) = Some (2, s')
    \<and> sent_to 5 (st_trace s') = p \<and> take 22 p = ''HTTP/1.1 404 Not Found'' \<and> 200 < length p"
proof -
  define p where "p = page_bytes ex_os ex_abort (st_trace (ex_state ex_abort))"
  have "os_send ex_os (st_trace (ex_state ex_abort)) (conn_fd ex_abort) p = int (length p)"
    by (simp add: ex_os_def)
  from error_page_sent [OF ex_os_ok ex_abort_ok(1,2) ex_state_get(1) p_def this]
  have "\<exists>s'. cn_send_error_page ex_os over_cb lost_cb 0 (ex_state ex_abort) = Some (2, s')
      \<and> sent_to 5 (st_trace s') = p"
    by (simp add: ex_abort_ok(3) ex_state_get(2))
  moreover have "take 22 p = ''HTTP/1.1 404 Not Found'' \<and> 200 < length p"
    unfolding p_def by code_simp
  ultimately show ?thesis by blast
qed

text \<open>C21: a client that takes only part of the page gets it from the start again: the page is
  built anew for every call, so after \<open>n\<close> bytes the next call sends the whole page.\<close>

theorem error_page_restarts:
  assumes "os_ok os" "conn_ok k" "resp_phase (conn_resp k) = RESP_ABORT" "get_conn c s = Some k"
    and "p = page_bytes os k (st_trace s)" "os_send os (st_trace s) (conn_fd k) p = int n"
    and "0 < n" "n < length p" "\<And>tr bs. tr \<noteq> st_trace s \<Longrightarrow> os_send os tr (conn_fd k) bs = int (length bs)"
    and "\<And>tr t. hdr_lines os t tr = hdr_lines os t (st_trace s)"
  shows "\<exists>s1 s2. cn_send_error_page os over_cb lost_cb c s = Some (1, s1)
    \<and> cn_send_error_page os over_cb lost_cb c s1 = Some (2, s2)
    \<and> sent_to (conn_fd k) (st_trace s2) = sent_to (conn_fd k) (st_trace s) @ take n p @ p"
proof -
  let ?t = "EvSend (conn_fd k) p (int n) # st_trace s"
  obtain k' where k': "cn_send_error_page os over_cb lost_cb c s =
      Some (if n < length p then 1 else 2, put_conn c k' (s\<lparr>st_trace := ?t\<rparr>))"
    "conn_ok k'" "conn_fd k' = conn_fd k" "conn_req k' = conn_req k"
    "resp_phase (conn_resp k') = RESP_ABORT" "resp_status (conn_resp k') = resp_status (conn_resp k)"
    "resp_hdrs (conn_resp k') = resp_hdrs (conn_resp k)"
    using send_error_page_run [OF assms(1-7)] by blast
  let ?s = "put_conn c k' (s\<lparr>st_trace := ?t\<rparr>)"
  have pb: "p = page_bytes os k' (st_trace ?s)"
    using assms(10) [of _ ?t] k'(4,6,7) assms(5) by (simp add: page_bytes_def Let_def hdr_lines_def)
  have all: "os_send os (st_trace ?s) (conn_fd k') p = int (length p)"
    using assms(9) [of ?t p] k'(3) by simp
  have "0 < length p" using assms(8) by linarith
  from send_error_page_run [OF assms(1) k'(2,5) get_put pb all this] show ?thesis
    using k'(1,3) assms(8) by auto
qed

definition slow_os :: os where
  "slow_os = ex_os\<lparr>os_send := \<lambda>tr _ bs. if tr = [] then min 10 (int (length bs)) else int (length bs)\<rparr>"

lemma slow_os_ok: "os_ok slow_os" "hdr_lines slow_os t tr = hdr_lines slow_os t tr'"
  using ex_os_ok by (simp_all add: slow_os_def os_ok_def hdr_lines_def ex_os_def)

theorem error_page_restarts_witness:
  "\<exists>p s1 s2. cn_send_error_page slow_os over_cb lost_cb 0 (ex_state ex_abort) = Some (1, s1)
    \<and> cn_send_error_page slow_os over_cb lost_cb 0 s1 = Some (2, s2)
    \<and> sent_to 5 (st_trace s2) = take 10 p @ p \<and> take 12 p = ''HTTP/1.1 404''"
proof -
  define p where "p = page_bytes slow_os ex_abort (st_trace (ex_state ex_abort))"
  have len: "200 < length p \<and> take 12 p = ''HTTP/1.1 404''" unfolding p_def by code_simp
  have "os_send slow_os (st_trace (ex_state ex_abort)) (conn_fd ex_abort) p = int 10"
    using len by (simp add: slow_os_def ex_state_get(2))
  moreover have "os_send slow_os tr (conn_fd ex_abort) bs = int (length bs)"
    if "tr \<noteq> st_trace (ex_state ex_abort)" for tr bs
    using that by (simp add: slow_os_def ex_state_get(2))
  moreover have "(0::nat) < 10" "10 < length p" using len by simp_all
  ultimately show ?thesis
    using error_page_restarts [OF slow_os_ok(1) ex_abort_ok(1,2) ex_state_get(1) p_def _ _ _ _ slow_os_ok(2)]
      len by (simp only: ex_abort_ok(3) ex_state_get(2) sent_to.simps append_Nil) blast
qed

section \<open>What a CGI program answers\<close>

text \<open>
  The two handlers of a CGI answer in turn, as the loop calls them: read when the buffer is free,
  send when it is full.
\<close>

fun relay :: "nat \<Rightarrow> os \<Rightarrow> ptr \<Rightarrow> cstate \<Rightarrow> (int \<times> cstate) option" where
  "relay 0 os c s = Some (1, s)"
| "relay (Suc n) os c s = do {
     k \<leftarrow> get_conn c s;
     (rc, s) \<leftarrow>
       (if cgi_buf_phase (conn_cgi k) = BUF_RECV then cn_stream_from_cgi os (\<lambda>c _. lost_cb c) c s
        else cn_serve_dynamic os over_cb lost_cb c s);
     if rc = 1 then relay n os c s else Some (rc, s) }"

text \<open>How often a descriptor was read, and a program that writes \<open>chunks\<close> and ends.\<close>

fun reads_of :: "int \<Rightarrow> trace \<Rightarrow> nat" where
  "reads_of fd [] = 0"
| "reads_of fd (EvRead fd' n r # tr) = (if fd' = fd then Suc (reads_of fd tr) else reads_of fd tr)"
| "reads_of fd (e # tr) = reads_of fd tr"

definition answers :: "os \<Rightarrow> int \<Rightarrow> string list \<Rightarrow> bool" where
  "answers os fd chunks \<longleftrightarrow> (\<forall>tr. os_read os tr fd BUFSZ =
     Some (if reads_of fd tr < length chunks then chunks ! reads_of fd tr else []))"

definition takes_all :: "os \<Rightarrow> bool" where
  "takes_all os \<longleftrightarrow> (\<forall>tr fd bs. os_send os tr fd bs = int (length bs))"

definition relaying :: "conn_t \<Rightarrow> int \<Rightarrow> bool" where
  "relaying k fd \<longleftrightarrow> srv_in (conn_cgi k) = fd \<and> cgi_phase (conn_cgi k) = CGI_CGI_TO_SRV
     \<and> cgi_buf_phase (conn_cgi k) = BUF_RECV
     \<and> data_p (conn_buf k) = 0 \<and> length (data (conn_buf k)) \<le> BUFSZ + 1"

lemma relay_chunk:
  assumes "answers os fd chunks" "takes_all os" "list_all (\<lambda>ch. ch \<noteq> [] \<and> length ch \<le> BUFSZ) chunks"
    and "get_conn c s = Some k" "relaying k fd" "reads_of fd (st_trace s) = j" "j < length chunks"
  shows "\<exists>k' s'. relay (Suc (Suc n)) os c s = relay n os c s' \<and> get_conn c s' = Some k' \<and> relaying k' fd
    \<and> conn_fd k' = conn_fd k \<and> reads_of fd (st_trace s') = Suc j
    \<and> sent_to (conn_fd k) (st_trace s') = sent_to (conn_fd k) (st_trace s) @ chunks ! j"
proof -
  let ?ch = "chunks ! j"
  have ch: "?ch \<noteq> []" "length ?ch \<le> BUFSZ" using assms(3,7) by (simp_all add: list_all_length)
  have rd: "os_read os (st_trace s) fd BUFSZ = Some ?ch" using assms(1,6,7) by (simp add: answers_def)
  obtain b where b: "buf_write 0 ?ch (conn_buf k) = Some b" "data_p b = 0" "take (length ?ch) (data b) = ?ch"
      "length (data b) \<le> BUFSZ + 1" "length ?ch \<le> length (data b)"
    using buf_write_base [OF _ ch(2), of "conn_buf k"] assms(5) by (auto simp: relaying_def)
  let ?b = "b\<lparr>sz := int (length ?ch)\<rparr>"
  let ?k1 = "k\<lparr>conn_buf := ?b, conn_cgi := (conn_cgi k)\<lparr>cgi_buf_phase := BUF_SEND,
      cgi_phase := CGI_CGI_TO_SRV\<rparr>\<rparr>"
  let ?k2 = "?k1\<lparr>conn_cgi := (conn_cgi ?k1)\<lparr>cgi_buf_phase := BUF_RECV\<rparr>\<rparr>"
  let ?t1 = "EvRead fd BUFSZ (Some ?ch) # st_trace s"
  let ?t2 = "EvSend (conn_fd k) ?ch (int (length ?ch)) # ?t1"
  let ?s1 = "put_conn c ?k1 (s\<lparr>st_trace := ?t1\<rparr>)"
  let ?s2 = "put_conn c ?k2 (s\<lparr>st_trace := ?t2\<rparr>)"
  have p: "srv_in (conn_cgi k) = fd" "cgi_phase (conn_cgi k) = CGI_CGI_TO_SRV" "cgi_buf_phase (conn_cgi k) = BUF_RECV"
    using assms(5) by (simp_all add: relaying_def)
  have st: "cn_stream_from_cgi os (\<lambda>c _. lost_cb c) c s = Some (1, ?s1)"
    using assms(4) rd p b(1) ch(1) by (simp add: cn_stream_from_cgi_def log_ev_def Let_def)
  have g1: "get_conn c ?s1 = Some ?k1" by simp
  have sl: "buf_slice ?b 0 (length ?ch) = Some ?ch" using b(3,5) by (simp add: buf_slice_def)
  have sd: "os_send os ?t1 (conn_fd k) ?ch = int (length ?ch)" using assms(2) by (simp add: takes_all_def)
  have sv: "cn_serve_dynamic os over_cb lost_cb c ?s1 = Some (1, ?s2)"
    using ch(1) sl sd b(2) p(2) unfolding cn_serve_dynamic_def g1
    by (simp add: smart_send_def log_ev_def Let_def buf_rsize_def put_conn_def)
  have "relay (Suc (Suc n)) os c s = relay (Suc n) os c ?s1" using assms(4) p(3) st by simp
  also have "\<dots> = relay n os c ?s2" using g1 sv by (simp del: put_conn_def)
  finally show ?thesis
    using b(2,4) p assms(6) by (intro exI [of _ ?k2] exI [of _ ?s2]) (auto simp: relaying_def)
qed

lemma relay_end:
  assumes "answers os fd chunks" "get_conn c s = Some k" "relaying k fd" "length chunks \<le> reads_of fd (st_trace s)"
  shows "\<exists>s'. relay (Suc (Suc n)) os c s = Some (2, s')
    \<and> sent_to (conn_fd k) (st_trace s') = sent_to (conn_fd k) (st_trace s)"
proof -
  have p: "srv_in (conn_cgi k) = fd" "cgi_buf_phase (conn_cgi k) = BUF_RECV" "data_p (conn_buf k) = 0"
    using assms(3) by (simp_all add: relaying_def)
  have rd: "os_read os (st_trace s) fd BUFSZ = Some []" using assms(1,4) by (simp add: answers_def)
  have "\<exists>k' s1. cn_stream_from_cgi os (\<lambda>c _. lost_cb c) c s = Some (1, s1) \<and> get_conn c s1 = Some k'
      \<and> cgi_buf_phase (conn_cgi k') = BUF_SEND \<and> cgi_phase (conn_cgi k') = CGI_DONE \<and> buf_rsize (conn_buf k') = 0
      \<and> st_trace s1 = EvRead fd BUFSZ (Some []) # st_trace s"
    using assms(2) rd p
    by (simp add: cn_stream_from_cgi_def log_ev_def Let_def buf_write_def mem_put_def buf_rsize_def)
  then obtain k' s1 where 1: "cn_stream_from_cgi os (\<lambda>c _. lost_cb c) c s = Some (1, s1)" "get_conn c s1 = Some k'"
      "cgi_buf_phase (conn_cgi k') = BUF_SEND" "cgi_phase (conn_cgi k') = CGI_DONE" "buf_rsize (conn_buf k') = 0"
      "st_trace s1 = EvRead fd BUFSZ (Some []) # st_trace s"
    by blast
  then show ?thesis using assms(2) p(2) by (simp add: cn_serve_dynamic_def Let_def over_cb_def)
qed

lemma relay_run:
  assumes a: "answers os fd chunks" "takes_all os" "list_all (\<lambda>ch. ch \<noteq> [] \<and> length ch \<le> BUFSZ) chunks"
  shows "get_conn c s = Some k \<Longrightarrow> relaying k fd \<Longrightarrow> reads_of fd (st_trace s) = j \<Longrightarrow> j \<le> length chunks \<Longrightarrow>
    \<exists>s'. relay (2 * (length chunks - j) + 2 + extra) os c s = Some (2, s')
      \<and> sent_to (conn_fd k) (st_trace s') = sent_to (conn_fd k) (st_trace s) @ concat (drop j chunks)"
proof (induction "length chunks - j" arbitrary: s k j)
  case 0
  then show ?case using relay_end [OF a(1) 0(2,3), of extra] by simp
next
  case (Suc m)
  then have j: "j < length chunks" "m = length chunks - Suc j" "Suc j \<le> length chunks" by simp_all
  obtain k' s' where r: "relay (Suc (Suc (2 * m + 2 + extra))) os c s = relay (2 * m + 2 + extra) os c s'"
      "get_conn c s' = Some k'" "relaying k' fd" "conn_fd k' = conn_fd k" "reads_of fd (st_trace s') = Suc j"
      "sent_to (conn_fd k) (st_trace s') = sent_to (conn_fd k) (st_trace s) @ chunks ! j"
    using relay_chunk [OF a Suc.prems(1-3) j(1)] by blast
  have "2 * (length chunks - j) + 2 + extra = Suc (Suc (2 * m + 2 + extra))" using Suc.hyps(2) by simp
  with Suc.hyps(1) [OF j(2) r(2,3,5) j(3)] r(1,4,6) j(1) show ?case
    by (simp only: j(2)) (simp add: Cons_nth_drop_Suc [symmetric])
qed

text \<open>What a CGI program writes arrives at the client once, in order and whole, when the client
  takes every send whole: reading and sending in turn until the handler reports success relays the
  chunks of the program one by one, in two calls for each and two for the end.\<close>

lemma dynamic_response_delivered:
  assumes "answers os fd chunks" "takes_all os" "list_all (\<lambda>ch. ch \<noteq> [] \<and> length ch \<le> BUFSZ) chunks"
    and "get_conn c s = Some k" "relaying k fd" "reads_of fd (st_trace s) = 0" "2 * length chunks + 2 \<le> fuel"
  shows "\<exists>s'. relay fuel os c s = Some (2, s')
    \<and> sent_to (conn_fd k) (st_trace s') = sent_to (conn_fd k) (st_trace s) @ concat chunks"
proof -
  obtain extra where "fuel = 2 * length chunks + 2 + extra" using assms(7) le_Suc_ex by blast
  then show ?thesis
    using relay_run [OF assms(1-6), of extra] by (simp only: diff_zero drop_0 le0 simp_thms)
qed

definition hello_os :: os where
  "hello_os = ex_os\<lparr>os_read := \<lambda>tr fd n.
     Some (if reads_of fd tr < 2 then [''Hello, '', ''world!''] ! reads_of fd tr else [])\<rparr>"

definition ex_relay :: conn_t where
  "ex_relay = (ex_conn [] 0)\<lparr>conn_cgi := cgi_new\<lparr>srv_in := 7, cgi_phase := CGI_CGI_TO_SRV\<rparr>\<rparr>"

lemma dynamic_response_delivered_at_hello:
  "\<exists>s'. relay 6 hello_os 0 (ex_state ex_relay) = Some (2, s') \<and> sent_to 5 (st_trace s') = ''Hello, world!''"
proof -
  have a: "answers hello_os 7 [''Hello, '', ''world!'']" "takes_all hello_os"
    "list_all (\<lambda>ch. ch \<noteq> [] \<and> length ch \<le> BUFSZ) [''Hello, '', ''world!'']"
    by (simp_all add: answers_def takes_all_def hello_os_def ex_os_def BUFSZ_def)
  have k: "relaying ex_relay 7" "conn_fd ex_relay = 5"
    by (simp_all add: relaying_def ex_relay_def ex_conn_def cn_new_def ex_buf_def cgi_new_def cgi_reset_def
        close_pipe_def)
  have r: "reads_of 7 (st_trace (ex_state ex_relay)) = 0" by (simp add: ex_state_get(2))
  show ?thesis
    using dynamic_response_delivered [OF a ex_state_get(1) k(1) r, of 6] k(2) by (simp add: ex_state_get(2))
qed

text \<open>C23: bytes of a CGI program that a client takes in two parts arrive wrong: the cursor is not
  moved after the first \<open>send\<close>, so all of them are sent again.\<close>

theorem dynamic_chunk_repeated:
  assumes "get_conn c s = Some k" "spans (conn_buf k)" "unread (conn_buf k) = u"
    and "os_send os (st_trace s) (conn_fd k) u = int n" "0 < n" "n < length u"
    and "\<And>tr. tr \<noteq> st_trace s \<Longrightarrow> os_send os tr (conn_fd k) u = int (length u)"
  shows "\<exists>s1 s2. cn_serve_dynamic os over_cb lost_cb c s = Some (1, s1)
    \<and> cn_serve_dynamic os over_cb lost_cb c s1 = Some (1, s2)
    \<and> sent_to (conn_fd k) (st_trace s2) = sent_to (conn_fd k) (st_trace s) @ take n u @ u"
proof -
  note sp = spans_facts [OF assms(2), unfolded assms(3)]
  have sl: "buf_slice (conn_buf k) (data_p (conn_buf k)) (length u) = Some u" using sp(2) [of "length u"] by simp
  let ?s1 = "put_conn c k (s\<lparr>st_trace := EvSend (conn_fd k) u (int n) # st_trace s\<rparr>)"
  have "cn_serve_dynamic os over_cb lost_cb c s = Some (1, ?s1)"
    using assms(1,4-6) sl by (auto simp: cn_serve_dynamic_def smart_send_def log_ev_def Let_def sp(1))
  moreover have "\<exists>s2. cn_serve_dynamic os over_cb lost_cb c ?s1 = Some (1, s2)
      \<and> sent_to (conn_fd k) (st_trace s2) = sent_to (conn_fd k) (st_trace s) @ take n u @ u"
    using assms(5,6) assms(7) [of "EvSend (conn_fd k) u (int n) # st_trace s"] sl
    by (auto simp: cn_serve_dynamic_def smart_send_def log_ev_def Let_def sp(1))
  ultimately show ?thesis by blast
qed

theorem dynamic_chunk_repeated_witness:
  "\<exists>s1 s2. cn_serve_dynamic slow_os over_cb lost_cb 0 (ex_state (ex_conn ''cgi program'' 0)) = Some (1, s1)
    \<and> cn_serve_dynamic slow_os over_cb lost_cb 0 s1 = Some (1, s2)
    \<and> sent_to 5 (st_trace s2) = ''cgi progracgi program''"
proof -
  let ?k = "ex_conn ''cgi program'' 0"
  have k: "spans (conn_buf ?k)" "unread (conn_buf ?k) = ''cgi program''" "conn_fd ?k = 5"
    by (simp_all add: ex_conn_def cn_new_def spans_def ex_buf_def unread_def)
  have o: "os_send slow_os (st_trace (ex_state ?k)) 5 ''cgi program'' = int 10"
    "\<And>tr. tr \<noteq> st_trace (ex_state ?k) \<Longrightarrow> os_send slow_os tr 5 ''cgi program'' = int (length ''cgi program'')"
    by (simp_all add: slow_os_def ex_state_get(2))
  obtain s1 s2 where "cn_serve_dynamic slow_os over_cb lost_cb 0 (ex_state ?k) = Some (1, s1)"
    "cn_serve_dynamic slow_os over_cb lost_cb 0 s1 = Some (1, s2)"
    "sent_to 5 (st_trace s2) = sent_to 5 (st_trace (ex_state ?k)) @ take 10 ''cgi program'' @ ''cgi program''"
    using dynamic_chunk_repeated [OF ex_state_get(1) k(1,2), unfolded k(3), OF o(1) _ _ o(2)] by auto
  then show ?thesis by (intro exI [of _ s1] exI [of _ s2]) (simp add: ex_state_get(2))
qed

end
