(* ===== verification/Response_Props.thy ===== *)
theory Response_Props
  imports Examples
begin

text \<open>
  What \<open>response.c\<close> computes: the path of a file, the candidates that are tried, the response
  built for a file that is found, its serialised header, and what goes wrong with files that cannot
  be mapped or have special sizes.
\<close>

section \<open>The path and the candidates\<close>

text \<open>The lookup as a function on strings: the first candidate \<open>resp_mmap\<close> accepts.\<close>

fun try_all :: "os \<Rightarrow> resp_t \<Rightarrow> stat_t option \<Rightarrow> string list \<Rightarrow> trace \<Rightarrow>
    (bool \<times> resp_t \<times> stat_t option \<times> trace) option" where
  "try_all os resp st [] tr = Some (False, resp, st, tr)"
| "try_all os resp st (p # ps) tr = do {
     (rc, resp, st, tr) \<leftarrow> resp_mmap os resp (lit p) st tr;
     if 0 \<le> rc then Some (True, resp, st, tr) else try_all os resp st ps tr }"

definition candidates :: "string \<Rightarrow> string list" where
  "candidates p =
     (let d = (if last p = CHR ''/'' then p else p @ ''/'')
      in [p, d @ ''index.html'', d @ ''index.htm''])"

lemma resp_mmap_cstr:
  assumes "is_cstr m" "cstr m = p"
  shows "resp_mmap os resp m st tr = resp_mmap os resp (lit p) st tr"
proof -
  have "no_nul p" using no_nul_cstr [of m] assms(2) by simp
  then show ?thesis unfolding resp_mmap_def by (simp add: cstr_at_cstr assms)
qed

definition no_path :: "bool \<times> resp_t \<times> mem \<times> stat_t option \<times> trace \<Rightarrow> bool \<times> resp_t \<times> stat_t option \<times> trace" where
  "no_path = (\<lambda>(ok, resp, path, st, tr). (ok, resp, st, tr))"

lemma no_path_simp [simp]: "no_path (ok, resp, path, st, tr) = (ok, resp, st, tr)"
  by (simp add: no_path_def)

lemma try_pages_all:
  assumes "path_p \<le> length path" "path_p \<le> 2 * REQ_URISZ + 1" "take path_p path = d" "no_nul d"
    "list_all (\<lambda>p. no_nul p \<and> length p \<le> 10) pages"
  shows "map_option no_path (try_pages os resp path path_p st pages tr) =
    try_all os resp st (map (\<lambda>pg. d @ pg) pages) tr"
  using assms(1,3,5)
proof (induction pages arbitrary: resp path st tr)
  case Nil
  then show ?case by (simp add: no_path_def)
next
  case (Cons page pages)
  have pg: "no_nul page" "length page \<le> 10" using Cons.prems(3) by simp_all
  have 1: "cstrn_at (lit page) 0 REQ_URISZ = Some page"
    using pg by (simp add: cstrn_at_cstr REQ_URISZ_def)
  let ?path = "take path_p path @ (page @ [NUL]) @ drop (path_p + length (page @ [NUL])) path"
  have 2: "mem_put PATHSZ path_p (page @ [NUL]) path = Some ?path"
    using Cons.prems(1) assms(2) pg by (simp add: mem_put_def PATHSZ_def REQ_URISZ_def)
  have c: "is_cstr ?path" "cstr ?path = d @ page" "path_p \<le> length ?path" "take path_p ?path = d"
    using Cons.prems(1,2) assms(4) pg cstr_append_NUL [of "d @ page"] by (auto simp: is_cstr_def)
  note mm = resp_mmap_cstr [OF c(1,2)]
  have IH: "map_option no_path (try_pages os resp' ?path path_p st' pages tr') =
      try_all os resp' st' (map (\<lambda>pg. d @ pg) pages) tr'" for resp' st' tr'
    using Cons.IH [OF c(3,4)] Cons.prems(3) by simp
  show ?case
    unfolding try_pages.simps 1 Option.bind.bind_lunit 2 mm list.map try_all.simps
    using IH by (cases "resp_mmap os resp (lit (d @ page)) st tr") (auto simp: no_path_def split: prod.splits)
qed

lemma find_file_all:
  assumes "is_cstr path" "cstr path = p" "p \<noteq> []" "length p \<le> 2 * REQ_URISZ"
  shows "map_option no_path (find_file os resp path tr) = try_all os resp None (candidates p) tr"
proof -
  have len: "length p < length path" using length_cstr [OF assms(1)] assms(2) by simp
  have nn: "no_nul p" using no_nul_cstr [of path] assms(2) by simp
  obtain r where r: "path = p @ NUL # r" using is_cstr_split [OF assms(1)] assms(2) by metis
  have last: "mem_get path (length p - 1) = Some (last p)"
    using len assms(3) by (simp add: r nth_append last_conv_nth)
  define path2 where "path2 = take (length p) path @ ''/'' @ drop (length p + 1) path"
  have put: "mem_put PATHSZ (length p) ''/'' path = Some path2"
    using len assms(4) by (simp add: mem_put_def path2_def PATHSZ_def REQ_URISZ_def)
  have p2: "take (Suc (length p)) path2 = p @ ''/''" "Suc (length p) \<le> length path2"
    by (simp_all add: path2_def r)
  have pages: "list_all (\<lambda>p. no_nul p \<and> length p \<le> 10) default_pages"
    by (simp add: default_pages_def)
  have tp: "map_option no_path (try_pages os resp' path2 (Suc (length p)) st default_pages tr') =
      try_all os resp' st [(p @ ''/'') @ ''index.html'', (p @ ''/'') @ ''index.htm''] tr'"
    "map_option no_path (try_pages os resp' path (length p) st default_pages tr') =
      try_all os resp' st [p @ ''index.html'', p @ ''index.htm''] tr'" for resp' st tr'
    using try_pages_all [OF p2(2) _ p2(1) _ pages] try_pages_all [OF _ _ _ nn pages, of "length p" path]
      assms(4) nn len r by (simp_all add: default_pages_def del: try_pages.simps try_all.simps)
  note mm = resp_mmap_cstr [OF assms(1,2)]
  have c: "candidates p = p # (if last p = CHR ''/'' then [p @ ''index.html'', p @ ''index.htm'']
      else [(p @ ''/'') @ ''index.html'', (p @ ''/'') @ ''index.htm''])"
    by (simp add: candidates_def)
  show ?thesis
    unfolding find_file_def mm cstr_at_cstr [OF assms(1)] assms(2) c try_all.simps(2) [of _ _ _ p]
    using assms(3) last put tp
    by (cases "resp_mmap os resp (lit p) None tr")
      (auto split: prod.splits simp del: try_pages.simps try_all.simps)
qed

text \<open>C24: the file of a request is looked up as the first of three candidates that can be mapped:
  the path itself and the two default pages below it, in this order; the lookup reads and writes
  no byte outside the path array.\<close>

theorem find_file_candidates:
  assumes "is_cstr path" "cstr path = p" "p \<noteq> []" "length p \<le> 2 * REQ_URISZ"
  shows "map_option no_path (find_file os resp path tr) = try_all os resp None (candidates p) tr"
  by (rule find_file_all [OF assms])

theorem find_file_candidates_witness:
  "map_option no_path (find_file ex_os resp_new (lit ''www/docs'') []) =
    try_all ex_os resp_new None [''www/docs'', ''www/docs/index.html'', ''www/docs/index.htm''] []"
  using find_file_candidates [of "lit ''www/docs''" "''www/docs''" ex_os resp_new "[]"]
  by (simp add: REQ_URISZ_def candidates_def del: try_all.simps)

text \<open>C25: the path array holds the document root followed by the URI, byte for byte, whatever the
  URI is: it never overflows, and no segment of the URI is removed, so \<open>..\<close> leads out of the root.\<close>

theorem path_is_root_and_uri:
  assumes "conf_ok conf" "req_ok req" "length (cstr (conf_www conf)) \<le> REQ_URISZ"
  shows "\<exists>path. build_path conf req = Some path \<and> length path \<le> PATHSZ
    \<and> cstr path = cstr (conf_www conf) @ cstr (req_uri req)"
proof -
  have "is_cstr (conf_www conf)" using assms(1) by (simp add: conf_ok_def)
  from build_path_spec [OF this assms(2)] assms(3) show ?thesis by (auto simp: safe_def)
qed

definition ex_req :: "string \<Rightarrow> http_method \<Rightarrow> req_t" where
  "ex_req uri m = req_new\<lparr>req_uri := lit uri, req_meth := m, req_phase := REQ_DONE\<rparr>"

lemma ex_req_ok:
  assumes "no_nul uri" "length uri \<le> REQ_URISZ"
  shows "req_ok (ex_req uri m)" "cstr (req_uri (ex_req uri m)) = uri"
proof -
  have "req_params req_new = None" by (simp add: req_new_def req_reset_def)
  then show "req_ok (ex_req uri m)"
    using req_ok_new assms by (simp add: ex_req_def req_ok_def str_ok_def lit_def)
  show "cstr (req_uri (ex_req uri m)) = uri" using assms by (simp add: ex_req_def)
qed

lemma read_conf_www: "read_conf argv = Some conf \<Longrightarrow> conf_www conf = argv ! 5"
  by (auto simp: read_conf_def bind_eq_Some_conv)

lemma ex_conf_www: "conf_www ex_conf = lit ''www''"
  using read_conf_www [OF ex_conf_ok(2)] by (simp add: ex_argv_def)

theorem path_is_root_and_uri_witness:
  "\<exists>path. build_path ex_conf (ex_req ''/../secret'' M_GET) = Some path \<and> cstr path = ''www/../secret''"
  using path_is_root_and_uri [OF ex_conf_ok(1) ex_req_ok(1) [of "''/../secret''" M_GET]]
    ex_req_ok(2) [of "''/../secret''" M_GET]
  by (auto simp: ex_conf_www REQ_URISZ_def)

section \<open>Building the response\<close>

text \<open>The calls of a lookup whose first candidate is mapped.\<close>

definition mapped_at :: "os \<Rightarrow> trace \<Rightarrow> string \<Rightarrow> stat_t \<Rightarrow> int \<Rightarrow> char list \<Rightarrow> bool" where
  "mapped_at os tr p st fd bs \<longleftrightarrow> os_stat os tr p = Some st \<and> \<not> st_isdir st
     \<and> os_open os (EvStat p # tr) p = Some fd
     \<and> os_mmap os (EvOpen p (Some fd) # EvStat p # tr) fd (st_size st) = Some bs"

lemma resp_mmap_mapped:
  assumes "mapped_at os tr p st fd bs" "is_cstr path" "cstr path = p"
  shows "resp_mmap os resp path st0 tr = Some (st_size st,
    resp\<lparr>resp_mmbuf := Some \<lparr>sz = st_size st, data = bs, data_p = 0\<rparr>\<rparr>, Some st,
    EvClose fd # EvMmap fd (st_size st) (Some bs) # EvOpen p (Some fd) # EvStat p # tr)"
  using assms by (simp add: resp_mmap_def cstr_at_cstr mapped_at_def mmbuf_new_def Let_def)

lemma resp_build_mapped:
  assumes os: "os_ok os" and ok: "conf_ok conf" "req_ok req"
    and p: "p = take REQ_URISZ (cstr (conf_www conf)) @ cstr (req_uri req)"
    and m: "mapped_at os tr p st fd bs" and g: "req_meth req = M_GET \<or> req_meth req = M_HEAD"
  shows "resp_build os resp req conf tr = Some (st_size st mod 2 ^ 32 \<noteq> 0,
    resp\<lparr>resp_alive := req_alive req, resp_mmbuf := Some \<lparr>sz = st_size st, data = bs, data_p = 0\<rparr>,
      resp_clen := st_size st, resp_hdrs := entity_list os p st @ resp_hdrs resp\<rparr>,
    EvClose fd # EvMmap fd (st_size st) (Some bs) # EvOpen p (Some fd) # EvStat p # tr)"
proof -
  obtain path where path: "build_path conf req = Some path" "is_cstr path" "cstr path = p"
    using build_path_spec [of conf req] ok p by (auto simp: conf_ok_def safe_def)
  have sz: "0 \<le> st_size st" using os_okD(8) [OF os] m by (auto simp: mapped_at_def)
  have w: "((word_of_int (st_size st) :: 32 word) \<noteq> 0) = (st_size st mod 2 ^ 32 \<noteq> 0)"
    by (simp add: word_of_int_eq_0_iff dvd_eq_mod_eq_0)
  have ff: "find_file os (resp\<lparr>resp_alive := req_alive req\<rparr>) path tr = Some (True,
      resp\<lparr>resp_alive := req_alive req, resp_mmbuf := Some \<lparr>sz = st_size st, data = bs, data_p = 0\<rparr>\<rparr>, path, Some st,
      EvClose fd # EvMmap fd (st_size st) (Some bs) # EvOpen p (Some fd) # EvStat p # tr)"
    unfolding find_file_def resp_mmap_mapped [OF m path(2,3)] using sz by simp
  show ?thesis
    unfolding resp_build_def Let_def path(1) Option.bind.bind_lunit ff prod.case w
    using g entity_hdrs_spec [OF os path(2)] path(3) by simp
qed

text \<open>C26: a file of less than \<open>2 ^ 32\<close> bytes that can be mapped is served, to GET and HEAD, with its own
  length, type and date: the build succeeds, the response carries the mapped bytes from the first
  one on, the status is left alone, and the descriptor is closed. (A size that is a multiple of
  \<open>2 ^ 32\<close> is C27.)\<close>

theorem static_file_found:
  assumes "os_ok os" "conf_ok conf" "req_ok req" "req_meth req = M_GET \<or> req_meth req = M_HEAD"
    and "p = take REQ_URISZ (cstr (conf_www conf)) @ cstr (req_uri req)"
    and "mapped_at os tr p st fd bs" "st_size st < 2 ^ 32"
  shows "\<exists>resp' tr' mm. resp_build os resp req conf tr = Some (True, resp', tr')
    \<and> resp_mmbuf resp' = Some mm \<and> unread mm = bs \<and> resp_clen resp' = int (length bs)
    \<and> resp_status resp' = resp_status resp
    \<and> resp_hdrs resp' = [(''Last-Modified'', os_date os (st_mtime st)), (''Content-Type'', ctype_of p)]
        @ resp_hdrs resp
    \<and> open_fds tr' = open_fds tr - {fd}"
proof -
  have sz: "0 < st_size st" "int (length bs) = st_size st"
    using os_okD(9) [OF assms(1)] assms(6) by (auto simp: mapped_at_def)
  then have "st_size st mod 2 ^ 32 \<noteq> 0" using assms(7) by simp
  moreover have "unread \<lparr>sz = st_size st, data = bs, data_p = 0\<rparr> = bs"
    using sz(2) by (simp add: unread_def flip: sz(2))
  ultimately show ?thesis
    using resp_build_mapped [OF assms(1,2,3,5,6,4), of resp] sz(2) by (simp add: entity_list_def)
qed

theorem static_file_found_witness:
  "\<exists>resp' tr' mm. resp_build ex_os resp_new (ex_req ''/a.html'' M_GET) ex_conf [] = Some (True, resp', tr')
    \<and> resp_mmbuf resp' = Some mm \<and> unread mm = ''xxxxx'' \<and> resp_clen resp' = 5
    \<and> resp_status resp' = resp_status resp_new
    \<and> resp_hdrs resp' = [(''Last-Modified'', ''now''), (''Content-Type'', ''text/html'')] \<and> open_fds tr' = {}"
proof -
  let ?st = "\<lparr>st_isdir = False, st_size = 5, st_mtime = 0\<rparr>"
  have r: "req_ok (ex_req ''/a.html'' M_GET)" "cstr (req_uri (ex_req ''/a.html'' M_GET)) = ''/a.html''"
    by (rule ex_req_ok; simp add: REQ_URISZ_def)+
  have p: "''www/a.html'' = take REQ_URISZ (cstr (conf_www ex_conf)) @ cstr (req_uri (ex_req ''/a.html'' M_GET))"
    by (simp add: r(2) ex_conf_www REQ_URISZ_def)
  have m: "mapped_at ex_os [] ''www/a.html'' ?st 9 ''xxxxx''"
    by (simp add: mapped_at_def ex_os_def) (simp add: numeral_eq_Suc)
  have ct: "ctype_of ''www/a.html'' = ''text/html''" by code_simp
  have g: "req_meth (ex_req ''/a.html'' M_GET) = M_GET \<or> req_meth (ex_req ''/a.html'' M_GET) = M_HEAD"
    by (simp add: ex_req_def)
  have h: "resp_hdrs resp_new = []" by (simp add: resp_new_def resp_clear_def hdrs_reset_def)
  have d: "os_date ex_os 0 = ''now''" by (simp add: ex_os_def)
  have s5: "st_size ?st < 2 ^ 32" by simp
  from static_file_found [OF ex_os_ok ex_conf_ok(1) r(1) g p m s5, of resp_new]
  show ?thesis by (simp add: ct h d)
qed

text \<open>C27: a file whose size is a multiple of \<open>2^32\<close> is found and mapped, but the size is returned
  as a 32-bit truth value: the handler reports an error, with the status the response had, 200.\<close>

theorem huge_file_refused:
  assumes "os_ok os" "conf_ok conf" "get_conn c s = Some k" "req_ok (conn_req k)"
    and "req_meth (conn_req k) = M_GET \<or> req_meth (conn_req k) = M_HEAD" "resp_status (conn_resp k) = 200"
    and "p = take REQ_URISZ (cstr (conf_www conf)) @ cstr (req_uri (conn_req k))"
    and "mapped_at os (st_trace s) p st fd bs" "st_size st mod 2 ^ 32 = 0"
  shows "\<exists>s'. cn_prepare_static_header os conf err_cb c s = err_cb c 200 s'"
  using resp_build_mapped [OF assms(1,2,4,7,8,5), of "conn_resp k"] assms(3,6,9)
  by (auto simp: cn_prepare_static_header_def Let_def)

definition huge_os :: os where
  "huge_os = ex_os\<lparr>os_stat := \<lambda>_ _. Some \<lparr>st_isdir = False, st_size = 2 ^ 32, st_mtime = 0\<rparr>\<rparr>"

lemma huge_os_ok: "os_ok huge_os"
  using ex_os_ok by (simp add: os_ok_def huge_os_def)

definition ex_static_conn :: "string \<Rightarrow> cstate" where
  "ex_static_conn uri = \<lparr>st_heap = [0 \<mapsto> (cn_new 5 0)\<lparr>conn_req := ex_req uri M_GET\<rparr>], st_trace = []\<rparr>"

theorem huge_file_refused_witness:
  "\<exists>s'. cn_prepare_static_header huge_os ex_conf (\<lambda>_ st s. Some (st, s)) 0 (ex_static_conn ''/iso'') = Some (200, s')"
proof -
  let ?st = "\<lparr>st_isdir = False, st_size = 2 ^ 32, st_mtime = 0\<rparr>"
  let ?k = "(cn_new 5 0)\<lparr>conn_req := ex_req ''/iso'' M_GET\<rparr>"
  have g: "get_conn 0 (ex_static_conn ''/iso'') = Some ?k" "st_trace (ex_static_conn ''/iso'') = []"
    by (simp_all add: ex_static_conn_def get_conn_def)
  have r: "req_ok (conn_req ?k)" "req_meth (conn_req ?k) = M_GET \<or> req_meth (conn_req ?k) = M_HEAD"
    "resp_status (conn_resp ?k) = 200"
    using ex_req_ok(1) [of "''/iso''" M_GET]
    by (simp_all add: REQ_URISZ_def ex_req_def cn_new_def resp_new_def resp_clear_def)
  have m: "mapped_at huge_os (st_trace (ex_static_conn ''/iso''))
      (take REQ_URISZ (cstr (conf_www ex_conf)) @ cstr (req_uri (conn_req ?k))) ?st 9 (replicate (nat (2 ^ 32)) (CHR ''x''))"
    by (simp add: mapped_at_def huge_os_def ex_os_def)
  have z: "st_size ?st mod 2 ^ 32 = 0" by simp
  from huge_file_refused [OF huge_os_ok ex_conf_ok(1) g(1) r refl m z] show ?thesis by auto
qed

lemma try_all_missing:
  "(\<And>tr q. q \<in> set ps \<Longrightarrow> os_stat os tr q = None) \<Longrightarrow> list_all no_nul ps \<Longrightarrow>
    \<exists>tr'. try_all os resp st ps tr = Some (False, resp, st, tr') \<and> open_fds tr' = open_fds tr"
proof (induction ps arbitrary: tr)
  case (Cons p ps)
  have "resp_mmap os resp (lit p) st tr = Some (- 1, resp, st, EvStat p # tr)"
    using Cons.prems by (simp add: resp_mmap_def)
  moreover obtain tr' where "try_all os resp st ps (EvStat p # tr) = Some (False, resp, st, tr')"
      "open_fds tr' = open_fds (EvStat p # tr)"
    using Cons.IH [of "EvStat p # tr"] Cons.prems by auto
  ultimately show ?case by simp
qed simp

text \<open>C28: when no candidate for a request exists, the answer is 404 and no descriptor is opened.\<close>

theorem missing_file_404:
  assumes "os_ok os" "conf_ok conf" "req_ok req"
    and "p = take REQ_URISZ (cstr (conf_www conf)) @ cstr (req_uri req)"
    and "\<And>tr q. q \<in> set (candidates p) \<Longrightarrow> os_stat os tr q = None"
  shows "\<exists>resp' tr'. resp_build os resp req conf tr = Some (False, resp', tr') \<and> resp_status resp' = 404
    \<and> open_fds tr' = open_fds tr"
proof -
  obtain path where path: "build_path conf req = Some path" "is_cstr path" "cstr path = p"
    using build_path_spec [of conf req] assms(2-4) by (auto simp: conf_ok_def safe_def)
  have u: "length (cstr (req_uri req)) \<le> REQ_URISZ"
    using assms(3) str_ok_cstr [of "REQ_URISZ + 1" "req_uri req"] by (auto simp: req_ok_def)
  have pp: "p \<noteq> []" "length p \<le> 2 * REQ_URISZ" "no_nul p"
    using assms(2,4) u path(3) no_nul_cstr [of path] by (auto simp: conf_ok_def REQ_URISZ_def)
  have "list_all no_nul (candidates p)" using pp(3) by (simp add: candidates_def Let_def)
  from try_all_missing [OF assms(5) this]
  obtain tr' where tr': "try_all os (resp\<lparr>resp_alive := req_alive req\<rparr>) None (candidates p) tr =
      Some (False, resp\<lparr>resp_alive := req_alive req\<rparr>, None, tr')" "open_fds tr' = open_fds tr"
    by blast
  then obtain path' where "find_file os (resp\<lparr>resp_alive := req_alive req\<rparr>) path tr =
      Some (False, resp\<lparr>resp_alive := req_alive req\<rparr>, path', None, tr')"
    using find_file_all [OF path(2,3) pp(1,2), of os "resp\<lparr>resp_alive := req_alive req\<rparr>" tr] by auto
  then show ?thesis using path(1) tr'(2) by (simp add: resp_build_def Let_def)
qed

theorem missing_file_404_witness:
  "\<exists>resp' tr'. resp_build (ex_os\<lparr>os_stat := \<lambda>_ _. None\<rparr>) resp_new (ex_req ''/nope'' M_GET) ex_conf [] =
      Some (False, resp', tr') \<and> resp_status resp' = 404 \<and> open_fds tr' = {}"
proof -
  have os: "os_ok (ex_os\<lparr>os_stat := \<lambda>_ _. None\<rparr>)" using ex_os_ok by (simp add: os_ok_def)
  have r: "req_ok (ex_req ''/nope'' M_GET)" by (rule ex_req_ok(1)) (simp_all add: REQ_URISZ_def)
  from missing_file_404 [OF os ex_conf_ok(1) r refl, of resp_new "[]"] show ?thesis by simp
qed

text \<open>A file that is opened but cannot be mapped, as an empty one, counts as missing, and its
  descriptor stays open.\<close>

lemma unmapped_file_leaks:
  assumes "is_cstr path" "cstr path = p" "os_stat os tr p = Some st" "\<not> st_isdir st"
    and "os_open os (EvStat p # tr) p = Some fd"
    and "os_mmap os (EvOpen p (Some fd) # EvStat p # tr) fd (st_size st) = None"
  shows "\<exists>resp' tr'. resp_mmap os resp path st0 tr = Some (- 1, resp', Some st, tr')
    \<and> open_fds tr' = insert fd (open_fds tr)"
  using assms by (simp add: resp_mmap_def cstr_at_cstr mmbuf_new_def Let_def)

lemma unmapped_file_leaks_witness:
  "\<exists>resp' tr'. resp_mmap (ex_os\<lparr>os_stat := \<lambda>_ _. Some \<lparr>st_isdir = False, st_size = 0, st_mtime = 0\<rparr>\<rparr>)
      resp_new (lit ''empty'') None [] = Some (- 1, resp', Some \<lparr>st_isdir = False, st_size = 0, st_mtime = 0\<rparr>, tr')
    \<and> open_fds tr' = {9}"
  using unmapped_file_leaks [of "lit ''empty''" "''empty''"
      "ex_os\<lparr>os_stat := \<lambda>_ _. Some \<lparr>st_isdir = False, st_size = 0, st_mtime = 0\<rparr>\<rparr>" "[]"
      "\<lparr>st_isdir = False, st_size = 0, st_mtime = 0\<rparr>" 9 resp_new None]
  by (simp add: ex_os_def)

section \<open>The header and the media type\<close>

text \<open>C30: the serialised header of a well-formed response is exactly its lines (status, date, server,
  connection, length, entity headers, empty line), at most 310 bytes, and fits the buffer.\<close>

theorem header_serialised:
  assumes "os_ok os" "resp_ok resp" "length m \<le> BUFSZ + 1"
  shows "\<exists>n m'. resp_hdr os resp m tr = Some (int n, m') \<and> take n m' = concat (hdr_lines os resp tr)
    \<and> n = length (concat (hdr_lines os resp tr)) \<and> n \<le> 310 \<and> length m' \<le> BUFSZ + 1"
  using resp_hdr_spec [OF assms(1) _ _ _ _ assms(3), of resp tr] assms(2)
  by (auto simp: resp_ok_def safe_def)

theorem header_serialised_witness:
  "\<exists>n m'. resp_hdr ex_os resp_new [NUL] [] = Some (int n, m') \<and> take n m' =
    ''HTTP/1.1 200 OK'' @ CRLF @ ''Date: now'' @ CRLF @ ''Server: Liso/1.0'' @ CRLF
      @ ''Connection: keep-alive'' @ CRLF @ ''Content-Length: 0'' @ CRLF @ CRLF"
proof -
  have l: "concat (hdr_lines ex_os resp_new []) =
    ''HTTP/1.1 200 OK'' @ CRLF @ ''Date: now'' @ CRLF @ ''Server: Liso/1.0'' @ CRLF
      @ ''Connection: keep-alive'' @ CRLF @ ''Content-Length: 0'' @ CRLF @ CRLF"
    by code_simp
  have "length [NUL] \<le> BUFSZ + 1" by simp
  from header_serialised [OF ex_os_ok resp_ok_new this, of "[]"] show ?thesis unfolding l by blast
qed

text \<open>The media type written for a path is decided by its suffix, case ignored, as the list of
  types says; the value array is never overrun. (The suffix of PNG files is \<open>png\<close>, without a dot.)\<close>

lemma media_type_by_suffix:
  assumes "is_cstr path"
  shows "\<exists>m'. fill_ctype path m = Some m' \<and> cstr m' = ctype_of (cstr path) \<and> length (cstr m') \<le> HDR_VALSZ"
  using fill_ctype_spec [OF assms] ctype_of_bounds [of "cstr path"] by (simp add: HDR_VALSZ_def)

lemma media_type_by_suffix_witness:
  "\<exists>m'. fill_ctype (lit ''/Index.HTML'') [] = Some m' \<and> cstr m' = ''text/html''"
proof -
  have "ctype_of ''/Index.HTML'' = ''text/html''" by code_simp
  then show ?thesis using media_type_by_suffix [of "lit ''/Index.HTML''" "[]"] by auto
qed

end
