(* ===== verification/Waiting.thy ===== *)
theory Waiting
  imports Conn_Props
begin

text \<open>
  No connection is forgotten: between two turns the server waits for the descriptor that lets a
  connection go on. The body of the select loop is followed step by step, with the intermediate
  states its own comments describe.
\<close>

section \<open>What a connection waits for\<close>

text \<open>The CGI side has nothing to relay.\<close>

definition idle_cgi :: "cgi_t \<Rightarrow> bool" where
  "idle_cgi g \<longleftrightarrow> cgi_buf_phase g = BUF_RECV \<and> cgi_phase g \<notin> {CGI_CGI_TO_SRV, CGI_DONE}"

definition apart :: "conn_t \<Rightarrow> bool" where
  "apart k \<longleftrightarrow> conn_fd k \<notin> {srv_in (conn_cgi k), srv_err (conn_cgi k)}"

text \<open>
  A request that is not complete waits for its client to send, a complete static or aborted one for
  the client to receive. A complete dynamic one waits for the CGI program, for the client while
  there are bytes to send, or for both; when the program is done the client is waited for to end
  the response; one that has just been loaded from \<open>last_buf\<close> waits for the client.
\<close>

definition waits :: "conn_t \<Rightarrow> server \<Rightarrow> bool" where
  "waits k s \<longleftrightarrow> apart k \<and>
     (case req_phase (conn_req k) of
        REQ_ABORT \<Rightarrow> idle_cgi (conn_cgi k) \<and> conn_fd k \<in> write_set s
      | REQ_DONE \<Rightarrow>
          (case req_type (conn_req k) of
             REQ_STATIC \<Rightarrow> idle_cgi (conn_cgi k) \<and> conn_fd k \<in> write_set s
           | REQ_DYNAMIC \<Rightarrow>
               (case cgi_phase (conn_cgi k) of
                  CGI_READY \<Rightarrow> idle_cgi (conn_cgi k) \<and> conn_fd k \<in> write_set s
                | CGI_CGI_TO_SRV \<Rightarrow> srv_in (conn_cgi k) \<in> read_set s
                    \<and> (cgi_buf_phase (conn_cgi k) = BUF_SEND \<longrightarrow> conn_fd k \<in> write_set s)
                | CGI_DONE \<Rightarrow> cgi_buf_phase (conn_cgi k) = BUF_SEND \<and> buf_rsize (conn_buf k) = 0
                    \<and> conn_fd k \<in> write_set s
                | _ \<Rightarrow> False))
      | _ \<Rightarrow> idle_cgi (conn_cgi k) \<and> conn_fd k \<in> read_set s)"

text \<open>
  Within a turn a request may be complete with nothing watched yet: after receiving (\<open>arrived\<close>),
  and until the CGI program has its body (\<open>sorted\<close>).
\<close>

definition arrived :: "conn_t \<Rightarrow> server \<Rightarrow> bool" where
  "arrived k s \<longleftrightarrow> waits k s \<or> apart k \<and> idle_cgi (conn_cgi k) \<and> req_phase (conn_req k) = REQ_DONE
     \<and> (req_type (conn_req k) = REQ_STATIC \<or> cgi_phase (conn_cgi k) \<in> {CGI_READY, CGI_SRV_TO_CGI})"

definition sorted_out :: "conn_t \<Rightarrow> server \<Rightarrow> bool" where
  "sorted_out k s \<longleftrightarrow> waits k s \<or> apart k \<and> idle_cgi (conn_cgi k) \<and> req_phase (conn_req k) = REQ_DONE
     \<and> req_type (conn_req k) = REQ_DYNAMIC \<and> cgi_phase (conn_cgi k) = CGI_SRV_TO_CGI"

text \<open>No answer of a CGI program ends in this turn, or nothing is pipelined behind it.\<close>

definition lone :: "conn_t \<Rightarrow> server \<Rightarrow> bool" where
  "lone k s \<longleftrightarrow> req_phase (conn_req k) = REQ_DONE \<and> sz (req_last_buf (conn_req k)) = 0
     \<or> req_phase (conn_req k) = REQ_ABORT
     \<or> cgi_phase (conn_cgi k) \<noteq> CGI_DONE \<and> cgi_buf_phase (conn_cgi k) = BUF_RECV
       \<and> srv_in (conn_cgi k) \<notin> read_ready s"

definition has :: "(conn_t \<Rightarrow> server \<Rightarrow> bool) \<Rightarrow> ptr \<Rightarrow> server \<Rightarrow> bool" where
  "has P c s \<longleftrightarrow> (\<exists>k. get_conn c s = Some k \<and> P k s)"

lemma waits_cong:
  "read_set s' = read_set s \<Longrightarrow> write_set s' = write_set s \<Longrightarrow> waits k s' = waits k s"
  by (simp add: waits_def split: req_phase_t.split req_kind.split cgi_phase_t.split)

lemma waits_put [simp]: "waits k (put_conn c k' s) = waits k s" "waits k (s\<lparr>st_trace := t\<rparr>) = waits k s"
  "waits k (s\<lparr>st_heap := h\<rparr>) = waits k s"
  by (rule waits_cong; simp)+

lemma arrived_put [simp]:
  "arrived k (put_conn c k' s) = arrived k s" "arrived k (s\<lparr>st_trace := t\<rparr>) = arrived k s"
  "sorted_out k (put_conn c k' s) = sorted_out k s" "sorted_out k (s\<lparr>st_trace := t\<rparr>) = sorted_out k s"
  "lone k (put_conn c k' s) = lone k s" "lone k (s\<lparr>st_trace := t\<rparr>) = lone k s"
  by (simp_all add: arrived_def sorted_out_def lone_def put_conn_def)

text \<open>Where the CGI side is idle, buffer and response do not matter.\<close>

lemma waits_idle:
  assumes "idle_cgi (conn_cgi k)"
  shows "waits k s \<longleftrightarrow> apart k \<and>
     (case req_phase (conn_req k) of
        REQ_ABORT \<Rightarrow> conn_fd k \<in> write_set s
      | REQ_DONE \<Rightarrow> conn_fd k \<in> write_set s
          \<and> (req_type (conn_req k) = REQ_STATIC \<or> cgi_phase (conn_cgi k) = CGI_READY)
      | _ \<Rightarrow> conn_fd k \<in> read_set s)"
  using assms by (auto simp: waits_def idle_cgi_def split: req_phase_t.split req_kind.split cgi_phase_t.split)

lemma waits_frame:
  assumes "req_phase (conn_req k') = req_phase (conn_req k)" "req_type (conn_req k') = req_type (conn_req k)"
    "conn_cgi k' = conn_cgi k" "conn_fd k' = conn_fd k" "idle_cgi (conn_cgi k)" "waits k s"
  shows "waits k' s"
  using assms by (simp add: waits_idle apart_def split: req_phase_t.splits)

lemma waits_not_done_idle:
  "waits k s \<Longrightarrow> req_phase (conn_req k) \<noteq> REQ_DONE \<Longrightarrow> idle_cgi (conn_cgi k)"
  by (auto simp: waits_def split: req_phase_t.splits)

section \<open>The callbacks\<close>

lemma conn_err_waits:
  assumes "get_conn c s = Some k" "apart k" "idle_cgi (conn_cgi k)"
  shows "post (liso_conn_err c st s) (\<lambda>(rc, s'). has waits c s' \<and> read_ready s' = read_ready s
    \<and> (\<forall>k'. get_conn c s' = Some k' \<longrightarrow> conn_cgi k' = conn_cgi k \<and> conn_fd k' = conn_fd k
        \<and> req_phase (conn_req k') = REQ_ABORT))"
  unfolding liso_conn_err_def assms(1) Option.bind.bind_lunit Let_def
  using assms(2,3)
  by (intro post_bind)
    (auto simp: set_fd_write_def has_def waits_idle apart_def bind_eq_Some_conv mem_simps)

lemma drop_rc: "post (liso_drop_conn c s) (\<lambda>(rc, s'). rc = - 1)"
  unfolding liso_drop_conn_def by (intro post_bind) auto

section \<open>Parsing\<close>

lemma parse_lines_frame:
  assumes "parse_lines_of k e = Some (r, k')" "req_phase (conn_req k) \<noteq> REQ_ABORT"
  shows "conn_cgi k' = conn_cgi k \<and> conn_fd k' = conn_fd k \<and> conn_resp k' = conn_resp k
    \<and> (r = None \<longrightarrow> req_phase (conn_req k') \<noteq> REQ_ABORT)"
proof (cases "req_phase (conn_req k) = REQ_START \<or> req_phase (conn_req k) = REQ_HEADER")
  case True
  then show ?thesis
    using assms(1)
    by (auto simp: parse_lines_of_def Let_def bind_eq_Some_conv parse_exit_def split: if_splits
        dest!: req_parse_exit)
next
  case False
  then show ?thesis using assms by (simp add: parse_lines_of_def)
qed

lemma take_body_frame:
  "take_body k = Some k' \<Longrightarrow> conn_cgi k' = conn_cgi k \<and> conn_fd k' = conn_fd k \<and> conn_resp k' = conn_resp k
    \<and> (req_phase (conn_req k) \<noteq> REQ_ABORT \<longrightarrow> req_phase (conn_req k') \<noteq> REQ_ABORT)"
  by (auto simp: take_body_def Let_def bind_eq_Some_conv split: if_splits)

lemma body_step_frame:
  assumes "body_step k = Some k'" "req_phase (conn_req k) \<noteq> REQ_ABORT"
  shows "conn_fd k' = conn_fd k \<and> req_phase (conn_req k') \<noteq> REQ_ABORT
    \<and> resp_phase (conn_resp k') \<in> {resp_phase (conn_resp k), RESP_DISABLED}
    \<and> (\<exists>p. conn_cgi k' = (conn_cgi k)\<lparr>cgi_phase := p\<rparr> \<and> p \<in> {cgi_phase (conn_cgi k), CGI_DISABLED, CGI_READY})"
proof -
  have e: "conn_fd (enter_body k) = conn_fd k" "conn_req (enter_body k) = conn_req k"
    "resp_phase (conn_resp (enter_body k)) \<in> {resp_phase (conn_resp k), RESP_DISABLED}"
    "\<exists>p. conn_cgi (enter_body k) = (conn_cgi k)\<lparr>cgi_phase := p\<rparr> \<and> p \<in> {cgi_phase (conn_cgi k), CGI_DISABLED, CGI_READY}"
    by (auto simp: enter_body_def intro: exI [of _ "cgi_phase (conn_cgi k)"])
  show ?thesis
  proof (cases "req_phase (conn_req k) = REQ_BODY")
    case True
    then obtain k2 where k2: "take_body (enter_body k) = Some k2"
      "k' = (if req_type (conn_req k2) = REQ_STATIC then k2\<lparr>conn_buf := buf_reset (conn_buf k2)\<rparr> else k2)"
      using assms(1) by (auto simp: body_step_def bind_eq_Some_conv)
    then show ?thesis using take_body_frame [OF k2(1)] e assms(2) by simp
  next
    case False
    then have "k' = k" using assms(1) by (simp add: body_step_def)
    moreover have "conn_cgi k = (conn_cgi k)\<lparr>cgi_phase := cgi_phase (conn_cgi k)\<rparr>" by simp
    ultimately show ?thesis using assms(2) by blast
  qed
qed

text \<open>What parsing leaves: an incomplete request that is still read, a complete one, or an error.\<close>

definition parsed_into :: "conn_t \<Rightarrow> conn_t \<Rightarrow> server \<Rightarrow> bool" where
  "parsed_into k k' s \<longleftrightarrow> arrived k' s \<and> apart k' \<and> idle_cgi (conn_cgi k')
     \<and> conn_fd k' = conn_fd k \<and> srv_in (conn_cgi k') = srv_in (conn_cgi k)
     \<and> cgi_phase (conn_cgi k') \<in> {cgi_phase (conn_cgi k), CGI_DISABLED, CGI_READY}
     \<and> (req_phase (conn_req k') \<noteq> REQ_DONE \<longrightarrow> waits k' s)
     \<and> (req_phase (conn_req k') = REQ_DONE \<longrightarrow>
          resp_phase (conn_resp k') \<in> {resp_phase (conn_resp k), RESP_DISABLED})"

lemma parsed_into_put [simp]: "parsed_into k k' (put_conn c m s) = parsed_into k k' s"
  by (simp add: parsed_into_def arrived_def)

lemma parsed_into_error:
  assumes "has waits c u" "idle_cgi (conn_cgi k)"
    and "\<forall>k'. get_conn c u = Some k' \<longrightarrow> conn_cgi k' = conn_cgi k \<and> conn_fd k' = conn_fd k
      \<and> req_phase (conn_req k') = REQ_ABORT"
  shows "\<exists>k'. get_conn c u = Some k' \<and> parsed_into k k' u"
proof -
  obtain k' where k': "get_conn c u = Some k'" "waits k' u" using assms(1) by (auto simp: has_def)
  with assms(3) have "conn_cgi k' = conn_cgi k" "conn_fd k' = conn_fd k" "req_phase (conn_req k') = REQ_ABORT"
    by simp_all
  with k' assms(2) show ?thesis by (auto simp: parsed_into_def arrived_def waits_idle)
qed

lemma parsed_into_body:
  assumes b: "body_step k1 = Some k2" and mid: "mid_ok k1" and ap: "apart k1" "idle_cgi (conn_cgi k1)"
    and f: "req_phase (conn_req k1) \<noteq> REQ_ABORT" "conn_fd k1 \<in> read_set s"
  shows "parsed_into k1 k2 s"
proof -
  obtain g where g: "conn_cgi k2 = (conn_cgi k1)\<lparr>cgi_phase := g\<rparr>"
      "g \<in> {cgi_phase (conn_cgi k1), CGI_DISABLED, CGI_READY}"
    and k2: "conn_fd k2 = conn_fd k1" "req_phase (conn_req k2) \<noteq> REQ_ABORT"
      "resp_phase (conn_resp k2) \<in> {resp_phase (conn_resp k1), RESP_DISABLED}"
    using body_step_frame [OF b] f(1) by auto
  have i: "idle_cgi (conn_cgi k2)" "apart k2" using g k2(1) ap by (auto simp: idle_cgi_def apart_def)
  have "conn_ok k2" using postD [OF body_step_spec [OF mid] b] by simp
  then have ph: "req_phase (conn_req k2) = REQ_DONE \<Longrightarrow> req_type (conn_req k2) = REQ_STATIC
      \<or> cgi_phase (conn_cgi k2) \<in> {CGI_READY, CGI_SRV_TO_CGI}"
    using i(1) by (cases "req_type (conn_req k2)")
      (auto simp: conn_ok_def phases_ok_def phases_fit_def idle_cgi_def)
  have w: "req_phase (conn_req k2) \<noteq> REQ_DONE \<Longrightarrow> waits k2 s"
    using i k2(1,2) f(2) by (auto simp: waits_idle split: req_phase_t.split)
  show ?thesis using i g ph k2(1,3) w by (auto simp: arrived_def parsed_into_def)
qed

lemma parse_req_arrives:
  assumes k: "get_conn c s = Some k" "conn_ok k" "apart k" "idle_cgi (conn_cgi k)"
    "req_phase (conn_req k) \<notin> {REQ_ABORT, REQ_DONE}" "conn_fd k \<in> read_set s"
  shows "post (cn_parse_req liso_conn_err c e s) (\<lambda>(rc, s'). read_ready s' = read_ready s
    \<and> (\<exists>k'. get_conn c s' = Some k' \<and> parsed_into k k' s'))"
  unfolding cn_parse_req_def k(1) Option.bind.bind_lunit
proof (rule post_bind, clarify)
  fix r k1
  assume p: "parse_lines_of k e = Some (r, k1)"
  have f: "conn_cgi k1 = conn_cgi k" "conn_fd k1 = conn_fd k" "conn_resp k1 = conn_resp k"
      "r = None \<longrightarrow> req_phase (conn_req k1) \<noteq> REQ_ABORT"
    using parse_lines_frame [OF p] k(5) by auto
  have ap: "apart k1" "idle_cgi (conn_cgi k1)" using k(3,4) f by (simp_all add: apart_def)
  have alike: "parsed_into k k' t = parsed_into k1 k' t" for k' t by (simp add: parsed_into_def f)
  show "post (case r of Some status \<Rightarrow> liso_conn_err c status (put_conn c k1 s)
      | None \<Rightarrow> body_step k1 \<bind> (\<lambda>k. Some (1, put_conn c k s)))
    (\<lambda>(rc, s'). read_ready s' = read_ready s \<and> (\<exists>k'. get_conn c s' = Some k' \<and> parsed_into k k' s'))"
  proof (cases r)
    case (Some st)
    show ?thesis
      unfolding Some option.case alike
      by (rule post_mono [OF conn_err_waits [OF get_put ap]], clarify, intro conjI, simp)
        (rule parsed_into_error [OF _ ap(2)], assumption+)
  next
    case None
    have mid: "mid_ok k1" using postD [OF parse_lines_of_spec [OF k(2)] p] None by simp
    show ?thesis
      unfolding None option.case alike
      by (rule post_bind) (use parsed_into_body [OF _ mid ap] f None k(6) in \<open>auto simp: put_conn_def get_conn_def\<close>)
  qed
qed

section \<open>Reset and the pipelined request\<close>

lemma pl_reset_reads:
  assumes "get_conn c s = Some k" "apart k"
  shows "post (pl_reset_conn c s) (\<lambda>(rc, s'). read_ready s' = read_ready s \<and> conn_fd k \<in> read_set s'
    \<and> fd_ok (conn_fd k) \<and> (\<exists>g. cgi_closed g \<and> cgi_phase g = CGI_IDLE \<and> cgi_buf_phase g = BUF_RECV
    \<and> get_conn c s' = Some (k\<lparr>conn_buf := buf_reset (conn_buf k), conn_req := req_reset (conn_req k),
        conn_resp := resp_clear (conn_resp k), conn_cgi := g\<rparr>)))"
  unfolding pl_reset_conn_def assms(1) Option.bind.bind_lunit resp_reset_def Let_def prod.case
  using assms(2)
  by (intro post_bind) (auto simp: apart_def set_fd_read_def clr_fd_write_def drop_pipe_def clr_fd_read_def
      FD_SET_def FD_CLR_def Let_def close_pipe_def put_conn_def get_conn_def
      dest!: cgi_reset_closed split: if_splits prod.splits)

text \<open>What the end of an answer leaves: a connection that waits, for the next request or to answer
  the one that was pipelined.\<close>

definition started_over :: "conn_t \<Rightarrow> conn_t \<Rightarrow> server \<Rightarrow> bool" where
  "started_over k k' s \<longleftrightarrow> waits k' s \<and> idle_cgi (conn_cgi k') \<and> srv_in (conn_cgi k') < 0 \<and> conn_fd k' = conn_fd k
     \<and> (sz (req_last_buf (conn_req k)) = 0 \<longrightarrow> req_phase (conn_req k') = REQ_START)
     \<and> (req_phase (conn_req k') = REQ_DONE \<longrightarrow> conn_fd k \<notin> read_set s
          \<and> resp_phase (conn_resp k') \<in> {RESP_READY, RESP_DISABLED})"

definition reset_parsed :: "ptr \<Rightarrow> server \<Rightarrow> (int \<times> server) option" where
  "reset_parsed c s = do {
     k \<leftarrow> get_conn c s;
     if req_phase (conn_req k) = REQ_DONE then do {
       s \<leftarrow> clr_fd_read (conn_fd k) s;
       s \<leftarrow> set_fd_write (conn_fd k) s;
       Some (1, s) }
     else Some (1, s) }"

lemma reset_parsed_waits:
  assumes m: "get_conn c s = Some k'" "parsed_into k1 k' s"
    and k1: "conn_fd k1 = conn_fd k" "srv_in (conn_cgi k1) < 0" "cgi_phase (conn_cgi k1) = CGI_IDLE"
      "resp_phase (conn_resp k1) = RESP_READY" "sz (req_last_buf (conn_req k)) \<noteq> 0"
  shows "post (reset_parsed c s) (\<lambda>(rc, s'). read_ready s' = read_ready s
    \<and> (\<exists>k'. get_conn c s' = Some k' \<and> started_over k k' s'))"
  unfolding reset_parsed_def m(1) Option.bind.bind_lunit
proof (rule post_if)
  assume d: "req_phase (conn_req k') = REQ_DONE"
  have "waits k' (s\<lparr>read_set := r, write_set := insert (conn_fd k') w\<rparr>)" for r w
    using m(2) d k1(3) by (auto simp: parsed_into_def arrived_def waits_idle)
  then have "get_conn c (s\<lparr>read_set := r - {conn_fd k'}, write_set := insert (conn_fd k') w\<rparr>) = Some k'
      \<and> started_over k k' (s\<lparr>read_set := r - {conn_fd k'}, write_set := insert (conn_fd k') w\<rparr>)" for r w
    using m d k1 by (auto simp: started_over_def parsed_into_def)
  then show "post (do {
     s \<leftarrow> clr_fd_read (conn_fd k') s;
     s \<leftarrow> set_fd_write (conn_fd k') s;
     Some (1, s) }) (\<lambda>(rc, s'). read_ready s' = read_ready s \<and> (\<exists>k'. get_conn c s' = Some k' \<and> started_over k k' s'))"
    by (cases "fd_ok (conn_fd k')") (simp_all add: clr_fd_read_def set_fd_write_def FD_SET_def FD_CLR_def)
next
  assume "req_phase (conn_req k') \<noteq> REQ_DONE"
  then show "post (Some (1, s)) (\<lambda>(rc, s'). read_ready s' = read_ready s
      \<and> (\<exists>k'. get_conn c s' = Some k' \<and> started_over k k' s'))"
    using m k1 by (auto simp: started_over_def parsed_into_def)
qed

text \<open>The rest of the reset, on the connection as it has been emptied.\<close>

lemma reset_piped_waits:
  assumes s: "conn_fd k \<in> read_set s" "fd_ok (conn_fd k)" and k: "conn_ok k"
    and g: "cgi_closed g" "cgi_phase g = CGI_IDLE" "cgi_buf_phase g = BUF_RECV"
    and m: "m = k\<lparr>conn_buf := buf_reset (conn_buf k), conn_req := req_reset (conn_req k),
      conn_resp := resp_clear (conn_resp k), conn_cgi := g\<rparr>" "get_conn c s = Some m"
  shows "post (do {
     k \<leftarrow> get_conn c s;
     if sz (req_last_buf (conn_req k)) \<noteq> 0 then do {
       k \<leftarrow> load_piped k;
       (_, s) \<leftarrow> cn_parse_req liso_conn_err c 0 (put_conn c k s);
       reset_parsed c s }
     else Some (1, s) }) (\<lambda>(rc, s'). read_ready s' = read_ready s
       \<and> (\<exists>k'. get_conn c s' = Some k' \<and> started_over k k' s'))" (is "post _ ?Q")
proof -
  have ok: "conn_ok m" using reset_conn_ok [OF conn_ok_data [OF k] g(1,2)] by (simp add: m(1))
  have mm: "data_p (conn_buf m) = 0" "req_phase (conn_req m) = REQ_START"
    "req_last_buf (conn_req m) = req_last_buf (conn_req k)" "conn_cgi m = g" "conn_fd m = conn_fd k"
    "resp_phase (conn_resp m) = RESP_READY"
    by (simp_all add: m(1) req_reset_def resp_clear_def)
  have a: "idle_cgi g" "apart m" "srv_in g < 0"
    using g s(2) by (auto simp: idle_cgi_def apart_def cgi_closed_def mm fd_ok_def)
  have empty: "?Q (1, s)" using a s(1) mm m(2) by (simp add: started_over_def waits_idle)
  have piped: "post (do { (_, s) \<leftarrow> cn_parse_req liso_conn_err c 0 (put_conn c k1 s); reset_parsed c s }) ?Q"
    if l: "load_piped m = Some k1" and nz: "sz (req_last_buf (conn_req m)) \<noteq> 0" for k1
  proof -
    have k1: "conn_ok k1" using postD [OF safe_post [OF load_piped_ok [OF ok mm(1,2)]] l] by simp
    have f: "conn_cgi k1 = g" "conn_fd k1 = conn_fd k" "req_phase (conn_req k1) = REQ_START"
        "resp_phase (conn_resp k1) = RESP_READY"
      using l mm by (auto simp: load_piped_def Let_def bind_eq_Some_conv split: if_splits)
    have p: "apart k1" "idle_cgi (conn_cgi k1)" "req_phase (conn_req k1) \<notin> {REQ_ABORT, REQ_DONE}"
      "conn_fd k1 \<in> read_set (put_conn c k1 s)"
      using a f s(1) mm by (simp_all add: apart_def)
    have then_parsed: "post (reset_parsed c s2) ?Q"
      if "read_ready s2 = read_ready (put_conn c k1 s)" "get_conn c s2 = Some k2" "parsed_into k1 k2 s2" for s2 k2
      by (rule post_mono [OF reset_parsed_waits [OF that(2,3) f(2) _ _ f(4)]])
        (use that(1) nz mm a f g in simp_all)
    show ?thesis
      by (rule post_bindI [OF parse_req_arrives [OF get_put k1 p]]) (clarsimp simp only: prod.case, rule then_parsed)
  qed
  show ?thesis
    unfolding m(2) Option.bind.bind_lunit
    by (rule post_if, rule post_bind, erule piped, assumption) (use empty in simp)
qed

lemma reset_waits:
  assumes k: "get_conn c s = Some k" "conn_ok k" "apart k"
  shows "post (liso_reset_or_close c s) (\<lambda>(rc, s'). rc < 0 \<or> read_ready s' = read_ready s
    \<and> (\<exists>k'. get_conn c s' = Some k' \<and> started_over k k' s'))" (is "post _ ?Q")
  unfolding liso_reset_or_close_def k(1) Option.bind.bind_lunit
proof (rule post_if)
  show "post (liso_drop_conn c s) ?Q" by (rule post_mono [OF drop_rc]) auto
qed (rule post_bindI [OF pl_reset_reads [OF k(1,3)]], clarify,
  rule post_mono [OF reset_piped_waits [unfolded reset_parsed_def, OF _ _ k(2) _ _ _ refl]], auto)

section \<open>Receiving\<close>

text \<open>\<open>fits P s0 c s\<close>: the connection satisfies \<open>P\<close> and no answer is about to end with a pipelined
  request behind it; what select reported is as in \<open>s0\<close>.\<close>

definition fd_of :: "ptr \<Rightarrow> server \<Rightarrow> int" where
  "fd_of c s = conn_fd (the (get_conn c s))"

definition fits :: "(conn_t \<Rightarrow> server \<Rightarrow> bool) \<Rightarrow> server \<Rightarrow> ptr \<Rightarrow> server \<Rightarrow> bool" where
  "fits P s0 c s \<longleftrightarrow> read_ready s = read_ready s0
     \<and> (\<exists>k. get_conn c s = Some k \<and> conn_fd k = fd_of c s0 \<and> P k s \<and> lone k s)"

lemma fitsI:
  "get_conn c s = Some k \<Longrightarrow> P k s \<Longrightarrow> lone k s \<Longrightarrow> read_ready s = read_ready s0 \<Longrightarrow>
   conn_fd k = fd_of c s0 \<Longrightarrow> fits P s0 c s"
  by (auto simp: fits_def)

lemma fd_of_get: "get_conn c s = Some k \<Longrightarrow> fd_of c s = conn_fd k"
  by (simp add: fd_of_def)

lemma lone_idle: "idle_cgi (conn_cgi k) \<Longrightarrow> srv_in (conn_cgi k) \<notin> read_ready s \<Longrightarrow> lone k s"
  by (simp add: lone_def idle_cgi_def)

lemma lone_frame:
  "conn_req k' = conn_req k \<Longrightarrow> conn_cgi k' = conn_cgi k \<Longrightarrow> lone k s \<Longrightarrow> read_ready s' = read_ready s \<Longrightarrow> lone k' s'"
  by (simp add: lone_def)

lemma lone_reading:
  "lone k s \<Longrightarrow> req_phase (conn_req k) \<notin> {REQ_DONE, REQ_ABORT} \<Longrightarrow> srv_in (conn_cgi k) \<notin> read_ready s"
  by (simp add: lone_def)

lemma put_ready [simp]: "read_ready (put_conn c k s) = read_ready s" "write_ready (put_conn c k s) = write_ready s"
  by (simp_all add: put_conn_def)

lemma err_fits:
  assumes "get_conn c s = Some k" "apart k" "idle_cgi (conn_cgi k)" "read_ready s = read_ready s0"
    "conn_fd k = fd_of c s0"
  shows "post (liso_conn_err c st s) (\<lambda>(rc, s'). fits waits s0 c s')"
  by (rule post_mono [OF conn_err_waits [OF assms(1-3)]]) (use assms(4,5) in \<open>auto simp: has_def fits_def lone_def\<close>)

lemma recv_ignore_waits:
  assumes k: "get_conn c s = Some k" "waits k s" "idle_cgi (conn_cgi k)" "lone k s"
    and r: "read_ready s = read_ready s0" "conn_fd k = fd_of c s0"
  shows "post (recv_ignore os liso_drop_conn c s) (\<lambda>(rc, s'). 0 \<le> rc \<longrightarrow> fits arrived s0 c s')"
proof -
  have put: "fits arrived s0 c (put_conn c (k\<lparr>conn_buf := b\<rparr>) (s\<lparr>st_trace := t\<rparr>))" for b t
    using k r waits_frame [of "k\<lparr>conn_buf := b\<rparr>" k s] lone_frame [of "k\<lparr>conn_buf := b\<rparr>" k s s]
    by (intro fitsI [OF get_put]) (simp_all add: arrived_def)
  show ?thesis
    unfolding recv_ignore_def k(1) Option.bind.bind_lunit smart_recv_def log_ev_trace Let_def prod.case
    using put
    by (cases "os_recv os (st_trace s) (conn_fd k) BUFSZ")
      (auto intro!: post_bind post_if post_mono [OF drop_rc])
qed

lemma recv_waits:
  assumes os: "os_ok os"
    and k: "get_conn c s = Some k" "conn_ok k" "waits k s" "lone k s" "req_phase (conn_req k) \<noteq> REQ_DONE"
  shows "post (liso_recv os c s) (\<lambda>(rc, s'). 0 \<le> rc \<longrightarrow> fits arrived s c s')" (is "post _ ?Q")
proof -
  note id = waits_not_done_idle [OF k(3,5)]
  have ap: "apart k" using k(3) by (simp add: waits_def)
  have fat: "post (liso_drop_conn c t) ?Q" for t by (rule post_mono [OF drop_rc]) auto
  have keep: "fits arrived s c (put_conn c k' (s\<lparr>st_trace := t\<rparr>))"
    if "conn_req k' = conn_req k" "conn_cgi k' = conn_cgi k" "conn_fd k' = conn_fd k" for k' t
    using that k id waits_frame [of k' k s] lone_frame [of k' k s s] fd_of_get [OF k(1)]
    by (intro fitsI [OF get_put]) (simp_all add: arrived_def)
  have same: "fits arrived s c (s\<lparr>st_trace := t\<rparr>)" for t
    using keep [of k t] k(1) by (simp add: put_same)
  have ign: "post (recv_ignore os liso_drop_conn c s) ?Q"
    by (rule recv_ignore_waits [OF k(1,3) id k(4) refl fd_of_get [OF k(1), symmetric]])
  have parse: "post (cn_parse_req liso_conn_err c e (put_conn c k' (s\<lparr>st_trace := t\<rparr>)) \<bind> (\<lambda>(_, s). Some (1, s))) ?Q"
    if k': "conn_req k' = conn_req k" "conn_cgi k' = conn_cgi k" "conn_fd k' = conn_fd k" "conn_ok k'"
      and na: "req_phase (conn_req k) \<noteq> REQ_ABORT" for k' t e
  proof -
    have "conn_fd k \<in> read_set s"
      using k(3,5) na id by (auto simp: waits_idle split: req_phase_t.splits)
    then have p: "apart k'" "idle_cgi (conn_cgi k')" "req_phase (conn_req k') \<notin> {REQ_ABORT, REQ_DONE}"
      "conn_fd k' \<in> read_set (put_conn c k' (s\<lparr>st_trace := t\<rparr>))"
      using k' ap id na k(5) by (simp_all add: apart_def)
    have sr: "srv_in (conn_cgi k) \<notin> read_ready s" using lone_reading [OF k(4)] k(5) na by simp
    have "fits arrived s c s2" if "read_ready s2 = read_ready (put_conn c k' (s\<lparr>st_trace := t\<rparr>))"
      "get_conn c s2 = Some k2" "arrived k2 s2" "idle_cgi (conn_cgi k2)"
      "conn_fd k2 = conn_fd k'" "srv_in (conn_cgi k2) = srv_in (conn_cgi k')" for s2 k2
      by (rule fitsI [where P = arrived, OF that(2)]) (use that sr k'(2,3) fd_of_get [OF k(1)] in \<open>simp_all add: lone_idle\<close>)
    then show ?thesis
      by (intro post_bindI [OF parse_req_arrives [OF get_put k'(4) p]]) (clarsimp simp only: post_simps prod.case parsed_into_def)
  qed
  have over: "post (liso_conn_err c 400 s \<bind> (\<lambda>(_, s). recv_ignore os liso_drop_conn c s)) ?Q"
  proof (rule post_bindI [OF conn_err_waits [OF k(1) ap id]], clarify)
    fix rc and t :: server
    assume t: "has waits c t" "read_ready t = read_ready s"
      "\<forall>k'. get_conn c t = Some k' \<longrightarrow> conn_cgi k' = conn_cgi k \<and> conn_fd k' = conn_fd k
        \<and> req_phase (conn_req k') = REQ_ABORT"
    then obtain k' where k': "get_conn c t = Some k'" "waits k' t" by (auto simp: has_def)
    then have f: "conn_cgi k' = conn_cgi k" "conn_fd k' = conn_fd k" "lone k' t"
      using t(3) by (simp_all add: lone_def)
    show "post (recv_ignore os liso_drop_conn c t) ?Q"
      by (intro recv_ignore_waits [OF k'(1,2)]) (use id t(2) f fd_of_get [OF k(1)] in simp_all)
  qed
  have msg: "post (buf_write (nat (buf_end (conn_buf k))) bs (conn_buf k) \<bind> (\<lambda>buf.
      if bs = [] then liso_drop_conn c (dead buf)
      else cn_parse_req liso_conn_err c (nat (buf_end (conn_buf k)))
          (put_conn c (k\<lparr>conn_buf := buf\<lparr>sz := sz buf + int (length bs)\<rparr>\<rparr>) (s\<lparr>st_trace := t\<rparr>))
        \<bind> (\<lambda>(_, s). Some (1, s)))) ?Q"
    if "req_phase (conn_req k) \<noteq> REQ_ABORT"
      "os_recv os (st_trace s) (conn_fd k) (nat (int BUFSZ - sz (conn_buf k))) = Some bs" for bs dead t
    by (rule post_bind, rule post_if, rule fat, rule parse)
      (use that recv_conn_ok [OF k(2) os that(1)] in simp_all)
  show ?thesis
    unfolding cn_recv_def k(1) Option.bind.bind_lunit smart_recv_def log_ev_trace put_trace Let_def prod.case
    by (intro post_if) (auto split: option.split intro!: over ign msg fat keep same)
qed

section \<open>The steps of a turn\<close>

lemma sv_recv_fits:
  assumes os: "os_ok os" and k: "get_conn c s = Some k" "conn_ok k" "waits k s" "lone k s"
    and d: "req_phase (conn_req k) = REQ_DONE \<longrightarrow> conn_fd k \<notin> read_ready s"
  shows "post (sv_recv os c s) (\<lambda>(alive, s'). alive \<longrightarrow> fits arrived s c s')"
  unfolding sv_recv_def k(1) Option.bind.bind_lunit
proof (rule post_bind, rule post_if)
  fix r
  assume "isset_read (conn_fd k) s = Some r" r
  then have "req_phase (conn_req k) \<noteq> REQ_DONE"
    using d by (auto simp: isset_read_def FD_ISSET_def split: if_splits)
  from recv_waits [OF os k this]
  show "post (liso_recv os c s \<bind> (\<lambda>(rc, s). Some (0 \<le> rc, s))) (\<lambda>(alive, s'). alive \<longrightarrow> fits arrived s c s')"
    by (auto elim: post_bindI)
qed (use k fd_of_get [OF k(1)] in \<open>auto intro!: fitsI simp: arrived_def\<close>)

lemma sv_logerr_fits:
  assumes "fits arrived s0 c s"
  shows "post (sv_logerr os c s) (fits arrived s0 c)"
proof -
  have "fits arrived s0 c (s\<lparr>st_trace := t\<rparr>)" for t using assms by (auto simp: fits_def)
  then show ?thesis using assms unfolding sv_logerr_def by (intro post_bind post_if) (auto intro!: post_bind)
qed

lemma sv_prepare_fits:
  assumes "fits arrived s0 c s"
  shows "post (sv_prepare os conf c s) (fits arrived s0 c)"
proof -
  obtain k where k: "get_conn c s = Some k" "arrived k s" "lone k s" "read_ready s = read_ready s0"
      "conn_fd k = fd_of c s0"
    using assms by (auto simp: fits_def)
  have run: "post (liso_prepare_static_header os conf c s) (\<lambda>(rc, s'). fits arrived s0 c s')"
    if t: "req_type (conn_req k) = REQ_STATIC" "req_phase (conn_req k) = REQ_DONE"
  proof -
    have ap: "apart k" "idle_cgi (conn_cgi k)" using k(2) t by (auto simp: arrived_def waits_def)
    have put: "fits arrived s0 c (put_conn c k' (s\<lparr>st_trace := tr\<rparr>))"
      if "conn_req k' = conn_req k" "conn_cgi k' = conn_cgi k" "conn_fd k' = conn_fd k" for k' tr
      using that ap t k(3-5) lone_frame [of k' k s s]
      by (intro fitsI [OF get_put]) (simp_all add: arrived_def apart_def)
    have err: "post (liso_conn_err c st (put_conn c k' (s\<lparr>st_trace := tr\<rparr>))) (\<lambda>(rc, s'). fits arrived s0 c s')"
      if "conn_req k' = conn_req k" "conn_cgi k' = conn_cgi k" "conn_fd k' = conn_fd k" for k' st tr
      by (rule post_mono [OF err_fits [OF get_put]])
        (use that ap k(4,5) in \<open>auto simp: apart_def fits_def arrived_def\<close>)
    show ?thesis
      unfolding cn_prepare_static_header_def k(1) Option.bind.bind_lunit Let_def
      by (rule post_bind, clarify, rule post_if) (auto intro!: post_bind put err)
  qed
  show ?thesis
    unfolding sv_prepare_def k(1) Option.bind.bind_lunit
    using assms by (intro post_if) (auto intro!: post_bindI [OF run])
qed

text \<open>The pipe ends a start of the program would give the connection are none of the given descriptors.\<close>

definition ends_avoid :: "os \<Rightarrow> ptr \<Rightarrow> int set \<Rightarrow> server \<Rightarrow> bool" where
  "ends_avoid os c F s \<longleftrightarrow> (\<forall>k b g tr. get_conn c s = Some k \<longrightarrow> cgi_init os (conn_cgi k) (st_trace s) = (b, g, tr) \<longrightarrow>
     (srv_in g = srv_in (conn_cgi k) \<or> srv_in g \<notin> F) \<and> (srv_err g = srv_err (conn_cgi k) \<or> srv_err g \<notin> F))"

lemma cgi_init_buf_phase: "cgi_init os g tr = (b, g', tr') \<Longrightarrow> cgi_buf_phase g' = cgi_buf_phase g"
  by (auto simp: cgi_init_def Let_def close_pipe_def split: option.splits if_splits)

text \<open>After this step no CGI program is still to be started.\<close>

definition begun :: "conn_t \<Rightarrow> server \<Rightarrow> bool" where
  "begun k s \<longleftrightarrow> arrived k s \<and> (req_type (conn_req k) = REQ_DYNAMIC \<longrightarrow> cgi_phase (conn_cgi k) \<noteq> CGI_READY)"

lemma sv_init_cgi_fits:
  assumes "fits arrived s0 c s" and F: "ends_avoid os c F s" "read_ready s0 \<subseteq> F"
    and fd: "\<And>k. get_conn c s = Some k \<Longrightarrow> conn_fd k \<in> F"
  shows "post (sv_init_cgi os c s) (fits begun s0 c)"
proof -
  obtain k where k: "get_conn c s = Some k" "arrived k s" "lone k s" "read_ready s = read_ready s0"
      "conn_fd k = fd_of c s0"
    using assms(1) by (auto simp: fits_def)
  have run: "post (liso_init_cgi os c s) (\<lambda>(rc, s'). fits begun s0 c s')"
    if t: "req_type (conn_req k) = REQ_DYNAMIC" "cgi_phase (conn_cgi k) = CGI_READY"
  proof -
    have ap: "apart k" "idle_cgi (conn_cgi k)"
      using k(2) t by (auto simp: arrived_def waits_def split: req_phase_t.splits)
    obtain b g tr where r: "cgi_init os (conn_cgi k) (st_trace s) = (b, g, tr)" by (metis prod_cases3)
    have fr: "(srv_in g = srv_in (conn_cgi k) \<or> srv_in g \<notin> F) \<and> (srv_err g = srv_err (conn_cgi k) \<or> srv_err g \<notin> F)"
      using F(1) k(1) r unfolding ends_avoid_def by blast
    have g: "cgi_buf_phase g = BUF_RECV" using cgi_init_buf_phase [OF r] ap(2) by (simp add: idle_cgi_def)
    have ap': "conn_fd k \<noteq> srv_in g" "conn_fd k \<noteq> srv_err g"
      using fr ap(1) fd [OF k(1)] by (auto simp: apart_def)
    let ?k = "k\<lparr>conn_cgi := g\<lparr>cgi_phase := CGI_SRV_TO_CGI\<rparr>\<rparr>"
    define u where "u = (put_conn c ?k (s\<lparr>st_trace := tr\<rparr>))\<lparr>read_set := insert (srv_err g) (read_set s)\<rparr>"
    have u: "get_conn c u = Some ?k" "read_set u = insert (srv_err g) (read_set s)" "write_set u = write_set s"
      "read_ready u = read_ready s"
      by (simp_all add: u_def)
    have "arrived ?k u"
      using k(2) t g ap ap' u(2,3)
      by (auto simp: arrived_def waits_def apart_def idle_cgi_def split: req_phase_t.split)
    moreover have "lone ?k u" using k(3-5) fr F(2) g u(4) by (auto simp: lone_def)
    ultimately have ok: "fits begun s0 c u" using u(1,4) k(4,5) by (intro fitsI [OF u(1)]) (simp_all add: begun_def)
    have inited: "post (liso_cgi_inited c (put_conn c ?k (s\<lparr>st_trace := tr\<rparr>))) (\<lambda>(rc, s'). fits begun s0 c s')"
      using ok unfolding u_def liso_cgi_inited_def get_put Option.bind.bind_lunit
      by (simp add: set_fd_read_def FD_SET_def)
    have err: "post (liso_conn_err c 500 (put_conn c (k\<lparr>conn_cgi := g\<lparr>cgi_phase := CGI_ABORT\<rparr>,
          conn_resp := (conn_resp k)\<lparr>resp_phase := RESP_ABORT\<rparr>\<rparr>) (s\<lparr>st_trace := tr\<rparr>))) (\<lambda>(rc, s'). fits begun s0 c s')"
      by (rule post_mono [OF post_conj [OF err_fits [OF get_put] conn_err_waits [OF get_put]]])
        (use g ap' k(4,5) in \<open>auto simp: apart_def idle_cgi_def fits_def arrived_def begun_def\<close>)
    show ?thesis
      unfolding cn_init_cgi_def k(1) Option.bind.bind_lunit r Let_def prod.case
      by (rule post_if) (rule inited, rule err)
  qed
  show ?thesis
    unfolding sv_init_cgi_def k(1) Option.bind.bind_lunit
    using k by (intro post_if) (auto intro!: post_bindI [OF run] fitsI simp: begun_def)
qed

lemma sv_select_sets_fits:
  assumes "fits begun s0 c s"
  shows "post (sv_select_sets c s) (fits sorted_out s0 c)"
proof -
  obtain k where k: "get_conn c s = Some k" "begun k s" "lone k s" "read_ready s = read_ready s0"
      "conn_fd k = fd_of c s0"
    using assms by (auto simp: fits_def)
  have d: "post (do {
      s \<leftarrow> clr_fd_read (conn_fd k) s;
      if req_type (conn_req k) = REQ_STATIC then set_fd_write (conn_fd k) s else Some s }) (fits sorted_out s0 c)"
    if p: "req_phase (conn_req k) = REQ_DONE"
  proof (cases "req_type (conn_req k)")
    case REQ_STATIC
    then have "idle_cgi (conn_cgi k)" "apart k" using k(2) p by (auto simp: begun_def arrived_def waits_def)
    then have "fits sorted_out s0 c (s\<lparr>read_set := r, write_set := insert (conn_fd k) w\<rparr>)" for r w
      using k p REQ_STATIC by (intro fitsI) (auto simp: sorted_out_def waits_idle lone_def)
    then show ?thesis
      using REQ_STATIC by (auto simp: clr_fd_read_def set_fd_write_def FD_SET_def FD_CLR_def)
  next
    case REQ_DYNAMIC
    then have "sorted_out k (s\<lparr>read_set := read_set s - {conn_fd k}\<rparr>)"
      using k(2) p by (cases "cgi_phase (conn_cgi k)")
        (simp_all add: sorted_out_def begun_def arrived_def waits_def apart_def)
    moreover have "lone k (s\<lparr>read_set := r\<rparr>)" for r using k(3) by (simp add: lone_def)
    ultimately have "fits sorted_out s0 c (s\<lparr>read_set := read_set s - {conn_fd k}\<rparr>)"
      using k(1,4,5) by (intro fitsI [where P = sorted_out]) simp_all
    then show ?thesis using REQ_DYNAMIC by (auto simp: clr_fd_read_def FD_CLR_def)
  qed
  show ?thesis
    unfolding sv_select_sets_def k(1) Option.bind.bind_lunit
    using d k by (intro post_if) (auto intro!: fitsI simp: sorted_out_def begun_def arrived_def)
qed

lemma sv_to_cgi_fits:
  assumes "fits sorted_out s0 c s"
  shows "post (sv_to_cgi os c s) (fits waits s0 c)"
proof -
  obtain k where k: "get_conn c s = Some k" "sorted_out k s" "lone k s" "read_ready s = read_ready s0"
      "conn_fd k = fd_of c s0"
    using assms by (auto simp: fits_def)
  let ?rest = "\<lambda>s. do {
       k \<leftarrow> get_conn c s;
       if req_phase (conn_req k) = REQ_DONE then do {
         let (so, tr) = close_pipe (srv_out (conn_cgi k)) (st_trace s);
         s \<leftarrow> set_cgi c (\<lambda>g. g\<lparr>srv_out := so\<rparr>) (s\<lparr>st_trace := tr\<rparr>);
         s \<leftarrow> set_fd_read (srv_in (conn_cgi k)) s;
         set_cgi c (\<lambda>g. g\<lparr>cgi_phase := CGI_CGI_TO_SRV\<rparr>) s }
       else Some s }"
  have run: "post (liso_stream_to_cgi os c s \<bind> (\<lambda>(_, s). ?rest s)) (fits waits s0 c)"
    if t: "req_type (conn_req k) = REQ_DYNAMIC" "cgi_phase (conn_cgi k) = CGI_SRV_TO_CGI"
  proof -
    have id: "idle_cgi (conn_cgi k)" "apart k"
      using k(2) t by (auto simp: sorted_out_def waits_def split: req_phase_t.splits)
    have w: "req_phase (conn_req k) \<noteq> REQ_DONE \<Longrightarrow> waits k s" using k(2) by (simp add: sorted_out_def)
    let ?k1 = "k\<lparr>conn_buf := buf_reset (conn_buf k)\<rparr>"
    have fin: "fits waits s0 c u"
      if "get_conn c u = Some (?k1\<lparr>conn_cgi := (conn_cgi k)\<lparr>srv_out := so, cgi_phase := CGI_CGI_TO_SRV\<rparr>\<rparr>)"
        "read_set u = insert (srv_in (conn_cgi k)) r" "read_ready u = read_ready s"
        "req_phase (conn_req k) = REQ_DONE" for so u r
      using that id t(1) k(3-5)
      by (intro fitsI [where P = waits, OF that(1)]) (auto simp: waits_def apart_def idle_cgi_def lone_def)
    have keep: "fits waits s0 c (put_conn c ?k1 (s\<lparr>st_trace := tr\<rparr>))"
      if "req_phase (conn_req k) \<noteq> REQ_DONE" for tr
    proof (rule fitsI [where P = waits, OF get_put])
      show "waits ?k1 (put_conn c ?k1 (s\<lparr>st_trace := tr\<rparr>))"
        using waits_frame [OF _ _ _ _ id(1) w [OF that], of ?k1] by simp
      show "lone ?k1 (put_conn c ?k1 (s\<lparr>st_trace := tr\<rparr>))"
        using lone_frame [of ?k1 k s s] k(3) by simp
    qed (use k(4,5) in simp_all)
    have rest: "post (?rest (put_conn c ?k1 (s\<lparr>st_trace := tr\<rparr>))) (fits waits s0 c)" for tr
      unfolding get_put Option.bind.bind_lunit
      apply (rule post_if)
      subgoal by (cases "fd_ok (srv_in (conn_cgi k))")
          (auto simp: set_cgi_def set_fd_read_def FD_SET_def Let_def split: prod.split intro!: fin)
      using keep by simp
    have failed: "post (?rest u) (fits waits s0 c)" if u: "fits waits s0 c u"
      "\<forall>k'. get_conn c u = Some k' \<longrightarrow> req_phase (conn_req k') = REQ_ABORT" for u
    proof -
      obtain k' where "get_conn c u = Some k'" using u(1) by (auto simp: fits_def)
      then show ?thesis using u by simp
    qed
    have err: "post (liso_conn_err c 500 (s\<lparr>st_trace := tr\<rparr>)) (\<lambda>(rc, u). fits waits s0 c u
        \<and> (\<forall>k'. get_conn c u = Some k' \<longrightarrow> req_phase (conn_req k') = REQ_ABORT))" for tr
      by (rule post_mono [OF post_conj [OF err_fits conn_err_waits]]) (use k id in auto)
    have "post (liso_stream_to_cgi os c s) (\<lambda>(rc, u). (\<exists>tr. u = put_conn c ?k1 (s\<lparr>st_trace := tr\<rparr>))
        \<or> fits waits s0 c u \<and> (\<forall>k'. get_conn c u = Some k' \<longrightarrow> req_phase (conn_req k') = REQ_ABORT))"
      unfolding cn_stream_to_cgi_def k(1) Option.bind.bind_lunit Let_def
      by (rule post_bind, clarify, rule post_if, rule post_mono [OF err]) auto
    then show ?thesis
      by (rule post_bindI, clarify) (elim disjE exE conjE, hypsubst, rule rest, rule failed, assumption+)
  qed
  show ?thesis
    unfolding sv_to_cgi_def k(1) Option.bind.bind_lunit
    using run k by (intro post_if) (auto intro!: fitsI simp: sorted_out_def)
qed

text \<open>What the CGI program wrote is read; the client is waited for to take it.\<close>

abbreviation took :: "conn_t \<Rightarrow> string \<Rightarrow> buf_t \<Rightarrow> conn_t" where
  "took k bs buf \<equiv> k\<lparr>conn_buf := buf\<lparr>sz := int (length bs)\<rparr>, conn_cgi := (conn_cgi k)\<lparr>cgi_buf_phase := BUF_SEND,
     cgi_phase := (if bs = [] then CGI_DONE else cgi_phase (conn_cgi k))\<rparr>\<rparr>"

definition after_read :: "ptr \<Rightarrow> server \<Rightarrow> server option" where
  "after_read c s = do {
     k \<leftarrow> get_conn c s;
     s \<leftarrow> (if cgi_buf_phase (conn_cgi k) = BUF_SEND then set_fd_write (conn_fd k) s else Some s);
     if cgi_phase (conn_cgi k) = CGI_DONE then do {
       s \<leftarrow> clr_fd_read (srv_in (conn_cgi k)) s;
       let (si, tr) = close_pipe (srv_in (conn_cgi k)) (st_trace s);
       set_cgi c (\<lambda>g. g\<lparr>srv_in := si\<rparr>) (s\<lparr>st_trace := tr\<rparr>) }
     else Some s }"

text \<open>A connection that reads from its CGI program, with nothing of it to send yet.\<close>

definition reading_cgi :: "server \<Rightarrow> ptr \<Rightarrow> server \<Rightarrow> conn_t \<Rightarrow> bool" where
  "reading_cgi s0 c s k \<longleftrightarrow> get_conn c s = Some k \<and> read_ready s = read_ready s0 \<and> conn_fd k = fd_of c s0
     \<and> 0 \<le> conn_fd k \<and> data_p (conn_buf k) = 0 \<and> cgi_phase (conn_cgi k) = CGI_CGI_TO_SRV
     \<and> cgi_buf_phase (conn_cgi k) = BUF_RECV \<and> req_phase (conn_req k) = REQ_DONE
     \<and> req_type (conn_req k) = REQ_DYNAMIC \<and> sz (req_last_buf (conn_req k)) = 0
     \<and> srv_in (conn_cgi k) \<in> read_set s \<and> apart k"

lemma after_read_fits:
  assumes k: "reading_cgi s0 c s k" and b: "buf_write 0 bs (conn_buf k) = Some buf"
  shows "post (after_read c (put_conn c (took k bs buf) (s\<lparr>st_trace := tr\<rparr>))) (fits waits s0 c)"
proof (cases "bs = []")
  case True
  have dp: "data_p buf = 0" using buf_write_ok [OF b] k by (simp add: reading_cgi_def)
  have over: "fits waits s0 c u"
    if "get_conn c u = Some ((took k [] buf)\<lparr>conn_cgi := (conn_cgi k)\<lparr>cgi_buf_phase := BUF_SEND,
        cgi_phase := CGI_DONE, srv_in := - 1\<rparr>\<rparr>)"
      "write_set u = insert (conn_fd k) (write_set s)" "read_ready u = read_ready s" for u
    by (rule fitsI [where P = waits, OF that(1)])
      (use that k dp in \<open>simp_all add: reading_cgi_def waits_def apart_def lone_def buf_rsize_def\<close>)
  show ?thesis
    unfolding after_read_def get_put Option.bind.bind_lunit
    using True by (cases "fd_ok (srv_in (conn_cgi k))"; cases "fd_ok (conn_fd k)")
      (auto simp: set_fd_write_def clr_fd_read_def FD_SET_def FD_CLR_def set_cgi_def close_pipe_def fd_ok_def
        intro!: over)
next
  case False
  have more: "fits waits s0 c u"
    if "get_conn c u = Some (k\<lparr>conn_buf := buf\<lparr>sz := int (length bs)\<rparr>, conn_cgi := (conn_cgi k)
        \<lparr>cgi_buf_phase := BUF_SEND, cgi_phase := CGI_CGI_TO_SRV\<rparr>\<rparr>)"
      "write_set u = insert (conn_fd k) (write_set s)" "read_set u = read_set s" "read_ready u = read_ready s" for u
    by (rule fitsI [where P = waits, OF that(1)])
      (use that k in \<open>simp_all add: reading_cgi_def waits_def apart_def lone_def\<close>)
  have "cgi_phase (conn_cgi k) = CGI_CGI_TO_SRV" using k by (simp add: reading_cgi_def)
  then show ?thesis
    unfolding after_read_def get_put Option.bind.bind_lunit
    using False by (cases "fd_ok (conn_fd k)") (simp_all add: set_fd_write_def FD_SET_def more)
qed

lemma stream_from_cgi_fits:
  assumes k: "reading_cgi s0 c s k"
  shows "post (liso_stream_from_cgi os c s) (\<lambda>(rc, u).
    (\<exists>bs buf tr. buf_write 0 bs (conn_buf k) = Some buf \<and> u = put_conn c (took k bs buf) (s\<lparr>st_trace := tr\<rparr>))
    \<or> fits waits s0 c u \<and> (\<forall>k'. get_conn c u = Some k' \<longrightarrow>
        cgi_buf_phase (conn_cgi k') = BUF_RECV \<and> cgi_phase (conn_cgi k') = CGI_ABORT))"
proof -
  have g: "get_conn c s = Some k" using k by (simp add: reading_cgi_def)
  have err: "post (liso_conn_err c 500 (put_conn c (k\<lparr>conn_buf := (conn_buf k)\<lparr>sz := - 1\<rparr>,
        conn_cgi := (conn_cgi k)\<lparr>cgi_phase := CGI_ABORT\<rparr>\<rparr>) (s\<lparr>st_trace := tr\<rparr>)))
      (\<lambda>(rc, u). fits waits s0 c u \<and> (\<forall>k'. get_conn c u = Some k' \<longrightarrow>
        cgi_buf_phase (conn_cgi k') = BUF_RECV \<and> cgi_phase (conn_cgi k') = CGI_ABORT))" for tr
    by (rule post_mono [OF post_conj [OF err_fits [OF get_put] conn_err_waits [OF get_put]]])
      (use k in \<open>auto simp: reading_cgi_def apart_def idle_cgi_def\<close>)
  show ?thesis
    unfolding cn_stream_from_cgi_def g Option.bind.bind_lunit Let_def log_ev_trace
    apply (split option.split, intro conjI allI impI)
     apply (rule post_mono [OF err], blast)
    apply (rule post_bind, simp only: post_simps prod.case, blast)
    done
qed

lemma sv_from_cgi_fits:
  assumes "fits waits s0 c s" and c: "\<And>k. get_conn c s = Some k \<Longrightarrow> conn_ok k \<and> 0 \<le> conn_fd k"
  shows "post (sv_from_cgi os c s) (fits waits s0 c)"
proof -
  obtain k where k: "get_conn c s = Some k" "waits k s" "lone k s" "read_ready s = read_ready s0"
      "conn_fd k = fd_of c s0"
    using assms(1) by (auto simp: fits_def)
  have failed: "post (after_read c u) (fits waits s0 c)" if u: "fits waits s0 c u"
    "\<forall>k'. get_conn c u = Some k' \<longrightarrow> cgi_buf_phase (conn_cgi k') = BUF_RECV \<and> cgi_phase (conn_cgi k') = CGI_ABORT"
    for u
  proof -
    obtain k' where "get_conn c u = Some k'" using u(1) by (auto simp: fits_def)
    then show ?thesis using u by (simp add: after_read_def)
  qed
  have run: "post (liso_stream_from_cgi os c s \<bind> (\<lambda>(_, s). after_read c s)) (fits waits s0 c)"
    if t: "cgi_phase (conn_cgi k) = CGI_CGI_TO_SRV" "cgi_buf_phase (conn_cgi k) = BUF_RECV"
      "srv_in (conn_cgi k) \<in> read_ready s"
  proof -
    have "reading_cgi s0 c s k"
      using k t c [OF k(1)] by (auto simp: reading_cgi_def waits_def idle_cgi_def lone_def conn_ok_def data_ok_def
          split: req_phase_t.splits req_kind.splits)
    then show ?thesis
      by (intro post_bindI [OF stream_from_cgi_fits]) (auto intro: after_read_fits failed)
  qed
  show ?thesis
    unfolding sv_from_cgi_def k(1) Option.bind.bind_lunit
    apply (rule post_bind, rule post_if)
     apply (rule run [unfolded after_read_def])
    using assms(1) by (auto simp: isset_read_def FD_ISSET_def split: if_splits)
qed

lemma sv_send_dynamic_waits:
  assumes k: "get_conn c s = Some k" "waits k s" "lone k s" "conn_ok k"
  shows "post (sv_send_dynamic os c s) (\<lambda>(alive, s'). alive \<longrightarrow> has waits c s')"
proof -
  have run: "post (liso_serve_dynamic os c s) (\<lambda>(rc, u). rc < 0 \<or> (\<exists>k'. get_conn c u = Some k' \<and> waits k' u
      \<and> (cgi_buf_phase (conn_cgi k') = BUF_RECV \<longrightarrow> waits k' (u\<lparr>write_set := write_set u - {conn_fd k'}\<rparr>))))"
    (is "post _ ?Q") if t: "cgi_buf_phase (conn_cgi k) = BUF_SEND"
  proof -
    have d: "apart k" "sz (req_last_buf (conn_req k)) = 0" "req_phase (conn_req k) = REQ_DONE"
        "req_type (conn_req k) = REQ_DYNAMIC" "conn_fd k \<in> write_set s"
        "cgi_phase (conn_cgi k) = CGI_CGI_TO_SRV \<and> srv_in (conn_cgi k) \<in> read_set s
          \<or> cgi_phase (conn_cgi k) = CGI_DONE \<and> buf_rsize (conn_buf k) = 0"
      using k(2,3) t by (auto simp: waits_def idle_cgi_def lone_def
          split: req_phase_t.splits req_kind.splits cgi_phase_t.splits)
    have over: "post (liso_reset_or_close c s) ?Q"
      by (rule post_mono [OF reset_waits [OF k(1,4) d(1)]]) (use d(2) in \<open>auto simp: waits_idle started_over_def\<close>)
    have fat: "post (liso_drop_conn c t) ?Q" for t by (rule post_mono [OF drop_rc]) auto
    have part: "waits k u" if "read_set u = read_set s" "write_set u = write_set s" for u
      using k(2) waits_cong [OF that] by simp
    have whole: "waits (k\<lparr>conn_cgi := (conn_cgi k)\<lparr>cgi_buf_phase := BUF_RECV\<rparr>\<rparr>) u"
      if "read_set u = read_set s" "buf_rsize (conn_buf k) \<noteq> 0 \<or> cgi_phase (conn_cgi k) \<noteq> CGI_DONE" for u
      using d that by (auto simp: waits_def apart_def)
    show ?thesis
      unfolding cn_serve_dynamic_def k(1) Option.bind.bind_lunit smart_send_def log_ev_trace Let_def prod.case
      by (intro post_if post_bind over fat) (use part whole t in \<open>auto simp: put_conn_def get_conn_def\<close>)
  qed
  show ?thesis
    unfolding sv_send_dynamic_def k(1) Option.bind.bind_lunit
    apply (rule post_bind, rule post_if, rule post_bindI [OF run], simp)
     apply (clarify, rule post_if, simp)
     apply (rule post_bind, rule post_if)
    using k by (auto simp: has_def clr_fd_write_def FD_CLR_def)
qed

lemma live_facts:
  assumes "live sock ssl s1 c s" "get_conn c s = Some k"
  shows "conn_ok k" "0 \<le> conn_fd k"
  using live_get [OF assms(1)] live_fd_ok [OF assms] assms(2) by (auto simp: fd_ok_def)

lemma sv_dynamic_waits:
  assumes "fits waits s0 c s" and lv: "live sock ssl s1 c s" "os_ok os"
  shows "post (sv_dynamic os c s) (\<lambda>(alive, s'). alive \<longrightarrow> has waits c s')"
proof -
  obtain k where k: "get_conn c s = Some k" "waits k s" using assms(1) by (auto simp: fits_def)
  have "post (sv_send_dynamic os c u) (\<lambda>(alive, s'). alive \<longrightarrow> has waits c s')"
    if u: "fits waits s0 c u" "live sock ssl s1 c u" for u
  proof -
    obtain m where "get_conn c u = Some m" "waits m u" "lone m u" using u(1) by (auto simp: fits_def)
    then show ?thesis using live_facts [OF u(2)] by (intro sv_send_dynamic_waits) auto
  qed
  then show ?thesis
    unfolding sv_dynamic_def k(1) Option.bind.bind_lunit
    using k live_facts [OF lv(1)]
    by (intro post_if post_bindI [OF post_conj [OF sv_from_cgi_fits [OF assms(1)] sv_from_cgi_live [OF lv]]])
      (auto simp: has_def)
qed

lemma sv_static_waits:
  assumes k: "get_conn c s = Some k" "waits k s" "conn_ok k" and os: "os_ok os"
  shows "post (sv_static os c s) (\<lambda>(alive, s'). alive \<longrightarrow> has waits c s')"
proof -
  let ?Q = "\<lambda>(rc, u). 0 \<le> (rc::int) \<longrightarrow> has waits c u"
  have run: "post (liso_serve_static os c s) ?Q" if t: "resp_phase (conn_resp k) \<noteq> RESP_DISABLED"
  proof -
    have ap: "apart k" using k(2) by (simp add: waits_def)
    have id: "idle_cgi (conn_cgi k)"
      using k(2,3) t by (cases "req_type (conn_req k)")
        (auto simp: waits_def conn_ok_def phases_ok_def phases_fit_def split: req_phase_t.splits)
    have put: "waits k' (put_conn c k' (s\<lparr>st_trace := tr\<rparr>))"
      if "conn_req k' = conn_req k" "conn_cgi k' = conn_cgi k" "conn_fd k' = conn_fd k" for k' tr
      using waits_frame [of k' k s] that id k(2) by simp
    have fat: "post (liso_drop_conn c t) ?Q" for t by (rule post_mono [OF drop_rc]) auto
    have over: "post (liso_reset_or_close c (put_conn c k' (s\<lparr>st_trace := tr\<rparr>))) ?Q"
      if "conn_ok k'" "conn_cgi k' = conn_cgi k" "conn_fd k' = conn_fd k" for k' tr
      by (rule post_mono [OF reset_waits [OF get_put that(1)]]) (use that ap in \<open>auto simp: apart_def has_def started_over_def\<close>)
    have sent: "has waits c (put_conn c k' (s\<lparr>st_trace := tr\<rparr>))"
      if "conn_req k' = conn_req k" "conn_cgi k' = conn_cgi k" "conn_fd k' = conn_fd k" for k' tr
      using put [OF that] by (simp add: has_def)
    have page: "post (cn_send_error_page os liso_reset_or_close liso_drop_conn c s) ?Q"
      if p: "resp_phase (conn_resp k) = RESP_ABORT"
      unfolding cn_send_error_page_def k(1) Option.bind.bind_lunit
    proof (rule post_bind, goal_cases)
      case (1 k1)
      have f: "conn_req k1 = conn_req k" "conn_cgi k1 = conn_cgi k" "conn_fd k1 = conn_fd k"
        using 1 by (auto simp: error_page_def Let_def bind_eq_Some_conv)
      have "conn_ok k1" "req_phase (conn_req k1) = REQ_ABORT"
        using postD [OF safe_post [OF error_page_spec [OF os k(3) p]] 1] by simp_all
      then have up: "conn_ok (k1\<lparr>conn_buf := (conn_buf k1)\<lparr>data_p := n\<rparr>\<rparr>)" for n
        by (simp add: conn_ok_def phases_ok_def data_ok_def)
      show ?case
        unfolding smart_send_def log_ev_trace Let_def prod.case
        by (intro post_bind post_if) (auto intro!: fat over [OF up] sent simp: f)
    qed
    have hdr: "post (cn_serve_header os liso_reset_or_close liso_drop_conn c k s) ?Q"
      if p: "resp_phase (conn_resp k) = RESP_HEADER"
      unfolding cn_serve_header_def smart_send_def log_ev_trace Let_def prod.case
      apply (rule post_bind, rule post_if, rule fat)
      apply (rule post_bind, rule post_if)
       apply (rule over [OF header_sent_ok [OF k(3) os p]], assumption, rule refl, simp, simp, simp)
      apply (simp only: post_simps prod.case, rule impI, rule sent, simp_all)
      done
    have body: "post (cn_serve_body os liso_reset_or_close liso_drop_conn c k s) ?Q"
      if p: "resp_phase (conn_resp k) = RESP_BODY"
      unfolding cn_serve_body_def smart_send_def log_ev_trace Let_def prod.case
      apply (rule post_bind, rule post_bind, rule post_if, rule fat)
      apply (rule post_if)
       apply (rule over [OF body_sent_ok [OF k(3) os p]], assumption, assumption, rule refl, simp, simp, simp)
      apply (simp only: post_simps prod.case, rule impI, rule sent, simp_all)
      done
    have "has waits c s" using k(1,2) by (auto simp: has_def)
    then show ?thesis
      unfolding cn_serve_static_def k(1) Option.bind.bind_lunit
      using page hdr body by (cases "resp_phase (conn_resp k)") simp_all
  qed
  show ?thesis
    unfolding sv_static_def k(1) Option.bind.bind_lunit
    apply (rule post_bind, rule post_if, rule post_bindI [OF run], simp, clarsimp)
    using k by (auto simp: has_def)
qed

section \<open>One turn\<close>

text \<open>\<open>A\<close> is what the steps up to the start of the program keep, so that its pipe ends are new.\<close>

lemma serve_conn_waits:
  assumes p: "pool_ok sock ssl s" and os: "os_ok os" "conf_ok conf" and k: "get_conn c s = Some k" "waits k s" "lone k s"
    and d: "req_phase (conn_req k) = REQ_DONE \<longrightarrow> conn_fd k \<notin> read_ready s"
    and A: "A s" "\<And>u. A u \<Longrightarrow> post (sv_recv os c u) (\<lambda>(alive, u'). alive \<longrightarrow> A u')"
      "\<And>u. A u \<Longrightarrow> post (sv_logerr os c u) A" "\<And>u. A u \<Longrightarrow> post (sv_prepare os conf c u) A"
      "\<And>u. A u \<Longrightarrow> live sock ssl s c u \<Longrightarrow> ends_avoid os c (insert (conn_fd k) (read_ready s)) u"
  shows "post (serve_conn os conf c s) (\<lambda>(alive, s'). alive \<longrightarrow> has waits c s')"
proof -
  have lv: "live sock ssl s c s" using p k(1) by (auto simp: get_conn_def intro: live_refl)
  note ok = live_facts [OF lv k(1)]
  let ?I = "\<lambda>P u. live sock ssl s c u \<and> fits P s c u"
  have fd: "conn_fd m \<in> insert (conn_fd k) (read_ready s)" if "get_conn c u = Some m" "fits P s c u" for P u m
    using that fd_of_get [OF k(1)] by (auto simp: fits_def)
  have last: "post (sv_dynamic os c u \<bind> (\<lambda>(alive, s). if \<not> alive then Some (False, s) else sv_static os c s))
      (\<lambda>(alive, s'). alive \<longrightarrow> has waits c s')" if u: "?I waits u" for u
  proof (rule post_bindI [OF post_conj [OF sv_dynamic_waits sv_dynamic_live]])
    fix x
    assume x: "(case x of (alive, s') \<Rightarrow> alive \<longrightarrow> has waits c s') \<and> served sock ssl s c x"
    show "post (case x of (alive, s) \<Rightarrow> if \<not> alive then Some (False, s) else sv_static os c s)
        (\<lambda>(alive, s'). alive \<longrightarrow> has waits c s')"
    proof (cases x)
      case (Pair alive v)
      show ?thesis
      proof (cases alive)
        case True
        then obtain m where m: "get_conn c v = Some m" "waits m v" "live sock ssl s c v"
          using x Pair by (auto simp: has_def)
        show ?thesis
          using sv_static_waits [OF m(1,2) live_facts(1) [OF m(3,1)] os(1)] Pair True by simp
      qed (use Pair in simp)
    qed
  qed (use u os(1) in auto)
  have rest: "post (do {
       s \<leftarrow> sv_logerr os c u;
       s \<leftarrow> sv_prepare os conf c s;
       s \<leftarrow> sv_init_cgi os c s;
       s \<leftarrow> sv_select_sets c s;
       s \<leftarrow> sv_to_cgi os c s;
       (alive, s) \<leftarrow> sv_dynamic os c s;
       if \<not> alive then Some (False, s)
       else sv_static os c s }) (\<lambda>(alive, s'). alive \<longrightarrow> has waits c s')" if u: "?I arrived u" "A u" for u
    apply (rule post_bindI [OF post_conj [OF A(3) [OF u(2)] post_conj [OF sv_logerr_live sv_logerr_fits]]],
        rule conjunct1 [OF u(1)], rule conjunct2 [OF u(1)])
    apply (elim conjE, rule post_bindI [OF post_conj [OF A(4) post_conj [OF sv_prepare_live [OF _ os] sv_prepare_fits]]],
        assumption+)
    apply (elim conjE, rule post_bindI [OF post_conj [OF sv_init_cgi_live sv_init_cgi_fits [OF _ A(5)]]], assumption+,
        blast, rule fd, assumption+)
    apply (erule conjE, rule post_bindI [OF post_conj [OF sv_select_sets_live sv_select_sets_fits]], assumption+)
    apply (erule conjE, rule post_bindI [OF post_conj [OF sv_to_cgi_live sv_to_cgi_fits]], assumption+)
    apply (rule last, assumption)
    done
  show ?thesis
    unfolding serve_conn_def
  proof (rule post_bindI [OF post_conj [OF A(2) [OF A(1)] post_conj
      [OF sv_recv_fits [OF os(1) k(1) ok(1) k(2,3) d] sv_recv_live [OF lv os(1)]]]])
    fix x
    assume x: "(case x of (alive, s') \<Rightarrow> alive \<longrightarrow> A s')
      \<and> (case x of (alive, s') \<Rightarrow> alive \<longrightarrow> fits arrived s c s') \<and> served sock ssl s c x"
    show "post (case x of (alive, s) \<Rightarrow> if \<not> alive then Some (False, s)
       else do {
         s \<leftarrow> sv_logerr os c s;
         s \<leftarrow> sv_prepare os conf c s;
         s \<leftarrow> sv_init_cgi os c s;
         s \<leftarrow> sv_select_sets c s;
         s \<leftarrow> sv_to_cgi os c s;
         (alive, s) \<leftarrow> sv_dynamic os c s;
         if \<not> alive then Some (False, s)
         else sv_static os c s }) (\<lambda>(alive, s'). alive \<longrightarrow> has waits c s')"
      using x rest by (cases x; cases "fst x") simp_all
  qed
qed

end
