(* ===== verification/Served.thy ===== *)
theory Served
  imports Send_Props Response_Props Waiting
begin

text \<open>
  A request from its bytes to the last byte of its answer: the components composed. The turn that
  receives a complete GET request parses it, finds and maps its file and puts the header into the
  buffer; every later turn in which the client can take bytes sends some; the last one resets the
  connection.
\<close>

section \<open>Receiving a complete request\<close>

text \<open>A connection between two requests.\<close>

definition between :: "conn_t \<Rightarrow> bool" where
  "between k \<longleftrightarrow> req_phase (conn_req k) = REQ_START \<and> data_p (conn_buf k) = 0 \<and> sz (conn_buf k) = 0
     \<and> sz (req_last_buf (conn_req k)) = 0 \<and> (conn_ssl k \<longrightarrow> conn_ssl_accepted k)"

text \<open>
  The lines \<open>ls\<close> and an unfinished last one make up a request: the header is the first \<open>n\<close> bytes,
  and the rest has the length the header announces.
\<close>

definition whole_request :: "req_t \<Rightarrow> string list \<Rightarrow> string \<Rightarrow> nat \<Rightarrow> req_t \<Rightarrow> bool" where
  "whole_request req ls rest n req' \<longleftrightarrow> ls \<noteq> [] \<and> (\<forall>l \<in> set ls. LF \<notin> set l) \<and> LF \<notin> set rest
     \<and> plain_uri (uri_of_line (hd ls)) \<and> parse_spec req ls = Some (int n, req') \<and> req_phase req' = REQ_BODY
     \<and> int n + req_clen req' = int (length (join_lines ls @ rest))"

text \<open>A GET request for a file that asks for no body and keeps the connection alive.\<close>

definition complete_get :: "req_t \<Rightarrow> string list \<Rightarrow> req_t \<Rightarrow> bool" where
  "complete_get req ls req' \<longleftrightarrow> whole_request req ls [] (length (join_lines ls)) req'
     \<and> req_type req' = REQ_STATIC \<and> req_meth req' = M_GET \<and> req_alive req'"

text \<open>The parser does not touch the bytes put aside.\<close>

lemma apply_field_last_buf:
  "apply_field req k v = Some (st, req') \<Longrightarrow> req_last_buf req' = req_last_buf req"
  by (auto simp: apply_field_def split: if_splits)

lemma line_step_last_buf:
  "line_step req l = Some (st, req') \<Longrightarrow> req_last_buf req' = req_last_buf req"
  by (auto simp: line_step_def finish_header_def Let_def apply_field_last_buf split: hline.splits if_splits)

lemma parse_lines_last_buf:
  "parse_lines req ls n = Some (rc, req') \<Longrightarrow> req_last_buf req' = req_last_buf req"
proof (induction ls arbitrary: req n)
  case (Cons l ls)
  then show ?case
    by (auto split: option.splits hdr_step.splits dest: line_step_last_buf)
qed simp

lemma request_line_last_buf: "req_last_buf (snd (request_line req l)) = req_last_buf req"
  by (simp add: request_line_def store_uri_def Let_def split: prod.split option.split)

lemma parse_spec_last_buf:
  "parse_spec req ls = Some (rc, req') \<Longrightarrow> req_last_buf req' = req_last_buf req"
  using request_line_last_buf [of req "hd ls"]
  by (auto simp: parse_spec_def split: req_phase_t.splits prod.splits option.splits dest: parse_lines_last_buf)

lemma last_nl_none:
  "e \<le> length m \<Longrightarrow> \<forall>i. p \<le> i \<and> i < e \<longrightarrow> m ! i \<noteq> LF \<Longrightarrow> last_nl m e p q = Some q"
proof (induction m e p q rule: last_nl.induct)
  case (1 m e p q)
  show ?case
  proof (cases "p < e")
    case True
    then have c: "mem_get m p = Some (m ! p)" and ne: "m ! p \<noteq> LF" using "1.prems" by simp_all
    have "last_nl m e (Suc p) q = Some q" using "1.IH" [OF True c] "1.prems" ne by simp
    then show ?thesis using True c ne by (subst last_nl.simps) simp
  qed (subst last_nl.simps, simp)
qed

lemma last_nl_at:
  "p < x \<Longrightarrow> x \<le> e \<Longrightarrow> e \<le> length m \<Longrightarrow> m ! (x - 1) = LF \<Longrightarrow> \<forall>i. x \<le> i \<and> i < e \<longrightarrow> m ! i \<noteq> LF \<Longrightarrow>
    last_nl m e p q = Some (int x)"
proof (induction m e p q rule: last_nl.induct)
  case (1 m e p q)
  have p: "p < e" and c: "mem_get m p = Some (m ! p)" using "1.prems" by simp_all
  show ?case
  proof (cases "Suc p < x")
    case True
    then show ?thesis using "1.IH" [OF p c True] "1.prems" p c by (subst last_nl.simps) simp
  next
    case False
    then have x: "x = Suc p" using "1.prems"(1) by simp
    have "last_nl m e (Suc p) (int (Suc p)) = Some (int (Suc p))"
      using "1.prems"(3,5) x by (intro last_nl_none) auto
    then show ?thesis using "1.prems"(4) x p c by (subst last_nl.simps) simp
  qed
qed

lemma last_join_lines: "ls \<noteq> [] \<Longrightarrow> join_lines ls \<noteq> [] \<and> join_lines ls ! (length (join_lines ls) - 1) = LF"
proof (induction ls rule: rev_induct)
  case (snoc l ls)
  show ?case by (simp add: nth_append)
qed simp

lemma parse_lines_of_whole:
  assumes b: "take m (data (conn_buf k)) = join_lines ls @ rest" "m = length (join_lines ls @ rest)"
      "m \<le> length (data (conn_buf k))" "sz (conn_buf k) = int m" "data_p (conn_buf k) = 0"
    and k: "req_phase (conn_req k) = REQ_START" and w: "whole_request (conn_req k) ls rest n req'" and m: "m \<le> BUFSZ"
  shows "parse_lines_of k 0 = Some (None, k\<lparr>conn_req := req', conn_buf := (conn_buf k)\<lparr>data_p := n\<rparr>\<rparr>)
    \<and> req_rsize req' = req_clen req' \<and> 0 \<le> req_clen req' \<and> (req_ok (conn_req k) \<longrightarrow> req_ok req')"
proof -
  let ?d = "data (conn_buf k)" and ?x = "length (join_lines ls)"
  have ls: "ls \<noteq> []" "\<forall>l \<in> set ls. LF \<notin> set l" "LF \<notin> set rest" "plain_uri (uri_of_line (hd ls))"
    "parse_spec (conn_req k) ls = Some (int n, req')" "req_phase req' = REQ_BODY"
    using w by (simp_all add: whole_request_def)
  note lj = last_join_lines [OF ls(1)]
  have x: "0 < ?x" "?x \<le> m" using lj b(2) by simp_all
  have nth: "?d ! i = (join_lines ls @ rest) ! i" if "i < m" for i using that by (simp flip: b(1))
  have x1: "?x - 1 < ?x" "?x - 1 < m" using x by linarith+
  have "?d ! (?x - 1) = LF" unfolding nth [OF x1(2)] using x1(1) lj by (simp only: nth_append if_True)
  moreover have "?d ! i \<noteq> LF" if i: "?x \<le> i" "i < m" for i
  proof -
    have "?d ! i = rest ! (i - ?x)" using nth [OF i(2)] i(1) by (simp add: nth_append)
    moreover have "rest ! (i - ?x) \<in> set rest" using i b(2) by (intro nth_mem) simp
    ultimately show ?thesis using ls(3) by auto
  qed
  ultimately have q: "last_nl ?d m 0 (- 1) = Some (int ?x)"
    using last_nl_at [of 0 ?x m ?d "- 1"] x b(3) by simp
  have "take ?x ?d = take ?x (take m ?d)" using x(2) by (simp add: min_absorb1)
  then have sl: "buf_slice (conn_buf k) 0 ?x = Some (join_lines ls)" using x(2) b(1,3) by (simp add: buf_slice_def)
  obtain lines where w: "buf_write 0 (join_lines ls) buf_new = Some lines" "data_p lines = 0"
      "take ?x (data lines) = join_lines ls" "?x \<le> length (data lines)"
    using buf_write_base [of buf_new "join_lines ls"] m x(2) by (auto simp: buf_new_def)
  have v: "view (lines\<lparr>sz := int ?x\<rparr>) [] (join_lines ls)" using w by (simp add: view_def)
  have "parse_result (req_parse (conn_req k) (lines\<lparr>sz := int ?x\<rparr>)) = Some (int n, req')"
    using req_parse_lines [OF v ls(2,1,4), of "conn_req k"] k ls(5) by simp
  then obtain bf where p: "req_parse (conn_req k) (lines\<lparr>sz := int ?x\<rparr>) = Some (int n, req', bf)"
    by (auto simp: parse_result_def)
  have "parse_exit None req'" using req_parse_exit [OF p] k by simp
  then have "req_rsize req' = req_clen req' \<and> 0 \<le> req_clen req'" using ls(6) by (auto simp: parse_exit_def)
  moreover have "req_ok (conn_req k) \<Longrightarrow> req_ok req'" using postD [OF req_parse_ok p] by simp
  moreover have "buf_e (conn_buf k) = m" using b(4) by (simp add: buf_e_def buf_end_def)
  ultimately show ?thesis
    using k q sl w(1) p x(1) b(5) by (simp add: parse_lines_of_def Let_def)
qed

text \<open>The request that is done, as \<open>take_body\<close> leaves it.\<close>

definition done_req :: "req_t \<Rightarrow> req_t" where
  "done_req req = req\<lparr>req_rsize := 0, req_phase := REQ_DONE\<rparr>"

text \<open>The connection that has received it: a body for a file is dropped, one for a program is kept.\<close>

definition got_conn :: "conn_t \<Rightarrow> req_t \<Rightarrow> conn_t \<Rightarrow> bool" where
  "got_conn k req' k1 \<longleftrightarrow> conn_req k1 = done_req req' \<and> conn_fd k1 = conn_fd k \<and> conn_idx k1 = conn_idx k
     \<and> (case req_type req' of
          REQ_STATIC \<Rightarrow> conn_resp k1 = conn_resp k \<and> conn_cgi k1 = (conn_cgi k)\<lparr>cgi_phase := CGI_DISABLED\<rparr>
        | REQ_DYNAMIC \<Rightarrow> conn_resp k1 = (conn_resp k)\<lparr>resp_phase := RESP_DISABLED\<rparr>
            \<and> conn_cgi k1 = (conn_cgi k)\<lparr>cgi_phase := CGI_READY\<rparr>)"

lemma body_step_whole:
  assumes "req_phase (conn_req k) = REQ_BODY" "req_rsize (conn_req k) = buf_rsize (conn_buf k)"
    "cgi_phase (conn_cgi k) = CGI_IDLE"
  shows "\<exists>k1. body_step k = Some k1 \<and> got_conn k (conn_req k) k1 \<and> data (conn_buf k1) = data (conn_buf k)
    \<and> (req_type (conn_req k) = REQ_DYNAMIC \<longrightarrow> conn_buf k1 = conn_buf k)"
  using assms
  by (cases "req_type (conn_req k)")
    (simp_all add: body_step_def enter_body_def take_body_def Let_def got_conn_def done_req_def)

lemma recv_whole:
  assumes k: "get_conn c s = Some k" "conn_ok k" "between k"
    and r: "os_recv os (st_trace s) (conn_fd k) BUFSZ = Some (join_lines ls @ rest)" "os_ok os"
    and g: "whole_request (conn_req k) ls rest n req'"
  shows "\<exists>k1. cn_recv os err_cb fat_cb c s = Some (1, put_conn c k1
      (s\<lparr>st_trace := EvRecv (conn_fd k) BUFSZ (Some (join_lines ls @ rest)) # st_trace s\<rparr>))
    \<and> got_conn k req' k1 \<and> length (data (conn_buf k1)) \<le> BUFSZ + 1 \<and> req_ok req'
    \<and> (req_type req' = REQ_DYNAMIC \<longrightarrow> spans (conn_buf k1) \<and> unread (conn_buf k1) = drop n (join_lines ls @ rest))"
proof -
  define t where "t = join_lines ls @ rest"
  have bt: "req_phase (conn_req k) = REQ_START" "data_p (conn_buf k) = 0" "sz (conn_buf k) = 0"
      "\<not> (conn_ssl k \<and> \<not> conn_ssl_accepted k)"
    using k(3) by (auto simp: between_def)
  have idle: "cgi_phase (conn_cgi k) = CGI_IDLE"
    using k(2) bt(1) by (simp add: conn_ok_def phases_ok_def phases_fit_def)
  have len: "length t \<le> BUFSZ" unfolding t_def by (rule os_okD(1) [OF r(2,1)])
  have ne: "t \<noteq> []" using last_join_lines [of ls] g by (simp add: whole_request_def t_def)
  have dl: "length (data (conn_buf k)) \<le> BUFSZ + 1" using k(2) by (simp add: conn_ok_def data_ok_def)
  obtain buf where b: "buf_write 0 t (conn_buf k) = Some buf" "sz buf = 0" "data_p buf = 0"
      "take (length t) (data buf) = t" "length (data buf) \<le> BUFSZ + 1" "length t \<le> length (data buf)"
    using buf_write_base [OF dl len] bt by auto
  let ?k = "k\<lparr>conn_buf := buf\<lparr>sz := int (length t)\<rparr>\<rparr>"
  let ?k2 = "?k\<lparr>conn_req := req', conn_buf := (conn_buf ?k)\<lparr>data_p := n\<rparr>\<rparr>"
  have p: "parse_lines_of ?k 0 = Some (None, ?k2) \<and> req_rsize req' = req_clen req'
      \<and> 0 \<le> req_clen req' \<and> (req_ok (conn_req ?k) \<longrightarrow> req_ok req')"
    by (rule parse_lines_of_whole [where m = "length t"]) (use b bt g len in \<open>simp_all flip: t_def\<close>)
  have ok: "req_ok req'" using p k(2) by (simp add: conn_ok_def data_ok_def)
  have w: "int n + req_clen req' = int (length t)" "req_phase req' = REQ_BODY" using g by (simp_all add: whole_request_def t_def)
  have sp: "spans (conn_buf ?k2) \<and> unread (conn_buf ?k2) = drop n t"
    using w(1) p b by (auto simp: spans_def unread_def)
  obtain k1 where k1: "body_step ?k2 = Some k1" "got_conn ?k2 req' k1" "data (conn_buf k1) = data buf"
      "req_type req' = REQ_DYNAMIC \<longrightarrow> conn_buf k1 = conn_buf ?k2"
    using body_step_whole [of ?k2] w p idle by (auto simp: buf_rsize_def)
  have "cn_recv os err_cb fat_cb c s = Some (1, put_conn c k1
      (s\<lparr>st_trace := EvRecv (conn_fd k) BUFSZ (Some t) # st_trace s\<rparr>))"
    unfolding cn_recv_def k(1) Option.bind.bind_lunit if_not_P [OF bt(4)]
    using bt(1-3) r(1) [folded t_def] b(1,2) ne conjunct1 [OF p] k1(1)
    by (simp add: smart_recv_def log_ev_trace Let_def buf_end_def cn_parse_req_def BUFSZ_def)
  moreover have "got_conn k req' k1" using k1(2) by (simp add: got_conn_def split: req_kind.splits)
  ultimately show ?thesis
    using k1(3,4) b(5) ok sp unfolding t_def by (intro exI [of _ k1]) (simp del: drop_append)
qed

section \<open>Preparing the answer\<close>

text \<open>The header of the answer with the file \<open>p\<close>.\<close>

definition file_header :: "os \<Rightarrow> resp_t \<Rightarrow> string \<Rightarrow> stat_t \<Rightarrow> trace \<Rightarrow> string" where
  "file_header os resp p st tr = concat (hdr_lines os
     (resp\<lparr>resp_alive := True, resp_clen := st_size st, resp_hdrs := entity_list os p st\<rparr>) tr)"

text \<open>The calls that map the file.\<close>

definition map_calls :: "string \<Rightarrow> stat_t \<Rightarrow> int \<Rightarrow> char list \<Rightarrow> trace \<Rightarrow> trace" where
  "map_calls p st fd bs tr =
     EvClose fd # EvMmap fd (st_size st) (Some bs) # EvOpen p (Some fd) # EvStat p # tr"

lemma sent_map_calls [simp]: "sent_to f (map_calls p st fd bs tr) = sent_to f tr"
  by (simp add: map_calls_def)

lemma prepare_mapped:
  assumes os: "os_ok os" "conf_ok conf" and k: "get_conn c s = Some k" "req_ok (conn_req k)"
      "resp_ok (conn_resp k)" "resp_phase (conn_resp k) = RESP_READY" "length (data (conn_buf k)) \<le> BUFSZ + 1"
      "req_meth (conn_req k) = M_GET" "req_alive (conn_req k)"
    and p: "p = take REQ_URISZ (cstr (conf_www conf)) @ cstr (req_uri (conn_req k))"
    and m: "mapped_at os (st_trace s) p st fd bs" "st_size st < 2 ^ 32"
  shows "\<exists>k2. cn_prepare_static_header os conf err_cb c s =
      Some (1, put_conn c k2 (s\<lparr>st_trace := map_calls p st fd bs (st_trace s)\<rparr>))
    \<and> same_request_side k k2 \<and> resp_phase (conn_resp k2) = RESP_HEADER
    \<and> to_send k2 (file_header os (conn_resp k) p st (map_calls p st fd bs (st_trace s))) bs
    \<and> length (file_header os (conn_resp k) p st (map_calls p st fd bs (st_trace s))) \<le> 310"
proof -
  let ?tr = "map_calls p st fd bs (st_trace s)"
  have sz: "0 < st_size st" "int (length bs) = st_size st"
    using os_okD(9) [OF os(1)] m(1) by (auto simp: mapped_at_def)
  have hd: "resp_hdrs (conn_resp k) = []" using k(3,4) by (simp add: resp_ok_def)
  define r where "r = (conn_resp k)\<lparr>resp_alive := True, resp_mmbuf := Some \<lparr>sz = st_size st, data = bs, data_p = 0\<rparr>,
      resp_clen := st_size st, resp_hdrs := entity_list os p st\<rparr>"
  have b: "resp_build os (conn_resp k) (conn_req k) conf (st_trace s) = Some (True, r, ?tr)"
    using resp_build_mapped [OF os k(2) p m(1), of "conn_resp k"] k(6,7) sz m(2) hd
    by (simp add: r_def map_calls_def)
  have rok: "resp_ok (r\<lparr>resp_phase := RESP_HEADER\<rparr>)"
    using resp_build_spec [OF os k(2-4), of "st_trace s"] b by simp
  let ?r = "r\<lparr>resp_phase := RESP_HEADER\<rparr>"
  have h: "concat (hdr_lines os ?r ?tr) = file_header os (conn_resp k) p st ?tr"
    by (simp add: file_header_def hdr_lines_def r_def)
  let ?h = "file_header os (conn_resp k) p st ?tr"
  have "safe (resp_hdr os ?r (data (conn_buf k)) ?tr) (\<lambda>(n, m').
      n = int (length ?h) \<and> n \<le> 310 \<and> take (nat n) m' = ?h \<and> nat n \<le> length m' \<and> length m' \<le> BUFSZ + 1)"
    unfolding h [symmetric]
    by (rule resp_hdr_spec [OF os(1)]) (use rok k(5) in \<open>auto simp: resp_ok_def\<close>)
  then obtain m' where m': "resp_hdr os ?r (data (conn_buf k)) ?tr = Some (int (length ?h), m')"
      "take (length ?h) m' = ?h" "length ?h \<le> length m'" "length ?h \<le> 310"
    by (auto simp: safe_def)
  have hne: "?h \<noteq> []" by (simp add: file_header_def hdr_lines_def)
  let ?k2 = "k\<lparr>conn_resp := ?r, conn_buf := (buf_reset (conn_buf k))\<lparr>data := m', sz := int (length ?h)\<rparr>\<rparr>"
  have "to_send ?k2 ?h bs"
    using k(6) sz hne m' by (auto simp: to_send_def spans_def unread_def r_def)
  moreover have "cn_prepare_static_header os conf err_cb c s = Some (1, put_conn c ?k2 (s\<lparr>st_trace := ?tr\<rparr>))"
    using k(1) b m'(1) by (simp add: cn_prepare_static_header_def Let_def)
  ultimately show ?thesis using m'(4) by (intro exI [of _ ?k2]) (simp add: same_request_side_def)
qed

section \<open>The turns\<close>

text \<open>A complete static request whose answer is on its way.\<close>

definition in_service :: "conn_t \<Rightarrow> bool" where
  "in_service k \<longleftrightarrow> req_phase (conn_req k) = REQ_DONE \<and> req_type (conn_req k) = REQ_STATIC
     \<and> srv_err (conn_cgi k) < 0 \<and> fd_ok (conn_fd k)"

definition watch_client :: "int \<Rightarrow> server \<Rightarrow> server" where
  "watch_client fd s = s\<lparr>read_set := read_set s - {fd}, write_set := insert fd (write_set s)\<rparr>"

lemma get_watch [simp]: "get_conn c (watch_client fd s) = get_conn c s" "st_trace (watch_client fd s) = st_trace s"
  "write_ready (watch_client fd s) = write_ready s" "write_set (watch_client fd s) = insert fd (write_set s)"
  "read_set (watch_client fd s) = read_set s - {fd}"
  by (simp_all add: watch_client_def)

lemma select_sets_static:
  assumes "get_conn c s = Some k" "in_service k"
  shows "sv_select_sets c s = Some (watch_client (conn_fd k) s)"
  using assms
  by (simp add: sv_select_sets_def in_service_def clr_fd_read_def set_fd_write_def FD_SET_def FD_CLR_def watch_client_def)

lemma static_turn:
  assumes k: "get_conn c s = Some k" "in_service k" "resp_phase (conn_resp k) \<in> {RESP_HEADER, RESP_BODY}"
    and r: "conn_fd k \<notin> read_ready s" "conn_fd k \<in> write_ready s"
  shows "serve_conn os conf c s = do {
      (rc, s) \<leftarrow> liso_serve_static os c (watch_client (conn_fd k) s); Some (0 \<le> rc, s) }"
proof -
  have f: "fd_ok (conn_fd k)" "req_phase (conn_req k) = REQ_DONE" "req_type (conn_req k) = REQ_STATIC"
    "\<not> 0 \<le> srv_err (conn_cgi k)"
    using k(2) by (simp_all add: in_service_def)
  have 1: "sv_recv os c s = Some (True, s)"
    using k(1) f r by (simp add: sv_recv_def isset_read_def FD_ISSET_def)
  have 2: "sv_logerr os c s = Some s" using k(1) f by (simp add: sv_logerr_def)
  have 3: "sv_prepare os conf c s = Some s" using k f by (auto simp: sv_prepare_def)
  have 4: "sv_init_cgi os c s = Some s" using k f by (simp add: sv_init_cgi_def)
  let ?s = "watch_client (conn_fd k) s"
  have 5: "sv_to_cgi os c ?s = Some ?s" using k f by (simp add: sv_to_cgi_def)
  have 6: "sv_dynamic os c ?s = Some (True, ?s)" using k f by (simp add: sv_dynamic_def)
  have 7: "sv_static os c ?s = do { (rc, s) \<leftarrow> liso_serve_static os c ?s; Some (0 \<le> rc, s) }"
    using k f r by (auto simp: sv_static_def isset_write_def FD_ISSET_def)
  show ?thesis
    by (simp add: serve_conn_def 1 2 3 4 5 6 7 select_sets_static [OF k(1,2)])
qed

text \<open>The last byte sent, the connection is reset; it asked to be kept and nothing is pipelined.\<close>

lemma reset_kept:
  assumes k: "get_conn c s = Some k" "req_alive (conn_req k)" "sz (req_last_buf (conn_req k)) = 0"
    "cgi_closed (conn_cgi k)" "fd_ok (conn_fd k)"
  shows "\<exists>s' k'. liso_reset_or_close c s = Some (1, s') \<and> get_conn c s' = Some k'
    \<and> req_phase (conn_req k') = REQ_START \<and> sz (conn_buf k') = 0 \<and> data_p (conn_buf k') = 0
    \<and> conn_fd k' = conn_fd k \<and> conn_fd k \<in> read_set s' \<and> conn_fd k \<notin> write_set s'
    \<and> sent_to f (st_trace s') = sent_to f (st_trace s)"
proof -
  have g: "cgi_reset (conn_cgi k) tr = ((conn_cgi k)\<lparr>cgi_phase := CGI_IDLE, cgi_buf_phase := BUF_RECV\<rparr>, tr)" for tr
    using k(4) by (simp add: cgi_reset_def close_pipe_def cgi_closed_def Let_def)
  have m: "sent_to f (mmbuf_free mm tr) = sent_to f tr" for mm tr
    by (cases mm) (simp_all add: mmbuf_free_def)
  let ?k = "k\<lparr>conn_buf := buf_reset (conn_buf k), conn_req := req_reset (conn_req k),
    conn_resp := resp_clear (conn_resp k), conn_cgi := (conn_cgi k)\<lparr>cgi_phase := CGI_IDLE, cgi_buf_phase := BUF_RECV\<rparr>\<rparr>"
  let ?s = "put_conn c ?k (s\<lparr>read_set := insert (conn_fd k) (read_set s), write_set := write_set s - {conn_fd k},
    st_trace := mmbuf_free (resp_mmbuf (conn_resp k)) (st_trace s)\<rparr>)"
  have s: "pl_reset_conn c s = Some (1, ?s)"
    using k g by (simp add: pl_reset_conn_def set_fd_read_def clr_fd_write_def FD_SET_def FD_CLR_def drop_pipe_def
        resp_reset_def cgi_closed_def Let_def)
  have "liso_reset_or_close c s = Some (1, ?s)"
    using k s by (simp add: liso_reset_or_close_def req_reset_def)
  then show ?thesis using m by (intro exI [of _ ?s] exI [of _ ?k]) (simp add: req_reset_def)
qed

text \<open>Turns in which \<open>select\<close> reports every descriptor it is asked about, until the request is over.\<close>

fun ready_turns :: "nat \<Rightarrow> os \<Rightarrow> conf_t \<Rightarrow> ptr \<Rightarrow> server \<Rightarrow> server option" where
  "ready_turns 0 os conf c s = Some s"
| "ready_turns (Suc n) os conf c s = do {
     k \<leftarrow> get_conn c s;
     if req_phase (conn_req k) \<noteq> REQ_DONE then Some s
     else do {
       (alive, s) \<leftarrow> serve_conn os conf c (s\<lparr>read_ready := read_set s, write_ready := write_set s\<rparr>);
       if alive then ready_turns n os conf c s else Some s } }"

lemma ready_turns_over:
  "get_conn c s = Some k \<Longrightarrow> req_phase (conn_req k) \<noteq> REQ_DONE \<Longrightarrow> ready_turns n os conf c s = Some s"
  by (cases n) simp_all

definition kept :: "conn_t \<Rightarrow> bool" where
  "kept k \<longleftrightarrow> in_service k \<and> req_alive (conn_req k) \<and> sz (req_last_buf (conn_req k)) = 0 \<and> cgi_closed (conn_cgi k)"

lemma kept_side: "same_request_side k k' \<Longrightarrow> kept k' = kept k"
  by (simp add: kept_def in_service_def same_request_side_def)

definition ready_again :: "int \<Rightarrow> ptr \<Rightarrow> server \<Rightarrow> bool" where
  "ready_again fd c s \<longleftrightarrow> (\<exists>k. get_conn c s = Some k \<and> conn_fd k = fd \<and> req_phase (conn_req k) = REQ_START
     \<and> sz (conn_buf k) = 0 \<and> data_p (conn_buf k) = 0 \<and> fd \<in> read_set s \<and> fd \<notin> write_set s)"

text \<open>One such turn serves the answer; after the last byte the connection is ready again.\<close>

abbreviation offered :: "conn_t \<Rightarrow> server \<Rightarrow> server" where
  "offered k s \<equiv> watch_client (conn_fd k) (s\<lparr>read_ready := read_set s, write_ready := write_set s\<rparr>)"

lemma ready_turn_serves:
  assumes k: "get_conn c s = Some k" "kept k" "to_send k h f" "conn_fd k \<in> write_set s \<and> conn_fd k \<notin> read_set s"
  shows "ready_turns (Suc n) os conf c s = do {
    (rc, s) \<leftarrow> liso_serve_static os c (offered k s);
    if 0 \<le> rc then ready_turns n os conf c s else Some s }"
proof -
  let ?s = "s\<lparr>read_ready := read_set s, write_ready := write_set s\<rparr>"
  have g: "get_conn c ?s = Some k" using k(1) by (simp add: get_conn_def)
  have sv: "in_service k" "req_phase (conn_req k) = REQ_DONE" using k(2) by (simp_all add: kept_def in_service_def)
  have "resp_phase (conn_resp k) \<in> {RESP_HEADER, RESP_BODY}" using k(3) by (auto simp: to_send_def)
  from static_turn [OF g sv(1) this] k(4)
  have "serve_conn os conf c ?s = do { (rc, s) \<leftarrow> liso_serve_static os c (offered k s); Some (0 \<le> rc, s) }" by simp
  then show ?thesis
    using k(1) sv(2) by (cases "liso_serve_static os c (offered k s)") (auto split: prod.splits)
qed

lemma ready_turn_over:
  assumes k: "get_conn c s = Some k" "kept k"
  shows "\<exists>s'. liso_reset_or_close c s = Some (1, s') \<and> ready_turns n os conf c s' = Some s'
    \<and> ready_again (conn_fd k) c s' \<and> sent_to (conn_fd k) (st_trace s') = sent_to (conn_fd k) (st_trace s)"
proof -
  obtain s' k2 where r: "liso_reset_or_close c s = Some (1, s')" "get_conn c s' = Some k2"
      "req_phase (conn_req k2) = REQ_START" "sz (conn_buf k2) = 0" "data_p (conn_buf k2) = 0"
      "conn_fd k2 = conn_fd k" "conn_fd k \<in> read_set s'" "conn_fd k \<notin> write_set s'"
      "sent_to (conn_fd k) (st_trace s') = sent_to (conn_fd k) (st_trace s)"
    using reset_kept [of c s k "conn_fd k"] k by (auto simp: kept_def in_service_def)
  then have "ready_turns n os conf c s' = Some s'" using ready_turns_over [OF r(2)] by simp
  moreover have "ready_again (conn_fd k) c s'" using r by (auto simp: ready_again_def)
  ultimately show ?thesis using r(1,9) by blast
qed

lemma ready_turns_run:
  assumes os: "sends os"
  shows "get_conn c s = Some k \<Longrightarrow> kept k \<Longrightarrow> to_send k h f \<Longrightarrow> conn_fd k \<in> write_set s \<and> conn_fd k \<notin> read_set s \<Longrightarrow>
    length h + length f \<le> n \<Longrightarrow>
    \<exists>s'. ready_turns n os conf c s = Some s' \<and> ready_again (conn_fd k) c s'
      \<and> sent_to (conn_fd k) (st_trace s') = sent_to (conn_fd k) (st_trace s) @ h @ f"
proof (induction n arbitrary: s k h f)
  case 0
  then show ?case by (simp add: to_send_def)
next
  case (Suc n)
  let ?w = "offered k s"
  have g: "get_conn c ?w = Some k" "st_trace ?w = st_trace s"
    using Suc.prems(1) by (simp_all add: get_conn_def watch_client_def)
  note turn = ready_turn_serves [OF Suc.prems(1-4), of n os conf]
  have more: ?case
    if st: "liso_serve_static os c ?w = Some (1, put_conn c k' (?w\<lparr>st_trace := t\<rparr>))" "same_request_side k k'"
      and snd: "sent_to (conn_fd k) t = sent_to (conn_fd k) (st_trace ?w) @ take m (h @ f)"
      and k': "to_send k' h' f'" "h' @ f' = drop m (h @ f)" "length h' + length f' \<le> n" for k' t m h' f'
  proof -
    let ?u = "put_conn c k' (?w\<lparr>st_trace := t\<rparr>)"
    have fd: "conn_fd k' = conn_fd k" using st(2) by (simp add: same_request_side_def)
    have wr: "conn_fd k' \<in> write_set ?u \<and> conn_fd k' \<notin> read_set ?u" by (simp add: fd)
    obtain s' where "ready_turns n os conf c ?u = Some s'" "ready_again (conn_fd k') c s'"
      "sent_to (conn_fd k') (st_trace s') = sent_to (conn_fd k') (st_trace ?u) @ h' @ f'"
      using Suc.IH [OF get_put _ k'(1) wr k'(3)] kept_side [OF st(2)] Suc.prems(2) by blast
    moreover have "take m (h @ f) @ h' @ f' = h @ f"
      unfolding k'(2) by (rule append_take_drop_id)
    ultimately show ?thesis
      unfolding turn st(1) using snd g(2) by (simp del: take_append drop_append add: fd)
  qed
  show ?case
  proof (cases "h = []")
    case False
    obtain m k' t where m: "0 < m" "m \<le> length h"
        "liso_serve_static os c ?w = Some (1, put_conn c k' (?w\<lparr>st_trace := t\<rparr>))"
        "same_request_side k k'" "to_send k' (drop m h) f"
        "sent_to (conn_fd k) t = sent_to (conn_fd k) (st_trace ?w) @ take m h"
      using header_step [OF os g(1) Suc.prems(3) False, of liso_reset_or_close liso_drop_conn] by blast
    show ?thesis
      by (rule more [OF m(3,4) _ m(5), of m]) (use m(1,2,6) Suc.prems(5) in simp_all)
  next
    case True
    then have k: "to_send k [] f" using Suc.prems(3) by simp
    obtain m k' t where m: "0 < m" "m \<le> length f"
        "liso_serve_static os c ?w = (if m = length f then liso_reset_or_close c (put_conn c k' (?w\<lparr>st_trace := t\<rparr>))
           else Some (1, put_conn c k' (?w\<lparr>st_trace := t\<rparr>)))"
        "same_request_side k k'" "m < length f \<longrightarrow> to_send k' [] (drop m f)"
        "sent_to (conn_fd k) t = sent_to (conn_fd k) (st_trace ?w) @ take m f"
      using body_step_send [OF os g(1) k, of liso_reset_or_close liso_drop_conn] by blast
    show ?thesis
    proof (cases "m = length f")
      case False
      then show ?thesis
        by (intro more [OF _ m(4), of t m "[]" "drop m f"]) (use m True Suc.prems(5) in simp_all)
    next
      case all: True
      have kp: "kept k'" "conn_fd k' = conn_fd k"
        using kept_side [OF m(4)] Suc.prems(2) m(4) by (simp_all add: same_request_side_def)
      obtain s' where "liso_reset_or_close c (put_conn c k' (?w\<lparr>st_trace := t\<rparr>)) = Some (1, s')"
          "ready_turns n os conf c s' = Some s'" "ready_again (conn_fd k) c s'" "sent_to (conn_fd k) (st_trace s') = sent_to (conn_fd k) t"
        using ready_turn_over [OF get_put kp(1), of c "?w\<lparr>st_trace := t\<rparr>" n os conf] kp(2) by auto
      then show ?thesis unfolding turn m(3) if_P [OF all] using m(6) all g(2) True by simp
    qed
  qed
qed


section \<open>From the request to the next\<close>

lemma done_req_sel [simp]:
  "req_phase (done_req r) = REQ_DONE" "req_type (done_req r) = req_type r" "req_meth (done_req r) = req_meth r"
  "req_alive (done_req r) = req_alive r" "req_uri (done_req r) = req_uri r" "req_last_buf (done_req r) = req_last_buf r"
  by (simp_all add: done_req_def)

lemma done_req_ok: "req_ok r \<Longrightarrow> req_ok (done_req r)"
  by (simp add: done_req_def req_ok_def)

lemma first_turn:
  assumes p: "pool_ok sock ssl s" and os: "os_ok os" "conf_ok conf" and k: "get_conn c s = Some k" "between k"
    and fd: "conn_fd k \<in> read_ready s" "conn_fd k \<notin> write_ready s"
    and r: "os_recv os (st_trace s) (conn_fd k) BUFSZ = Some (join_lines ls)" and g: "complete_get (conn_req k) ls req'"
    and f: "p = take REQ_URISZ (cstr (conf_www conf)) @ cstr (req_uri req')"
    and tr: "tr = EvRecv (conn_fd k) BUFSZ (Some (join_lines ls)) # st_trace s"
    and m: "mapped_at os tr p st fd bs" "st_size st < 2 ^ 32"
  shows "\<exists>k' s'. serve_conn os conf c s = Some (True, s') \<and> get_conn c s' = Some k' \<and> kept k'
    \<and> conn_fd k' = conn_fd k \<and> conn_fd k \<in> write_set s' \<and> conn_fd k \<notin> read_set s'
    \<and> st_trace s' = map_calls p st fd bs tr
    \<and> to_send k' (file_header os (conn_resp k) p st (map_calls p st fd bs tr)) bs
    \<and> length (file_header os (conn_resp k) p st (map_calls p st fd bs tr)) \<le> 310"
proof -
  have lv: "live sock ssl s c s" using p k(1) by (auto simp: get_conn_def intro: live_refl)
  have ok: "conn_ok k" "fd_ok (conn_fd k)" using live_get [OF lv] live_fd_ok [OF lv k(1)] k(1) by auto
  have st: "req_phase (conn_req k) = REQ_START" "sz (req_last_buf (conn_req k)) = 0"
    using k(2) by (simp_all add: between_def)
  have cg: "cgi_closed (conn_cgi k)" "resp_phase (conn_resp k) = RESP_READY" "resp_ok (conn_resp k)"
    using ok(1) st(1) by (auto simp: conn_ok_def phases_ok_def phases_fit_def data_ok_def cgi_ok_def)
  have w: "whole_request (conn_req k) ls [] (length (join_lines ls)) req'" using g by (simp add: complete_get_def)
  have r': "os_recv os (st_trace s) (conn_fd k) BUFSZ = Some (join_lines ls @ [])" using r by simp
  obtain k1 where k1: "liso_recv os c s = Some (1, put_conn c k1 (s\<lparr>st_trace := tr\<rparr>))"
      "got_conn k req' k1" "length (data (conn_buf k1)) \<le> BUFSZ + 1" "req_ok req'"
    using recv_whole [OF k(1) ok(1) k(2) r' os(1) w, of liso_conn_err liso_drop_conn] unfolding tr append_Nil2 by blast
  let ?s = "put_conn c k1 (s\<lparr>st_trace := tr\<rparr>)"
  have q: "req_type req' = REQ_STATIC" "req_meth req' = M_GET" "req_alive req'" "sz (req_last_buf req') = 0"
    using g parse_spec_last_buf st(2) by (auto simp: complete_get_def whole_request_def)
  have e: "conn_req k1 = done_req req'" "conn_fd k1 = conn_fd k" "conn_resp k1 = conn_resp k"
      "srv_err (conn_cgi k1) < 0" "cgi_closed (conn_cgi k1)"
    using k1(2) cg(1) q(1) by (auto simp: got_conn_def cgi_closed_def)
  have 1: "sv_recv os c s = Some (True, ?s)"
    using k(1) ok(2) fd(1) k1(1) by (simp add: sv_recv_def isset_read_def)
  have 2: "sv_logerr os c ?s = Some ?s" using e by (simp add: sv_logerr_def)
  let ?t = "map_calls p st fd bs tr"
  obtain k2 where k2: "cn_prepare_static_header os conf liso_conn_err c ?s =
        Some (1, put_conn c k2 (?s\<lparr>st_trace := ?t\<rparr>))" "same_request_side k1 k2"
      "to_send k2 (file_header os (conn_resp k) p st ?t) bs"
      "length (file_header os (conn_resp k) p st ?t) \<le> 310"
    using prepare_mapped [OF os get_put [of c k1 "s\<lparr>st_trace := tr\<rparr>"], where p = p and st = st and fd = fd and bs = bs
        and err_cb = liso_conn_err] e k1(3) done_req_ok [OF k1(4)] q cg f m
    by auto
  let ?u = "put_conn c k2 (?s\<lparr>st_trace := ?t\<rparr>)"
  have 3: "sv_prepare os conf c ?s = Some ?u" using e q cg(2) k2(1) by (simp add: sv_prepare_def)
  have kp: "kept k2" "conn_fd k2 = conn_fd k" "req_type (conn_req k2) = REQ_STATIC"
    using k2(2) e q ok(2) by (auto simp: kept_def in_service_def same_request_side_def)
  have 4: "sv_init_cgi os c ?u = Some ?u" using kp by (simp add: sv_init_cgi_def)
  let ?w = "watch_client (conn_fd k) ?u"
  have 5: "sv_select_sets c ?u = Some ?w"
    using select_sets_static [OF get_put] kp by (simp add: kept_def)
  have 6: "sv_to_cgi os c ?w = Some ?w" using kp by (simp add: sv_to_cgi_def)
  have 7: "sv_dynamic os c ?w = Some (True, ?w)" using kp by (simp add: sv_dynamic_def)
  have 8: "sv_static os c ?w = Some (True, ?w)"
    using kp ok(2) fd(2) by (simp add: sv_static_def isset_write_def)
  have "serve_conn os conf c s = Some (True, ?w)"
    by (simp add: serve_conn_def 1 2 3 4 5 6 7 8)
  then show ?thesis using k2(3,4) kp by (intro exI [of _ k2] exI [of _ ?w]) simp
qed

text \<open>C19: the whole life of a static request. A connection between two requests receives, in one
  piece, a complete GET request for a file of less than \<open>2 ^ 32\<close> bytes that can be mapped, on a
  connection to be kept. The turn that reads it ends with the server waiting to write; then, if
  every \<open>send\<close> takes at least one byte and \<open>select\<close> reports in each turn what it is asked about,
  \<open>310 + length bs\<close> turns (or fewer: the header has at most 310 bytes) send the header of that file
  and its bytes \<open>bs\<close>, once and whole, and the connection waits for its next request, with an empty
  buffer.\<close>

theorem get_served:
  assumes "pool_ok sock ssl s" "os_ok os" "conf_ok conf" "sends os"
    and "get_conn c s = Some k" "between k" "conn_fd k \<in> read_ready s" "conn_fd k \<notin> write_ready s"
    and "os_recv os (st_trace s) (conn_fd k) BUFSZ = Some (join_lines ls)" "complete_get (conn_req k) ls req'"
    and "p = take REQ_URISZ (cstr (conf_www conf)) @ cstr (req_uri req')"
    and "tr = EvRecv (conn_fd k) BUFSZ (Some (join_lines ls)) # st_trace s"
    and "mapped_at os tr p st fd bs" "st_size st < 2 ^ 32" "310 + length bs \<le> n"
  shows "\<exists>s1 s2. serve_conn os conf c s = Some (True, s1) \<and> ready_turns n os conf c s1 = Some s2
    \<and> sent_to (conn_fd k) (st_trace s2) = sent_to (conn_fd k) (st_trace s)
        @ file_header os (conn_resp k) p st (map_calls p st fd bs tr) @ bs
    \<and> ready_again (conn_fd k) c s2"
proof -
  obtain k' s' where f: "serve_conn os conf c s = Some (True, s')" "get_conn c s' = Some k'" "kept k'"
      "conn_fd k' = conn_fd k" "conn_fd k \<in> write_set s' \<and> conn_fd k \<notin> read_set s'" "st_trace s' = map_calls p st fd bs tr"
      "to_send k' (file_header os (conn_resp k) p st (map_calls p st fd bs tr)) bs"
      "length (file_header os (conn_resp k) p st (map_calls p st fd bs tr)) \<le> 310"
    using first_turn [OF assms(1-3,5-14)] by blast
  have "conn_fd k' \<in> write_set s' \<and> conn_fd k' \<notin> read_set s'" "length (file_header os (conn_resp k) p st (map_calls p st fd bs tr)) + length bs \<le> n"
    using f(4,5,8) assms(15) by simp_all
  from ready_turns_run [OF assms(4) f(2,3,7) this, of conf] show ?thesis
    using f(1,4,6) assms(12) by auto
qed

definition ex_lines :: "string list" where
  "ex_lines = [''GET /a.html HTTP/1.1'' @ [CR], ''Host: liso'' @ [CR], [CR]]"

lemma ex_lines_join: "join_lines ex_lines = ex_get"
  by code_simp

lemma ex_lines_complete: "\<exists>k req'. get_conn 0 ex_server = Some k \<and> between k \<and> conn_fd k = 5
    \<and> complete_get (conn_req k) ex_lines req' \<and> cstr (req_uri req') = ''/a.html''"
proof -
  have "(case get_conn 0 ex_server of None \<Rightarrow> False | Some k \<Rightarrow> between k \<and> conn_fd k = 5
      \<and> (case parse_spec (conn_req k) ex_lines of None \<Rightarrow> False
         | Some (n, req') \<Rightarrow> n = int (length (join_lines ex_lines)) \<and> complete_get (conn_req k) ex_lines req'
            \<and> cstr (req_uri req') = ''/a.html''))"
    by code_simp
  then show ?thesis by (auto split: option.splits)
qed

lemma ex_sends: "sends ex_os"
  by (simp add: sends_def ex_os_def Suc_le_eq)

definition ex_stat :: stat_t where
  "ex_stat = \<lparr>st_isdir = False, st_size = 5, st_mtime = 0\<rparr>"

lemma ex_situation:
  defines "s \<equiv> ex_server\<lparr>read_ready := {5}, write_ready := {}\<rparr>"
  shows "\<exists>k req'. pool_ok 3 4 s \<and> get_conn 0 s = Some k \<and> conn_fd k = 5 \<and> between k
    \<and> conn_fd k \<in> read_ready s \<and> conn_fd k \<notin> write_ready s
    \<and> os_recv ex_os (st_trace s) (conn_fd k) BUFSZ = Some (join_lines ex_lines)
    \<and> complete_get (conn_req k) ex_lines req'
    \<and> ''www/a.html'' = take REQ_URISZ (cstr (conf_www ex_conf)) @ cstr (req_uri req')"
proof -
  obtain k req' where k: "get_conn 0 ex_server = Some k" "between k" "conn_fd k = 5"
      "complete_get (conn_req k) ex_lines req'" "cstr (req_uri req') = ''/a.html''"
    using ex_lines_complete by blast
  have "os_recv ex_os (st_trace s) (conn_fd k) BUFSZ = Some (join_lines ex_lines)"
    by (simp add: ex_lines_join ex_os_def ex_get_def CRLF_def BUFSZ_def)
  then show ?thesis
    using ex_server_ok k by (auto simp: get_conn_def s_def ex_conf_www REQ_URISZ_def)
qed

lemma ex_mapped: "mapped_at ex_os tr ''www/a.html'' ex_stat 9 ''xxxxx''"
  by (simp add: mapped_at_def ex_os_def ex_stat_def) (simp add: numeral_eq_Suc)

lemma ex_stat_size: "st_size ex_stat < 2 ^ 32"
  by (simp add: ex_stat_def)

lemma ex_first_turn:
  "\<exists>s'. serve_conn ex_os ex_conf 0 (ex_server\<lparr>read_ready := {5}, write_ready := {}\<rparr>) = Some (True, s')"
  using ex_situation first_turn [OF _ ex_os_ok ex_conf_ok(1) _ _ _ _ _ _ _ refl ex_mapped ex_stat_size] by blast

theorem get_served_witness:
  "\<exists>s1 s2 h. serve_conn ex_os ex_conf 0 (ex_server\<lparr>read_ready := {5}, write_ready := {}\<rparr>) = Some (True, s1)
    \<and> ready_turns 315 ex_os ex_conf 0 s1 = Some s2
    \<and> sent_to 5 (st_trace s2) = h @ ''xxxxx'' \<and> ready_again 5 0 s2"
proof -
  let ?s = "ex_server\<lparr>read_ready := {5}, write_ready := {}\<rparr>"
  obtain k req' where k: "pool_ok 3 4 ?s" "get_conn 0 ?s = Some k" "conn_fd k = 5" "between k"
      "conn_fd k \<in> read_ready ?s" "conn_fd k \<notin> write_ready ?s"
      "os_recv ex_os (st_trace ?s) (conn_fd k) BUFSZ = Some (join_lines ex_lines)"
      "complete_get (conn_req k) ex_lines req'"
      "''www/a.html'' = take REQ_URISZ (cstr (conf_www ex_conf)) @ cstr (req_uri req')"
    using ex_situation by blast
  have n: "310 + length ''xxxxx'' \<le> 315" by simp
  have t: "sent_to 5 (st_trace ?s) = []" by code_simp
  from get_served [OF k(1) ex_os_ok ex_conf_ok(1) ex_sends k(2,4-9) refl ex_mapped ex_stat_size n]
  show ?thesis unfolding k(3) t append_Nil by blast
qed

end
