(* ===== verification/Served_Cgi.thy ===== *)
theory Served_Cgi
  imports Served
begin

text \<open>
  A dynamic request from its bytes to the last byte of its answer. The turn that receives it starts
  the CGI program and passes the body on; then the server reads from the program and sends to the
  client in turn, until the program is done and the connection is reset.
\<close>

section \<open>The program is started\<close>

text \<open>Every write takes all, so the body is written once.\<close>

definition writes_all :: "os \<Rightarrow> bool" where
  "writes_all os \<longleftrightarrow> (\<forall>tr fd bs. os_write os tr fd bs = int (length bs))"

definition body_written :: "int \<Rightarrow> char list \<Rightarrow> trace \<Rightarrow> trace" where
  "body_written fd bs tr = (if bs = [] then tr else EvWrite fd bs (int (length bs)) # tr)"

lemma write_body:
  assumes "writes_all os" "spans b"
  shows "write_loop os fd b (buf_rsize b) tr = Some (True, body_written fd (unread b) tr)"
proof -
  note sp = spans_facts [OF assms(2)]
  have sl: "buf_slice b (data_p b) (length (unread b)) = Some (unread b)" using sp(2) [of "length (unread b)"] by simp
  show ?thesis
    using assms(1) sl
    by (simp add: sp(1) write_loop.simps [of os fd b "int (length (unread b))"] write_loop.simps [of os fd b 0]
        writes_all_def body_written_def)
qed

text \<open>The pipes of a program that was started: the ends the server selects on are in range, the one
  for the body is open, the three ends of the child are closed.\<close>

lemma cgi_init_ends:
  assumes "cgi_init os g tr = (True, g', tr')" "os_ok os"
  shows "0 \<le> srv_out g' \<and> fd_ok (srv_in g') \<and> fd_ok (srv_err g') \<and> cgi_in g' < 0 \<and> cgi_out g' < 0 \<and> cgi_err g' < 0
    \<and> cgi_buf_phase g' = cgi_buf_phase g \<and> sent_to f tr' = sent_to f tr \<and> written_to f tr' = written_to f tr
    \<and> reads_of f tr' = reads_of f tr"
proof -
  have pos: "0 \<le> r \<and> 0 \<le> w" if "os_pipe os t = Some (r, w)" for t r w using os_okD(6) [OF assms(2) that] .
  show ?thesis
    using assms(1)
    by (auto simp: cgi_init_def Let_def close_pipe_def fd_ok_def not_le dest!: pos split: option.splits if_splits)
qed

section \<open>The states of an answer\<close>

text \<open>
  A complete dynamic request whose program runs: its client is not read from, and its descriptors
  are apart. It waits for the program (\<open>relays\<close>), for the client to take \<open>ch\<close> (\<open>sending\<close>), or, the
  program being done, for the client to end the answer (\<open>ending\<close>).
\<close>

definition cgi_conn :: "conn_t \<Rightarrow> server \<Rightarrow> bool" where
  "cgi_conn k s \<longleftrightarrow> req_phase (conn_req k) = REQ_DONE \<and> req_type (conn_req k) = REQ_DYNAMIC
     \<and> req_alive (conn_req k) \<and> sz (req_last_buf (conn_req k)) = 0 \<and> resp_phase (conn_resp k) = RESP_DISABLED
     \<and> data_p (conn_buf k) = 0 \<and> length (data (conn_buf k)) \<le> BUFSZ + 1
     \<and> 0 < conn_fd k \<and> fd_ok (conn_fd k) \<and> fd_ok (srv_err (conn_cgi k))
     \<and> conn_fd k \<noteq> srv_err (conn_cgi k) \<and> conn_fd k \<notin> read_set s"

definition from_program :: "conn_t \<Rightarrow> server \<Rightarrow> bool" where
  "from_program k s \<longleftrightarrow> cgi_conn k s \<and> cgi_phase (conn_cgi k) = CGI_CGI_TO_SRV
     \<and> 0 < srv_in (conn_cgi k) \<and> fd_ok (srv_in (conn_cgi k)) \<and> srv_in (conn_cgi k) \<noteq> srv_err (conn_cgi k)
     \<and> srv_in (conn_cgi k) \<noteq> conn_fd k \<and> srv_in (conn_cgi k) \<in> read_set s"

definition relays :: "conn_t \<Rightarrow> server \<Rightarrow> bool" where
  "relays k s \<longleftrightarrow> from_program k s \<and> cgi_buf_phase (conn_cgi k) = BUF_RECV \<and> conn_fd k \<notin> write_set s"

definition sending :: "conn_t \<Rightarrow> char list \<Rightarrow> server \<Rightarrow> bool" where
  "sending k ch s \<longleftrightarrow> from_program k s \<and> cgi_buf_phase (conn_cgi k) = BUF_SEND \<and> conn_fd k \<in> write_set s
     \<and> spans (conn_buf k) \<and> unread (conn_buf k) = ch"

definition ending :: "conn_t \<Rightarrow> server \<Rightarrow> bool" where
  "ending k s \<longleftrightarrow> cgi_conn k s \<and> cgi_phase (conn_cgi k) = CGI_DONE \<and> srv_in (conn_cgi k) < 0
     \<and> cgi_buf_phase (conn_cgi k) = BUF_SEND \<and> conn_fd k \<in> write_set s \<and> buf_rsize (conn_buf k) = 0"

text \<open>Nothing was sent, and nothing read but from \<open>e\<close>.\<close>

definition quiet :: "int \<Rightarrow> trace \<Rightarrow> trace \<Rightarrow> bool" where
  "quiet e tr tr' \<longleftrightarrow> (\<forall>f. sent_to f tr' = sent_to f tr) \<and> (\<forall>f. f \<noteq> e \<longrightarrow> reads_of f tr' = reads_of f tr)"

lemma quiet_refl [simp]: "quiet e tr tr"
  by (simp add: quiet_def)

lemma logerr_quiet:
  assumes "get_conn c s = Some k" "fd_ok (srv_err (conn_cgi k))" "os_ok os"
  shows "\<exists>tr. sv_logerr os c s = Some (s\<lparr>st_trace := tr\<rparr>) \<and> quiet (srv_err (conn_cgi k)) (st_trace s) tr"
proof (cases "srv_err (conn_cgi k) \<in> read_ready s")
  case True
  have l: "length bs \<le> ERRSZ" if "os_read os tr fd ERRSZ = Some bs" for tr fd bs using os_okD(2) [OF assms(3) that] .
  have "\<exists>m tr. cgi_logerr os (conn_cgi k) (st_trace s) = Some (m, tr) \<and> quiet (srv_err (conn_cgi k)) (st_trace s) tr"
    using l [of "st_trace s" "srv_err (conn_cgi k)"]
    by (auto simp: cgi_logerr_def Let_def mem_put_def quiet_def split: option.split)
  then show ?thesis using assms(1,2) True by (auto simp: sv_logerr_def isset_read_def fd_ok_def)
next
  case False
  have "s = s\<lparr>st_trace := st_trace s\<rparr>" by simp
  then show ?thesis
    using assms(1,2) False by (intro exI [of _ "st_trace s"]) (simp add: sv_logerr_def isset_read_def)
qed

abbreviation all_ready :: "server \<Rightarrow> server" where
  "all_ready s \<equiv> s\<lparr>read_ready := read_set s, write_ready := write_set s\<rparr>"

text \<open>A turn for such a connection is the log of the program's errors, and the two steps that relay.\<close>

lemma cgi_turn:
  assumes k: "get_conn c s = Some k" "cgi_conn k s" "cgi_phase (conn_cgi k) \<in> {CGI_CGI_TO_SRV, CGI_DONE}" and os: "os_ok os"
  shows "\<exists>tr. quiet (srv_err (conn_cgi k)) (st_trace s) tr
    \<and> serve_conn os conf c (all_ready s) = do {
        (alive, s) \<leftarrow> sv_dynamic os c ((all_ready s)\<lparr>st_trace := tr\<rparr>);
        if \<not> alive then Some (False, s) else sv_static os c s }"
proof -
  let ?s = "all_ready s"
  have g: "get_conn c ?s = Some k" using k(1) by (simp add: get_conn_def)
  note d = k(2) [unfolded cgi_conn_def]
  have 1: "sv_recv os c ?s = Some (True, ?s)" using g d by (simp add: sv_recv_def isset_read_def)
  obtain tr where 2: "sv_logerr os c ?s = Some (?s\<lparr>st_trace := tr\<rparr>)" "quiet (srv_err (conn_cgi k)) (st_trace s) tr"
    using logerr_quiet [OF g _ os] d by auto
  let ?t = "?s\<lparr>st_trace := tr\<rparr>"
  have 3: "sv_prepare os conf c ?t = Some ?t" using g d by (simp add: sv_prepare_def)
  have 4: "sv_init_cgi os c ?t = Some ?t" using g d k(3) by (auto simp: sv_init_cgi_def)
  have "read_set ?t - {conn_fd k} = read_set ?t" using d by auto
  then have 5: "sv_select_sets c ?t = Some ?t" using g d by (simp add: sv_select_sets_def clr_fd_read_def)
  have 6: "sv_to_cgi os c ?t = Some ?t" using g d k(3) by (auto simp: sv_to_cgi_def)
  show ?thesis using 2 by (intro exI [of _ tr]) (simp add: serve_conn_def 1 3 4 5 6)
qed

section \<open>The steps of an answer\<close>

text \<open>The program is read from.\<close>

lemma stream_chunk:
  assumes "get_conn c s = Some k" "os_read os (st_trace s) (srv_in (conn_cgi k)) BUFSZ = Some ch" "os_ok os"
    and "data_p (conn_buf k) = 0" "length (data (conn_buf k)) \<le> BUFSZ + 1" "cgi_phase (conn_cgi k) = CGI_CGI_TO_SRV"
  shows "\<exists>b. liso_stream_from_cgi os c s = Some (1, put_conn c (k\<lparr>conn_buf := b,
        conn_cgi := (conn_cgi k)\<lparr>cgi_buf_phase := BUF_SEND, cgi_phase := (if ch = [] then CGI_DONE else CGI_CGI_TO_SRV)\<rparr>\<rparr>)
      (s\<lparr>st_trace := EvRead (srv_in (conn_cgi k)) BUFSZ (Some ch) # st_trace s\<rparr>))
    \<and> spans b \<and> unread b = ch \<and> data_p b = 0 \<and> length (data b) \<le> BUFSZ + 1"
proof -
  have l: "length ch \<le> BUFSZ" by (rule os_okD(2) [OF assms(3,2)])
  obtain b where b: "buf_write 0 ch (conn_buf k) = Some b" "data_p b = 0" "take (length ch) (data b) = ch"
      "length (data b) \<le> BUFSZ + 1" "length ch \<le> length (data b)"
    using buf_write_base [OF assms(5) l] assms(4) by auto
  then show ?thesis
    using assms(1,2,6)
    by (intro exI [of _ "b\<lparr>sz := int (length ch)\<rparr>"])
      (simp add: cn_stream_from_cgi_def log_ev_trace Let_def spans_def unread_def)
qed

lemma relays_read:
  assumes k: "get_conn c s = Some k" "relays k s" and os: "os_ok os"
    and rd: "\<And>tr. reads_of (srv_in (conn_cgi k)) tr = reads_of (srv_in (conn_cgi k)) (st_trace s) \<Longrightarrow>
      os_read os tr (srv_in (conn_cgi k)) BUFSZ = Some ch"
  shows "\<exists>s' k'. serve_conn os conf c (all_ready s) = Some (True, s') \<and> get_conn c s' = Some k'
    \<and> conn_fd k' = conn_fd k \<and> (ch = [] \<longrightarrow> ending k' s')
    \<and> (ch \<noteq> [] \<longrightarrow> sending k' ch s' \<and> srv_in (conn_cgi k') = srv_in (conn_cgi k)
         \<and> reads_of (srv_in (conn_cgi k)) (st_trace s') = Suc (reads_of (srv_in (conn_cgi k)) (st_trace s)))
    \<and> (\<forall>f. sent_to f (st_trace s') = sent_to f (st_trace s))"
proof -
  let ?g = "conn_cgi k"
  note d = k(2) [unfolded relays_def from_program_def cgi_conn_def]
  obtain tr where tr: "quiet (srv_err ?g) (st_trace s) tr"
      "serve_conn os conf c (all_ready s) = do {
        (alive, s) \<leftarrow> sv_dynamic os c ((all_ready s)\<lparr>st_trace := tr\<rparr>);
        if \<not> alive then Some (False, s) else sv_static os c s }"
    using cgi_turn [OF k(1) _ _ os, of conf] k(2) by (auto simp: relays_def from_program_def)
  let ?t = "(all_ready s)\<lparr>st_trace := tr\<rparr>"
  have g: "get_conn c ?t = Some k" using k(1) by (simp add: get_conn_def)
  have q: "reads_of (srv_in ?g) tr = reads_of (srv_in ?g) (st_trace s)" "\<forall>f. sent_to f tr = sent_to f (st_trace s)"
    using tr(1) d by (simp_all add: quiet_def)
  have r: "os_read os (st_trace ?t) (srv_in ?g) BUFSZ = Some ch" using rd q(1) by simp
  let ?tr = "EvRead (srv_in ?g) BUFSZ (Some ch) # tr"
  let ?k1 = "\<lambda>b. k\<lparr>conn_buf := b, conn_cgi := ?g\<lparr>cgi_buf_phase := BUF_SEND,
    cgi_phase := (if ch = [] then CGI_DONE else CGI_CGI_TO_SRV)\<rparr>\<rparr>"
  obtain b where b: "liso_stream_from_cgi os c ?t = Some (1, put_conn c (?k1 b) (?t\<lparr>st_trace := ?tr\<rparr>))"
      "spans b" "unread b = ch" "data_p b = 0" "length (data b) \<le> BUFSZ + 1"
    using stream_chunk [OF g r os] d by auto
  define u where "u = (put_conn c (?k1 b) (?t\<lparr>st_trace := ?tr\<rparr>))\<lparr>write_set := insert (conn_fd k) (write_set s)\<rparr>"
  define v where "v = (if ch = [] then put_conn c ((?k1 b)\<lparr>conn_cgi := (conn_cgi (?k1 b))\<lparr>srv_in := - 1\<rparr>\<rparr>)
      (u\<lparr>read_set := read_set s - {srv_in ?g}, st_trace := EvClose (srv_in ?g) # ?tr\<rparr>) else u)"
  have gu: "get_conn c u = Some (?k1 b)" by (simp add: u_def get_conn_def put_conn_def)
  have frm: "sv_from_cgi os c ?t = Some v"
    using g d b(1)
    by (auto simp: sv_from_cgi_def isset_read_def set_fd_write_def clr_fd_read_def set_cgi_def close_pipe_def v_def u_def
        get_conn_def put_conn_def)
  define k' where "k' = (if ch = [] then (?k1 b)\<lparr>conn_cgi := (conn_cgi (?k1 b))\<lparr>srv_in := - 1\<rparr>\<rparr> else ?k1 b)"
  have v: "get_conn c v = Some k'" "write_ready v = write_set s" "write_set v = insert (conn_fd k) (write_set s)"
      "read_set v = (if ch = [] then read_set s - {srv_in ?g} else read_set s)"
      "st_trace v = (if ch = [] then EvClose (srv_in ?g) # ?tr else ?tr)"
    by (simp_all add: v_def k'_def gu) (simp_all add: u_def put_conn_def)
  have f: "conn_fd k' = conn_fd k" "conn_req k' = conn_req k" "conn_resp k' = conn_resp k" "conn_buf k' = b"
      "srv_err (conn_cgi k') = srv_err ?g" "cgi_buf_phase (conn_cgi k') = BUF_SEND"
      "cgi_phase (conn_cgi k') = (if ch = [] then CGI_DONE else CGI_CGI_TO_SRV)"
      "srv_in (conn_cgi k') = (if ch = [] then - 1 else srv_in ?g)"
    by (simp_all add: k'_def)
  have send: "sv_send_dynamic os c v = Some (True, v)" using v(1,2) f(1) d by (simp add: sv_send_dynamic_def isset_write_def)
  have stat: "sv_static os c v = Some (True, v)" using v(1,2) f(1) d by (simp add: sv_static_def isset_write_def)
  have "serve_conn os conf c (all_ready s) = Some (True, v)"
    unfolding tr(2) using g d by (simp add: sv_dynamic_def frm send stat)
  moreover have "ch = [] \<longrightarrow> ending k' v" "ch \<noteq> [] \<longrightarrow> sending k' ch v"
    using d b v f spans_facts(1) [OF b(2)]
    by (auto simp: ending_def sending_def from_program_def cgi_conn_def)
  moreover have "ch \<noteq> [] \<longrightarrow> reads_of (srv_in ?g) (st_trace v) = Suc (reads_of (srv_in ?g) (st_trace s))"
    "\<forall>f. sent_to f (st_trace v) = sent_to f (st_trace s)"
    using q v(5) by simp_all
  ultimately show ?thesis using v(1) f by (intro exI [of _ v] exI [of _ k']) simp
qed

text \<open>The client takes what was read.\<close>

lemma sending_sends:
  assumes k: "get_conn c s = Some k" "sending k ch s" "ch \<noteq> []" and os: "os_ok os" "takes_all os"
  shows "\<exists>s' k'. serve_conn os conf c (all_ready s) = Some (True, s') \<and> get_conn c s' = Some k' \<and> relays k' s'
    \<and> conn_fd k' = conn_fd k \<and> srv_in (conn_cgi k') = srv_in (conn_cgi k)
    \<and> reads_of (srv_in (conn_cgi k)) (st_trace s') = reads_of (srv_in (conn_cgi k)) (st_trace s)
    \<and> sent_to (conn_fd k) (st_trace s') = sent_to (conn_fd k) (st_trace s) @ ch"
proof -
  let ?g = "conn_cgi k"
  note d = k(2) [unfolded sending_def from_program_def cgi_conn_def]
  obtain tr where tr: "quiet (srv_err ?g) (st_trace s) tr"
      "serve_conn os conf c (all_ready s) = do {
        (alive, s) \<leftarrow> sv_dynamic os c ((all_ready s)\<lparr>st_trace := tr\<rparr>);
        if \<not> alive then Some (False, s) else sv_static os c s }"
    using cgi_turn [OF k(1) _ _ os(1), of conf] k(2) by (auto simp: sending_def from_program_def)
  let ?t = "(all_ready s)\<lparr>st_trace := tr\<rparr>"
  have g: "get_conn c ?t = Some k" using k(1) by (simp add: get_conn_def)
  have frm: "sv_from_cgi os c ?t = Some ?t" using g d by (simp add: sv_from_cgi_def isset_read_def)
  have sp: "buf_rsize (conn_buf k) = int (length ch)" "buf_slice (conn_buf k) (data_p (conn_buf k)) (length ch) = Some ch"
    using spans_facts(1,2) [of "conn_buf k"] d by force+
  let ?k1 = "k\<lparr>conn_cgi := ?g\<lparr>cgi_buf_phase := BUF_RECV\<rparr>\<rparr>"
  let ?u = "put_conn c ?k1 (?t\<lparr>st_trace := EvSend (conn_fd k) ch (int (length ch)) # tr\<rparr>)"
  have sv: "liso_serve_dynamic os c ?t = Some (1, ?u)"
    using g sp k(3) os(2) by (simp add: cn_serve_dynamic_def smart_send_def log_ev_trace Let_def takes_all_def)
  define v where "v = ?u\<lparr>write_set := write_set s - {conn_fd k}\<rparr>"
  have v: "get_conn c v = Some ?k1" "write_set v = write_set s - {conn_fd k}" "read_set v = read_set s"
      "st_trace v = EvSend (conn_fd k) ch (int (length ch)) # tr" "write_ready v = write_set s"
    by (simp_all add: v_def get_conn_def put_conn_def)
  have send: "sv_send_dynamic os c ?t = Some (True, v)"
    using g d sv by (simp add: sv_send_dynamic_def isset_write_def clr_fd_write_def v_def)
  have stat: "sv_static os c v = Some (True, v)" using v(1,5) d by (simp add: sv_static_def isset_write_def)
  have "serve_conn os conf c (all_ready s) = Some (True, v)"
    unfolding tr(2) using g d by (simp add: sv_dynamic_def frm send stat)
  moreover have "relays ?k1 v" using d v by (simp add: relays_def from_program_def cgi_conn_def)
  moreover have "reads_of (srv_in ?g) (st_trace v) = reads_of (srv_in ?g) (st_trace s)"
    "sent_to (conn_fd k) (st_trace v) = sent_to (conn_fd k) (st_trace s) @ ch"
    using tr(1) d v(4) by (simp_all add: quiet_def)
  ultimately show ?thesis using v(1) by (intro exI [of _ v] exI [of _ ?k1]) simp
qed

text \<open>The reset, with its pipes closed.\<close>

lemma cgi_reset_phases:
  "cgi_phase (fst (cgi_reset g tr)) = CGI_IDLE \<and> cgi_buf_phase (fst (cgi_reset g tr)) = BUF_RECV
    \<and> sent_to f (snd (cgi_reset g tr)) = sent_to f tr"
proof -
  have "sent_to f (snd (close_pipe p t)) = sent_to f t" for p t by (simp add: close_pipe_def)
  then show ?thesis by (simp add: cgi_reset_def Let_def case_prod_beta)
qed

lemma reset_after_cgi:
  assumes k: "get_conn c s = Some k" "fd_ok (conn_fd k)" "srv_in (conn_cgi k) < 0" "srv_err (conn_cgi k) < FD_SETSIZE"
  shows "\<exists>s' g. pl_reset_conn c s = Some (1, s') \<and> cgi_phase g = CGI_IDLE \<and> cgi_buf_phase g = BUF_RECV
    \<and> write_ready s' = write_ready s \<and> write_set s' = write_set s - {conn_fd k}
    \<and> (conn_fd k \<noteq> srv_err (conn_cgi k) \<longrightarrow> conn_fd k \<in> read_set s') \<and> sent_to f (st_trace s') = sent_to f (st_trace s)
    \<and> get_conn c s' = Some (k\<lparr>conn_buf := buf_reset (conn_buf k), conn_req := req_reset (conn_req k),
        conn_resp := resp_clear (conn_resp k), conn_cgi := g\<rparr>)"
proof -
  let ?s = "s\<lparr>read_set := insert (conn_fd k) (read_set s), write_set := write_set s - {conn_fd k}\<rparr>"
  obtain se u where e: "drop_pipe (srv_err (conn_cgi k)) ?s = Some (se, u)" "write_ready u = write_ready s"
      "write_set u = write_set s - {conn_fd k}" "conn_fd k \<noteq> srv_err (conn_cgi k) \<longrightarrow> conn_fd k \<in> read_set u"
      "sent_to f (st_trace u) = sent_to f (st_trace s)"
    using k(4) by (cases "0 \<le> srv_err (conn_cgi k)") (simp_all add: drop_pipe_def clr_fd_read_def fd_ok_def close_pipe_def)
  let ?t = "mmbuf_free (resp_mmbuf (conn_resp k)) (st_trace u)"
  obtain g tr where g: "cgi_reset ((conn_cgi k)\<lparr>srv_err := se\<rparr>) ?t = (g, tr)"
    by fastforce
  have "sent_to f ?t = sent_to f (st_trace u)" by (simp add: mmbuf_free_def split: option.split)
  then have "cgi_phase g = CGI_IDLE" "cgi_buf_phase g = BUF_RECV" "sent_to f tr = sent_to f (st_trace s)"
    using cgi_reset_phases [of "(conn_cgi k)\<lparr>srv_err := se\<rparr>" ?t f] g e(5) by simp_all
  moreover have "drop_pipe (srv_in (conn_cgi k)) ?s = Some (srv_in (conn_cgi k), ?s)"
    using k(3) by (simp add: drop_pipe_def)
  ultimately show ?thesis
    using k(1,2) e g by (auto simp: pl_reset_conn_def set_fd_read_def clr_fd_write_def resp_reset_def)
qed

lemma ending_ends:
  assumes k: "get_conn c s = Some k" "ending k s" and os: "os_ok os"
  shows "\<exists>s'. serve_conn os conf c (all_ready s) = Some (True, s') \<and> ready_again (conn_fd k) c s'
    \<and> (\<forall>m. get_conn c s' = Some m \<longrightarrow> req_phase (conn_req m) = REQ_START)
    \<and> sent_to (conn_fd k) (st_trace s') = sent_to (conn_fd k) (st_trace s)"
proof -
  let ?g = "conn_cgi k"
  note d = k(2) [unfolded ending_def cgi_conn_def]
  obtain tr where tr: "quiet (srv_err ?g) (st_trace s) tr"
      "serve_conn os conf c (all_ready s) = do {
        (alive, s) \<leftarrow> sv_dynamic os c ((all_ready s)\<lparr>st_trace := tr\<rparr>);
        if \<not> alive then Some (False, s) else sv_static os c s }"
    using cgi_turn [OF k(1) _ _ os, of conf] k(2) by (auto simp: ending_def)
  let ?t = "(all_ready s)\<lparr>st_trace := tr\<rparr>"
  have g: "get_conn c ?t = Some k" using k(1) by (simp add: get_conn_def)
  have frm: "sv_from_cgi os c ?t = Some ?t" using g d by (simp add: sv_from_cgi_def)
  have fd: "fd_ok (conn_fd k)" "srv_in ?g < 0" "srv_err ?g < FD_SETSIZE" using d by (simp_all add: fd_ok_def)
  obtain s1 g1 where s1: "pl_reset_conn c ?t = Some (1, s1)" "cgi_buf_phase g1 = BUF_RECV" "write_ready s1 = write_set s"
      "conn_fd k \<in> read_set s1" "conn_fd k \<notin> write_set s1" "sent_to (conn_fd k) (st_trace s1) = sent_to (conn_fd k) tr"
      "get_conn c s1 = Some (k\<lparr>conn_buf := buf_reset (conn_buf k), conn_req := req_reset (conn_req k),
        conn_resp := resp_clear (conn_resp k), conn_cgi := g1\<rparr>)"
    using reset_after_cgi [OF g fd, of "conn_fd k"] d by auto
  let ?m = "k\<lparr>conn_buf := buf_reset (conn_buf k), conn_req := req_reset (conn_req k),
        conn_resp := resp_clear (conn_resp k), conn_cgi := g1\<rparr>"
  have over: "liso_reset_or_close c ?t = Some (1, s1)"
    using g s1(1,7) d by (simp add: liso_reset_or_close_def req_reset_def)
  define v where "v = s1\<lparr>write_set := write_set s1 - {conn_fd k}\<rparr>"
  have v: "get_conn c v = Some ?m" "write_ready v = write_set s" "st_trace v = st_trace s1"
      "conn_fd k \<in> read_set v" "conn_fd k \<notin> write_set v"
    using s1(3,4,5,7) by (simp_all add: v_def get_conn_def)
  have send: "sv_send_dynamic os c ?t = Some (True, v)"
    using g d over s1(2,7)
    by (simp add: sv_send_dynamic_def isset_write_def cn_serve_dynamic_def Let_def clr_fd_write_def v_def)
  have stat: "sv_static os c v = Some (True, v)"
    using v(1,2) d by (simp add: sv_static_def isset_write_def cn_serve_static_def resp_clear_def)
  have "serve_conn os conf c (all_ready s) = Some (True, v)"
    unfolding tr(2) using g d by (simp add: sv_dynamic_def frm send stat)
  moreover have "ready_again (conn_fd k) c v" using v by (simp add: ready_again_def req_reset_def)
  moreover have "sent_to (conn_fd k) (st_trace v) = sent_to (conn_fd k) (st_trace s)"
    using tr(1) v(3) s1(6) by (simp add: quiet_def)
  ultimately show ?thesis using v(1) by (intro exI [of _ v]) (simp add: req_reset_def)
qed

text \<open>All of them: two turns for every chunk and two for the end.\<close>

lemma relay_turns:
  assumes a: "answers os fd chunks" "takes_all os" "os_ok os" "list_all (\<lambda>ch. ch \<noteq> []) chunks"
  shows "get_conn c s = Some k \<Longrightarrow> relays k s \<Longrightarrow> srv_in (conn_cgi k) = fd \<Longrightarrow> reads_of fd (st_trace s) = j \<Longrightarrow>
    j \<le> length chunks \<Longrightarrow> 2 * (length chunks - j) + 2 \<le> n \<Longrightarrow>
    \<exists>s'. ready_turns n os conf c s = Some s' \<and> ready_again (conn_fd k) c s'
      \<and> sent_to (conn_fd k) (st_trace s') = sent_to (conn_fd k) (st_trace s) @ concat (drop j chunks)"
proof (induction "length chunks - j" arbitrary: s k j n)
  case 0
  have j: "length chunks \<le> j" using 0 by simp
  obtain m where n: "n = Suc (Suc m)" using 0(7) by (metis Suc_le_D add_2_eq_Suc' le_add2 le_trans Suc_le_mono numeral_2_eq_2)
  have rd: "os_read os tr (srv_in (conn_cgi k)) BUFSZ = Some []"
    if "reads_of (srv_in (conn_cgi k)) tr = reads_of (srv_in (conn_cgi k)) (st_trace s)" for tr
    using a(1) that 0(4,5) j by (simp add: answers_def)
  obtain s1 k1 where 1: "serve_conn os conf c (all_ready s) = Some (True, s1)" "get_conn c s1 = Some k1"
      "conn_fd k1 = conn_fd k" "ending k1 s1" "\<forall>f. sent_to f (st_trace s1) = sent_to f (st_trace s)"
    using relays_read [OF 0(2,3) a(3) rd, of conf] by blast
  obtain s2 where 2: "serve_conn os conf c (all_ready s1) = Some (True, s2)" "ready_again (conn_fd k) c s2"
      "\<forall>m. get_conn c s2 = Some m \<longrightarrow> req_phase (conn_req m) = REQ_START"
      "sent_to (conn_fd k) (st_trace s2) = sent_to (conn_fd k) (st_trace s1)"
    using ending_ends [OF 1(2,4) a(3), of conf] 1(3) by auto
  obtain m2 where m2: "get_conn c s2 = Some m2" using 2(2) by (auto simp: ready_again_def)
  have "ready_turns m os conf c s2 = Some s2" using ready_turns_over [OF m2] 2(3) m2 by simp
  moreover have "req_phase (conn_req k) = REQ_DONE" "req_phase (conn_req k1) = REQ_DONE"
    using 0(3) 1(4) by (simp_all add: relays_def from_program_def ending_def cgi_conn_def)
  ultimately have "ready_turns n os conf c s = Some s2" using 0(2) 1(1,2) 2(1) by (simp add: n)
  then show ?case using 2(2,4) 1(5) j by simp
next
  case (Suc q)
  have j: "j < length chunks" "q = length chunks - Suc j" "Suc j \<le> length chunks" using Suc.hyps(2) by simp_all
  obtain m where n: "n = Suc (Suc m)" "2 * (length chunks - Suc j) + 2 \<le> m"
    using Suc.prems(6) j(1) by (intro that [of "n - 2"]) simp_all
  let ?ch = "chunks ! j"
  have ne: "?ch \<noteq> []" using a(4) j(1) by (simp add: list_all_length)
  have rd: "os_read os tr (srv_in (conn_cgi k)) BUFSZ = Some ?ch"
    if "reads_of (srv_in (conn_cgi k)) tr = reads_of (srv_in (conn_cgi k)) (st_trace s)" for tr
    using a(1) that Suc.prems(3,4) j(1) by (simp add: answers_def)
  obtain s1 k1 where 1: "serve_conn os conf c (all_ready s) = Some (True, s1)" "get_conn c s1 = Some k1"
      "conn_fd k1 = conn_fd k" "sending k1 ?ch s1" "srv_in (conn_cgi k1) = fd" "reads_of fd (st_trace s1) = Suc j"
      "sent_to (conn_fd k) (st_trace s1) = sent_to (conn_fd k) (st_trace s)"
    using relays_read [OF Suc.prems(1,2) a(3) rd, of conf] ne Suc.prems(3,4) by auto
  obtain s2 k2 where 2: "serve_conn os conf c (all_ready s1) = Some (True, s2)" "get_conn c s2 = Some k2" "relays k2 s2"
      "conn_fd k2 = conn_fd k" "srv_in (conn_cgi k2) = fd" "reads_of fd (st_trace s2) = Suc j"
      "sent_to (conn_fd k) (st_trace s2) = sent_to (conn_fd k) (st_trace s1) @ ?ch"
    using sending_sends [OF 1(2,4) ne a(3,2), of conf] 1(3,5,6) by auto
  obtain s3 where 3: "ready_turns m os conf c s2 = Some s3" "ready_again (conn_fd k) c s3"
      "sent_to (conn_fd k) (st_trace s3) = sent_to (conn_fd k) (st_trace s2) @ concat (drop (Suc j) chunks)"
    using Suc.hyps(1) [OF j(2) 2(2,3,5,6) j(3) n(2)] 2(4) by auto
  have "req_phase (conn_req k) = REQ_DONE" "req_phase (conn_req k1) = REQ_DONE"
    using Suc.prems(2) 1(4) by (simp_all add: relays_def from_program_def sending_def cgi_conn_def)
  then have "ready_turns n os conf c s = Some s3" using Suc.prems(1) 1(1,2) 2(1) 3(1) by (simp add: n(1))
  then show ?case using 3(2,3) 2(7) 1(7) j(1) by (simp add: Cons_nth_drop_Suc [symmetric])
qed

section \<open>The turn that starts the program\<close>

lemma first_turn_cgi:
  assumes p: "pool_ok sock ssl s" and os: "os_ok os" "writes_all os" and k: "get_conn c s = Some k" "between k" "0 < conn_fd k"
      "cgi_buf_phase (conn_cgi k) = BUF_RECV"
    and fd: "conn_fd k \<in> read_ready s" "conn_fd k \<notin> write_ready s" "conn_fd k \<notin> write_set s"
    and r: "os_recv os (st_trace s) (conn_fd k) BUFSZ = Some (join_lines ls @ rest)"
    and g: "whole_request (conn_req k) ls rest n req'" "req_type req' = REQ_DYNAMIC" "req_alive req'"
    and cg: "cgi_init os ((conn_cgi k)\<lparr>cgi_phase := CGI_READY\<rparr>)
        (EvRecv (conn_fd k) BUFSZ (Some (join_lines ls @ rest)) # st_trace s) = (True, g, tr)"
    and ap: "0 < srv_in g" "srv_in g \<notin> read_ready s" "srv_err g \<notin> {conn_fd k, srv_in g}"
  shows "\<exists>k' s'. serve_conn os conf c s = Some (True, s') \<and> get_conn c s' = Some k' \<and> relays k' s'
    \<and> conn_fd k' = conn_fd k \<and> srv_in (conn_cgi k') = srv_in g
    \<and> reads_of f (st_trace s') = reads_of f (st_trace s) \<and> sent_to e (st_trace s') = sent_to e (st_trace s)
    \<and> written_to (srv_out g) (st_trace s') = written_to (srv_out g) (st_trace s) @ drop n (join_lines ls @ rest)"
proof -
  let ?r = "EvRecv (conn_fd k) BUFSZ (Some (join_lines ls @ rest)) # st_trace s" and ?fd = "conn_fd k"
  have lv: "live sock ssl s c s" using p k(1) by (auto simp: get_conn_def intro: live_refl)
  have ok: "conn_ok k" "fd_ok ?fd" using live_get [OF lv] live_fd_ok [OF lv k(1)] k(1) by auto
  have st: "req_phase (conn_req k) = REQ_START" "sz (req_last_buf (conn_req k)) = 0" using k(2) by (simp_all add: between_def)
  have cl: "cgi_closed (conn_cgi k)" using ok(1) st(1) by (auto simp: conn_ok_def phases_ok_def phases_fit_def data_ok_def cgi_ok_def)
  obtain k1 where k1: "liso_recv os c s = Some (1, put_conn c k1 (s\<lparr>st_trace := ?r\<rparr>))" "got_conn k req' k1"
      "length (data (conn_buf k1)) \<le> BUFSZ + 1" "spans (conn_buf k1)" "unread (conn_buf k1) = drop n (join_lines ls @ rest)"
    using recv_whole [OF k(1) ok(1) k(2) r os(1) g(1), of liso_conn_err liso_drop_conn] g(2) by blast
  have e: "conn_req k1 = done_req req'" "conn_fd k1 = ?fd" "conn_cgi k1 = (conn_cgi k)\<lparr>cgi_phase := CGI_READY\<rparr>"
      "resp_phase (conn_resp k1) = RESP_DISABLED"
    using k1(2) g(2) by (auto simp: got_conn_def)
  have lb: "sz (req_last_buf req') = 0" using g(1) parse_spec_last_buf st(2) by (auto simp: whole_request_def)
  note ends = cgi_init_ends [OF cg os(1)]
  let ?s = "put_conn c k1 (s\<lparr>st_trace := ?r\<rparr>)"
  have 1: "sv_recv os c s = Some (True, ?s)" using k(1) ok(2) fd(1) k1(1) by (simp add: sv_recv_def isset_read_def)
  have 2: "sv_logerr os c ?s = Some ?s" using e cl by (simp add: sv_logerr_def cgi_closed_def)
  have 3: "sv_prepare os conf c ?s = Some ?s" using e g(2) by (simp add: sv_prepare_def)
  let ?k2 = "k1\<lparr>conn_cgi := g\<lparr>cgi_phase := CGI_SRV_TO_CGI\<rparr>\<rparr>"
  define u where "u = (put_conn c ?k2 (?s\<lparr>st_trace := tr\<rparr>))\<lparr>read_set := insert (srv_err g) (read_set s)\<rparr>"
  have 4: "sv_init_cgi os c ?s = Some u"
    using e g(2) cg ends by (simp add: sv_init_cgi_def cn_init_cgi_def liso_cgi_inited_def set_fd_read_def u_def)
  define v where "v = u\<lparr>read_set := insert (srv_err g) (read_set s) - {?fd}\<rparr>"
  have u: "get_conn c u = Some ?k2" "read_set u = insert (srv_err g) (read_set s)" by (simp_all add: u_def get_conn_def put_conn_def)
  have 5: "sv_select_sets c u = Some v"
    using u e g(2) ok(2) by (simp add: sv_select_sets_def clr_fd_read_def v_def)
  have v: "get_conn c v = Some ?k2" "st_trace v = tr" "read_set v = insert (srv_err g) (read_set s) - {?fd}"
      "write_set v = write_set s" "read_ready v = read_ready s" "write_ready v = write_ready s"
    by (simp_all add: v_def u_def get_conn_def put_conn_def)
  let ?w = "EvClose (srv_out g) # body_written (srv_out g) (unread (conn_buf k1)) tr"
  let ?k3 = "?k2\<lparr>conn_buf := buf_reset (conn_buf k1), conn_cgi := g\<lparr>srv_out := - 1, cgi_phase := CGI_CGI_TO_SRV\<rparr>\<rparr>"
  define w where "w = put_conn c ?k3 (v\<lparr>st_trace := ?w, read_set := insert (srv_in g) (read_set v)\<rparr>)"
  have 6: "sv_to_cgi os c v = Some w"
    using v(1,2) e g(2) ends write_body [OF os(2) k1(4), of "srv_out g" tr]
    by (simp add: sv_to_cgi_def cn_stream_to_cgi_def set_cgi_def set_fd_read_def close_pipe_def w_def)
  have w: "get_conn c w = Some ?k3" "read_set w = insert (srv_in g) (read_set v)" "write_set w = write_set s"
      "read_ready w = read_ready s" "write_ready w = write_ready s" "st_trace w = ?w"
    using v by (simp_all add: w_def get_conn_def put_conn_def)
  have 7: "sv_dynamic os c w = Some (True, w)"
    using w(1,4,5) e g(2) ends ap fd(2) ok(2) by (simp add: sv_dynamic_def sv_from_cgi_def sv_send_dynamic_def isset_read_def isset_write_def)
  have 8: "sv_static os c w = Some (True, w)"
    using w(1,5) e fd(2) ok(2) by (simp add: sv_static_def isset_write_def)
  have "serve_conn os conf c s = Some (True, w)" by (simp add: serve_conn_def 1 2 3 4 5 6 7 8)
  moreover have "relays ?k3 w"
    using w(2,3) v(3) e g(2,3) lb ends ap fd k ok(2) k1(3)
    by (auto simp: relays_def from_program_def cgi_conn_def)
  moreover have "reads_of f ?w = reads_of f (st_trace s)" "sent_to e ?w = sent_to e (st_trace s)"
      "written_to (srv_out g) ?w = written_to (srv_out g) (st_trace s) @ drop n (join_lines ls @ rest)" for f e
    using ends [of f] ends [of e] ends [of "srv_out g"] k1(5) by (simp_all add: body_written_def)
  ultimately show ?thesis using w(1,6) e by (intro exI [of _ ?k3] exI [of _ w]) simp
qed

section \<open>From the request to the next\<close>

text \<open>C22: the whole life of a dynamic request when nothing fails and no transfer is partial: \<open>pipe\<close> and
  \<open>fork\<close> succeed, every \<open>write\<close> to the program and every \<open>send\<close> to the client takes all it is given
  (C17 and C23 say what happens otherwise), and \<open>select\<close> reports in each turn what it is asked
  about. A connection between two requests receives, in one piece, a complete request for a program,
  with its body, on a connection to be kept. The turn that reads it starts the program and writes
  to it exactly the bytes behind the header. Then two turns for each chunk the program writes and
  two for its end send these chunks to the client once, in order and whole, and nothing else; and
  the connection waits for its next request. The descriptors of the pipes must be new: nothing was
  read from them and \<open>select\<close> has not reported them.\<close>

theorem cgi_served:
  assumes "pool_ok sock ssl s" "os_ok os" "writes_all os" "takes_all os"
    and "get_conn c s = Some k" "between k" "0 < conn_fd k" "cgi_buf_phase (conn_cgi k) = BUF_RECV"
    and "conn_fd k \<in> read_ready s" "conn_fd k \<notin> write_ready s" "conn_fd k \<notin> write_set s"
    and "os_recv os (st_trace s) (conn_fd k) BUFSZ = Some (join_lines ls @ rest)"
    and "whole_request (conn_req k) ls rest n req'" "req_type req' = REQ_DYNAMIC" "req_alive req'"
    and "cgi_init os ((conn_cgi k)\<lparr>cgi_phase := CGI_READY\<rparr>)
        (EvRecv (conn_fd k) BUFSZ (Some (join_lines ls @ rest)) # st_trace s) = (True, g, tr)"
    and "0 < srv_in g" "srv_in g \<notin> read_ready s" "srv_err g \<notin> {conn_fd k, srv_in g}"
    and "reads_of (srv_in g) (st_trace s) = 0" "answers os (srv_in g) chunks" "list_all (\<lambda>ch. ch \<noteq> []) chunks"
    and "2 * length chunks + 2 \<le> turns"
  shows "\<exists>s1 s2. serve_conn os conf c s = Some (True, s1)
    \<and> written_to (srv_out g) (st_trace s1) = written_to (srv_out g) (st_trace s) @ drop n (join_lines ls @ rest)
    \<and> ready_turns turns os conf c s1 = Some s2
    \<and> sent_to (conn_fd k) (st_trace s2) = sent_to (conn_fd k) (st_trace s) @ concat chunks
    \<and> ready_again (conn_fd k) c s2"
proof -
  obtain k' s1 where f: "serve_conn os conf c s = Some (True, s1)" "get_conn c s1 = Some k'" "relays k' s1"
      "conn_fd k' = conn_fd k" "srv_in (conn_cgi k') = srv_in g" "reads_of (srv_in g) (st_trace s1) = 0"
      "sent_to (conn_fd k) (st_trace s1) = sent_to (conn_fd k) (st_trace s)"
      "written_to (srv_out g) (st_trace s1) = written_to (srv_out g) (st_trace s) @ drop n (join_lines ls @ rest)"
    using first_turn_cgi [OF assms(1-3,5-19), where f = "srv_in g" and e = "conn_fd k" and conf = conf] assms(20) by auto
  have n: "2 * (length chunks - 0) + 2 \<le> turns" using assms(23) by simp
  from relay_turns [OF assms(21,4,2,22) f(2,3,5,6) le0 n, of conf] f show ?thesis by auto
qed

text \<open>A client that posts four bytes to a program that greets it in two writes.\<close>

definition post_lines :: "string list" where
  "post_lines = [''POST /cgi/hi HTTP/1.1'' @ [CR], ''Content-Length: 4'' @ [CR], [CR]]"

definition pipes_made :: "trace \<Rightarrow> nat" where
  "pipes_made tr = length (filter (\<lambda>e. case e of EvPipe _ \<Rightarrow> True | _ \<Rightarrow> False) tr)"

definition post_os :: os where
  "post_os = ex_os\<lparr>os_recv := (\<lambda>_ _ n. Some (take n (join_lines post_lines @ ''body''))),
     os_read := (\<lambda>tr fd n. Some (take n (if reads_of fd tr < 2 then [''Hello, '', ''world!''] ! reads_of fd tr else []))),
     os_pipe := (\<lambda>tr. let i = 2 * int (pipes_made tr) in Some (7 + i, 8 + i))\<rparr>"

lemma post_os_ok: "os_ok post_os"
  using ex_os_ok by (simp add: os_ok_def post_os_def Let_def) (auto simp: ex_os_def)

lemma post_situation: "\<exists>k req' g tr. get_conn 0 ex_server = Some k \<and> between k \<and> conn_fd k = 5
    \<and> cgi_buf_phase (conn_cgi k) = BUF_RECV \<and> whole_request (conn_req k) post_lines ''body'' 44 req'
    \<and> req_type req' = REQ_DYNAMIC \<and> req_alive req' \<and> cgi_init post_os ((conn_cgi k)\<lparr>cgi_phase := CGI_READY\<rparr>)
        (EvRecv 5 BUFSZ (Some (join_lines post_lines @ ''body'')) # st_trace ex_server) = (True, g, tr)
    \<and> srv_in g = 9 \<and> srv_err g = 11 \<and> srv_out g = 8 \<and> reads_of 9 (st_trace ex_server) = 0
    \<and> written_to 8 (st_trace ex_server) = [] \<and> sent_to 5 (st_trace ex_server) = [] \<and> 5 \<notin> write_set ex_server"
proof -
  have "(case get_conn 0 ex_server of None \<Rightarrow> False | Some k \<Rightarrow> between k \<and> conn_fd k = 5
      \<and> cgi_buf_phase (conn_cgi k) = BUF_RECV
      \<and> (case parse_spec (conn_req k) post_lines of None \<Rightarrow> False
         | Some (n, req') \<Rightarrow> whole_request (conn_req k) post_lines ''body'' 44 req'
             \<and> req_type req' = REQ_DYNAMIC \<and> req_alive req')
      \<and> (case cgi_init post_os ((conn_cgi k)\<lparr>cgi_phase := CGI_READY\<rparr>)
            (EvRecv 5 BUFSZ (Some (join_lines post_lines @ ''body'')) # st_trace ex_server) of
           (ok, g, tr) \<Rightarrow> ok \<and> srv_in g = 9 \<and> srv_err g = 11 \<and> srv_out g = 8)
      \<and> reads_of 9 (st_trace ex_server) = 0
      \<and> written_to 8 (st_trace ex_server) = [] \<and> sent_to 5 (st_trace ex_server) = [] \<and> 5 \<notin> write_set ex_server)"
    by code_simp
  then show ?thesis by (auto split: option.splits prod.splits)
qed

theorem cgi_served_witness:
  "\<exists>s1 s2. serve_conn post_os ex_conf 0 (ex_server\<lparr>read_ready := {5}, write_ready := {}\<rparr>) = Some (True, s1)
    \<and> written_to 8 (st_trace s1) = ''body'' \<and> ready_turns 6 post_os ex_conf 0 s1 = Some s2
    \<and> sent_to 5 (st_trace s2) = ''Hello, world!'' \<and> ready_again 5 0 s2"
proof -
  let ?s = "ex_server\<lparr>read_ready := {5}, write_ready := {}\<rparr>" and ?t = "join_lines post_lines @ ''body''"
  obtain k req' g tr where k: "get_conn 0 ex_server = Some k" "between k" "conn_fd k = 5"
      "cgi_buf_phase (conn_cgi k) = BUF_RECV" "whole_request (conn_req k) post_lines ''body'' 44 req'"
      "req_type req' = REQ_DYNAMIC" "req_alive req'" "cgi_init post_os ((conn_cgi k)\<lparr>cgi_phase := CGI_READY\<rparr>)
        (EvRecv 5 BUFSZ (Some ?t) # st_trace ex_server) = (True, g, tr)"
      "srv_in g = 9" "srv_err g = 11" "srv_out g = 8" "reads_of 9 (st_trace ex_server) = 0"
      "written_to 8 (st_trace ex_server) = []" "sent_to 5 (st_trace ex_server) = []" "5 \<notin> write_set ex_server"
    using post_situation by auto
  have s: "pool_ok 3 4 ?s" "get_conn 0 ?s = Some k" "0 < conn_fd k" "conn_fd k \<in> read_ready ?s"
      "conn_fd k \<notin> write_ready ?s" "conn_fd k \<notin> write_set ?s"
    using ex_server_ok k(1,3,15) by (simp_all add: get_conn_def)
  have w: "writes_all post_os" "takes_all post_os" "answers post_os (srv_in g) [''Hello, '', ''world!'']"
    by (auto simp: writes_all_def takes_all_def answers_def post_os_def ex_os_def BUFSZ_def nth_Cons')
  have r: "os_recv post_os (st_trace ?s) (conn_fd k) BUFSZ = Some ?t"
    by (simp add: post_os_def post_lines_def BUFSZ_def)
  have d: "drop 44 ?t = ''body''" "concat [''Hello, '', ''world!''] = ''Hello, world!''"
    by (simp_all add: post_lines_def)
  from cgi_served [OF s(1) post_os_ok w(1,2) s(2) k(2) s(3) k(4) s(4-6) r k(5-7) _ _ _ _ _ w(3), of tr 6 ex_conf]
  show ?thesis using k(3,8-14) d by simp
qed

end
