(* ===== verification/Accounts.thy ===== *)
theory Accounts
  imports Examples
begin

text \<open>
  Accounts of what the server holds. A history opens and closes descriptors and maps and unmaps
  files; the connections hold descriptors and mappings. Weighing descriptors with \<open>w\<close> and mapped
  bytes with \<open>v\<close>, the balance of the history covers what the connections hold, and is equal to it
  when nothing is lost. The locale \<open>ledger\<close> carries this through every step of the server once; it
  is interpreted with \<open>w = 0\<close> for the mappings and with \<open>v = 0\<close> for a descriptor.
\<close>

section \<open>Balance and holdings\<close>

definition pipe_end :: "(int \<Rightarrow> int) \<Rightarrow> int \<Rightarrow> int" where
  "pipe_end w fd = (if 0 \<le> fd then w fd else 0)"

lemma pipe_end_neg [simp]: "fd < 0 \<Longrightarrow> pipe_end w fd = 0"
  by (simp add: pipe_end_def)

fun entry :: "(int \<Rightarrow> int) \<Rightarrow> int \<Rightarrow> event \<Rightarrow> int" where
  "entry w v (EvAccept _ (Some fd)) = w fd"
| "entry w v (EvPipe (Some (r, x))) = pipe_end w r + pipe_end w x"
| "entry w v (EvOpen _ (Some fd)) = w fd"
| "entry w v (EvClose fd) = - w fd"
| "entry w v (EvMmap _ n (Some _)) = v * n"
| "entry w v (EvMunmap n) = - (v * n)"
| "entry w v _ = 0"

definition balance :: "(int \<Rightarrow> int) \<Rightarrow> int \<Rightarrow> trace \<Rightarrow> int" where
  "balance w v tr = (\<Sum>e \<leftarrow> tr. entry w v e)"

lemma balance_simps [simp]: "balance w v [] = 0" "balance w v (e # tr) = entry w v e + balance w v tr"
  by (simp_all add: balance_def)

text \<open>The events that open or close a descriptor.\<close>

fun moves_fd :: "event \<Rightarrow> bool" where
  "moves_fd (EvAccept _ (Some _)) = True"
| "moves_fd (EvPipe (Some _)) = True"
| "moves_fd (EvOpen _ (Some _)) = True"
| "moves_fd (EvClose _) = True"
| "moves_fd _ = False"

definition map_size :: "buf_t option \<Rightarrow> int" where
  "map_size mm = (case mm of None \<Rightarrow> 0 | Some b \<Rightarrow> sz b)"

lemma map_size_simps [simp]: "map_size None = 0" "map_size (Some b) = sz b"
  by (simp_all add: map_size_def)

definition pipe_ends :: "(int \<Rightarrow> int) \<Rightarrow> cgi_t \<Rightarrow> int" where
  "pipe_ends w g = pipe_end w (srv_out g) + pipe_end w (srv_in g) + pipe_end w (srv_err g)
     + pipe_end w (cgi_in g) + pipe_end w (cgi_out g) + pipe_end w (cgi_err g)"

lemma pipe_ends_simps [simp]:
  "pipe_ends w (g\<lparr>cgi_phase := p\<rparr>) = pipe_ends w g" "pipe_ends w (g\<lparr>cgi_buf_phase := b\<rparr>) = pipe_ends w g"
  "pipe_ends w (g\<lparr>cgi_pid := i\<rparr>) = pipe_ends w g"
  "pipe_ends w (g\<lparr>srv_in := x\<rparr>) = pipe_ends w g - pipe_end w (srv_in g) + pipe_end w x"
  "pipe_ends w (g\<lparr>srv_out := x\<rparr>) = pipe_ends w g - pipe_end w (srv_out g) + pipe_end w x"
  "pipe_ends w (g\<lparr>srv_err := x\<rparr>) = pipe_ends w g - pipe_end w (srv_err g) + pipe_end w x"
  by (simp_all add: pipe_ends_def)

lemma pipe_ends_closed: "cgi_closed g \<Longrightarrow> pipe_ends w g = 0"
  by (simp add: cgi_closed_def pipe_ends_def)

definition held :: "(int \<Rightarrow> int) \<Rightarrow> int \<Rightarrow> conn_t \<Rightarrow> int" where
  "held w v k = w (conn_fd k) + pipe_ends w (conn_cgi k) + v * map_size (resp_mmbuf (conn_resp k))"

definition held_all :: "(int \<Rightarrow> int) \<Rightarrow> int \<Rightarrow> (ptr \<rightharpoonup> conn_t) \<Rightarrow> int" where
  "held_all w v h = (\<Sum>c \<in> dom h. held w v (the (h c)))"

lemma held_all_insert:
  assumes "finite (dom h)"
  shows "held_all w v (h(c \<mapsto> k)) = held w v k + (\<Sum>d \<in> dom h - {c}. held w v (the (h d)))"
proof -
  have "(\<Sum>d \<in> dom h - {c}. held w v (the ((h(c \<mapsto> k)) d))) = (\<Sum>d \<in> dom h - {c}. held w v (the (h d)))"
    by (rule sum.cong) auto
  then show ?thesis using assms by (simp add: held_all_def sum.insert_remove)
qed

lemma held_all_remove:
  assumes "finite (dom h)" "h c = Some k"
  shows "(\<Sum>d \<in> dom h - {c}. held w v (the (h d))) = held_all w v h - held w v k"
proof -
  have "c \<in> dom h" using assms(2) by blast
  from sum.remove [OF assms(1) this, of "\<lambda>d. held w v (the (h d))"] show ?thesis
    using assms(2) by (simp add: held_all_def)
qed

lemma held_all_upd:
  "finite (dom h) \<Longrightarrow> h c = Some k \<Longrightarrow> held_all w v (h(c \<mapsto> k')) = held_all w v h - held w v k + held w v k'"
  using held_all_insert [of h w v c k'] held_all_remove [of h c k w v] by simp

lemma held_all_del:
  "finite (dom h) \<Longrightarrow> h c = Some k \<Longrightarrow> held_all w v (h(c := None)) = held_all w v h - held w v k"
proof -
  assume h: "finite (dom h)" "h c = Some k"
  have "held_all w v (h(c := None)) = (\<Sum>d \<in> dom h - {c}. held w v (the (h d)))"
    unfolding held_all_def by (rule sum.cong) (auto simp: dom_def)
  then show ?thesis using held_all_remove [OF h] by simp
qed

lemma held_all_new:
  "finite (dom h) \<Longrightarrow> h c = None \<Longrightarrow> held_all w v (h(c \<mapsto> k)) = held_all w v h + held w v k"
  using held_all_insert [of h w v c k] by (simp add: held_all_def domIff)

text \<open>A response that is still to be built holds no file, a program that is still to be started no pipe.\<close>

definition unstarted :: "conn_t \<Rightarrow> bool" where
  "unstarted k \<longleftrightarrow> (cgi_phase (conn_cgi k) \<in> {CGI_IDLE, CGI_READY} \<longrightarrow> cgi_closed (conn_cgi k))"

definition fine :: "conn_t \<Rightarrow> bool" where
  "fine k \<longleftrightarrow> unstarted k \<and> (resp_phase (conn_resp k) = RESP_READY \<longrightarrow> resp_mmbuf (conn_resp k) = None)
     \<and> 0 \<le> map_size (resp_mmbuf (conn_resp k))"

text \<open>A system in which pipes can always be made and files, none of them empty, be mapped.\<close>

definition thrifty :: "os \<Rightarrow> bool" where
  "thrifty os \<longleftrightarrow> (\<forall>tr. os_pipe os tr \<noteq> None) \<and> (\<forall>tr p st. os_stat os tr p = Some st \<longrightarrow> 0 < st_size st)
     \<and> (\<forall>tr fd n. 0 < n \<longrightarrow> os_mmap os tr fd n \<noteq> None)"

section \<open>The interface\<close>

text \<open>
  \<open>tight\<close> is a property of histories that each answer of the system and each \<open>close\<close> keeps;
  \<open>lucky\<close> says that descriptors are not weighed or that the system is thrifty.
\<close>

locale ledger =
  fixes w :: "int \<Rightarrow> int" and v :: int and tight :: "trace \<Rightarrow> bool" and lucky :: bool and os :: os
  assumes weights: "0 \<le> w fd" "0 \<le> v"
    and lucky_fds: "lucky \<Longrightarrow> (\<forall>fd. w fd = 0) \<or> thrifty os"
    and tight_accept: "tight tr \<Longrightarrow> os_accept os tr s = Some (fd, ad) \<Longrightarrow> tight (EvAccept s (Some fd) # tr)"
    and tight_pipe: "tight tr \<Longrightarrow> os_pipe os tr = Some p \<Longrightarrow> tight (EvPipe (Some p) # tr)"
    and tight_open: "tight tr \<Longrightarrow> os_open os tr path = Some fd \<Longrightarrow> tight (EvOpen path (Some fd) # tr)"
    and tight_close: "tight tr \<Longrightarrow> w fd \<le> balance w v tr \<Longrightarrow> tight (EvClose fd # tr)"
    and tight_other: "tight tr \<Longrightarrow> \<not> moves_fd e \<Longrightarrow> tight (e # tr)"
begin

definition covers :: "int \<Rightarrow> bool" where
  "covers d \<longleftrightarrow> 0 \<le> d \<and> (lucky \<longrightarrow> d = 0)"

lemma covers_0 [simp]: "covers 0"
  by (simp add: covers_def)

lemma covers_add: "covers a \<Longrightarrow> covers b \<Longrightarrow> c = a + b \<Longrightarrow> covers c"
  by (simp add: covers_def)

text \<open>
  The history grows from \<open>tr\<close> to \<open>t\<close> while the holdings change by \<open>d\<close>; the balance suffices for
  what is given back.
\<close>

definition pays :: "trace \<Rightarrow> trace \<Rightarrow> int \<Rightarrow> bool" where
  "pays tr t d \<longleftrightarrow> covers (balance w v t - balance w v tr - d)
     \<and> (tight tr \<longrightarrow> 0 \<le> balance w v tr \<longrightarrow> 0 \<le> balance w v tr + d \<longrightarrow> tight t)"

lemma pays_refl [simp]: "pays tr tr 0"
  by (simp add: pays_def)

lemma pays_trans: "pays tr t d \<Longrightarrow> pays t u e \<Longrightarrow> 0 \<le> d \<or> e \<le> 0 \<Longrightarrow> f = d + e \<Longrightarrow> pays tr u f"
  by (auto simp: pays_def covers_def)

lemma pays_other: "\<not> moves_fd e \<Longrightarrow> d = entry w v e \<Longrightarrow> pays tr (e # tr) d"
  using tight_other by (simp add: pays_def)

lemma pays_skip [simp]: "pays tr t 0 \<Longrightarrow> \<not> moves_fd e \<Longrightarrow> entry w v e = 0 \<Longrightarrow> pays tr (e # t) 0"
  by (erule pays_trans [OF _ pays_other [OF _ refl]]) simp_all

lemma pays_close: "pays tr (EvClose fd # tr) (- w fd)"
  using tight_close by (simp add: pays_def)

lemma pays_close_pipe: "pays tr (snd (close_pipe fd tr)) (pipe_end w (fst (close_pipe fd tr)) - pipe_end w fd)"
  using pays_close by (simp add: close_pipe_def pipe_end_def)

lemma pipe_end_pos: "0 \<le> pipe_end w fd"
  by (simp add: pipe_end_def weights)

lemma pays_closed: "pays tr t d \<Longrightarrow> close_pipe fd t = (fd', u) \<Longrightarrow> pays tr u (d + (pipe_end w fd' - pipe_end w fd))"
  using pays_trans [OF _ pays_close_pipe [of t fd], of tr d] pipe_end_pos [of fd]
  by (simp add: close_pipe_def pipe_end_def split: if_splits)

lemma pays_free: "pays tr (mmbuf_free mm tr) (- (v * map_size mm))"
  by (auto simp: mmbuf_free_def intro: pays_other split: option.split)

lemma pays_cgi_reset:
  assumes "cgi_reset g tr = (g', t)"
  shows "pays tr t (- pipe_ends w g) \<and> cgi_closed g'"
proof -
  obtain so t1 where 1: "close_pipe (srv_out g) tr = (so, t1)" by fastforce
  obtain si t2 where 2: "close_pipe (srv_in g) t1 = (si, t2)" by fastforce
  obtain ci t3 where 3: "close_pipe (cgi_in g) t2 = (ci, t3)" by fastforce
  obtain co t4 where 4: "close_pipe (cgi_out g) t3 = (co, t4)" by fastforce
  obtain se t5 where 5: "close_pipe (srv_err g) t4 = (se, t5)" by fastforce
  obtain ce t6 where 6: "close_pipe (cgi_err g) t5 = (ce, t6)" by fastforce
  note c = 1 2 3 4 5 6
  have t: "t = t6" and g': "g' = g\<lparr>cgi_phase := CGI_IDLE, srv_out := so, srv_in := si, cgi_in := ci,
              cgi_out := co, srv_err := se, cgi_err := ce, cgi_buf_phase := BUF_RECV\<rparr>"
    using assms c by (simp_all add: cgi_reset_def)
  have neg: "close_pipe fd u = (fd', u') \<Longrightarrow> fd' < 0" for fd u fd' u'
    by (auto simp: close_pipe_def split: if_splits)
  have "pays tr t (((((pipe_end w so - pipe_end w (srv_out g) + (pipe_end w si - pipe_end w (srv_in g)))
      + (pipe_end w ci - pipe_end w (cgi_in g))) + (pipe_end w co - pipe_end w (cgi_out g)))
      + (pipe_end w se - pipe_end w (srv_err g))) + (pipe_end w ce - pipe_end w (cgi_err g)))"
    unfolding t
    using pays_closed [OF pays_closed [OF pays_closed [OF pays_closed [OF pays_closed [OF pays_closed
      [OF pays_refl 1] 2] 3] 4] 5] 6] by simp
  then show ?thesis using c [THEN neg] by (simp add: g' pipe_ends_def cgi_closed_def algebra_simps)
qed

text \<open>What is lost is covered, if the system is not thrifty.\<close>

lemma pays_lose:
  assumes "pays tr t d" "\<not> moves_fd e" "entry w v e = 0" "0 \<le> d" "lucky \<Longrightarrow> d = 0"
  shows "pays tr (e # t) 0"
  using assms tight_other [of t e] by (auto simp: pays_def covers_def)

lemma pays_pipe:
  assumes "os_pipe os tr = Some (r, x)"
  shows "pays tr (EvPipe (Some (r, x)) # tr) (pipe_end w r + pipe_end w x)"
  using tight_pipe [OF _ assms] by (simp add: pays_def)

lemma no_pipe_lost: "os_pipe os tr = None \<Longrightarrow> lucky \<Longrightarrow> pipe_end w fd = 0"
  using lucky_fds by (metis option.distinct(1) pipe_end_def thrifty_def)

lemma pays_cgi_init:
  assumes i: "cgi_init os g tr = (b, g', t)" and g: "cgi_closed g"
  shows "pays tr t (pipe_ends w g')"
proof -
  define t1 where "t1 = EvPipe (os_pipe os tr) # tr"
  define t2 where "t2 = EvPipe (os_pipe os t1) # t1"
  define t3 where "t3 = EvPipe (os_pipe os t2) # t2"
  define t4 where "t4 = EvFork (os_fork os t3) # t3"
  note ts = t1_def t2_def t3_def t4_def
  have closed: "pipe_ends w g = 0" by (rule pipe_ends_closed [OF g])
  show ?thesis
  proof (cases "os_pipe os tr")
    case None
    then show ?thesis using i closed by (auto simp: cgi_init_def intro: pays_other)
  next
    case 1: (Some p1)
    obtain a1 a2 where p1: "p1 = (a1, a2)" by fastforce
    have t1: "pays tr t1 (pipe_end w a1 + pipe_end w a2)" using pays_pipe 1 by (simp add: t1_def p1)
    show ?thesis
    proof (cases "os_pipe os t1")
      case None
      then have "g' = g" "t = EvPipe None # t1" using i 1 p1 by (simp_all add: cgi_init_def Let_def t1_def)
      moreover have "pays tr (EvPipe None # t1) 0"
        by (rule pays_lose [OF t1])
          (use pipe_end_pos no_pipe_lost [OF None] in simp_all)
      ultimately show ?thesis using closed by simp
    next
      case 2: (Some p2)
      obtain b1 b2 where p2: "p2 = (b1, b2)" by fastforce
      have t2: "pays tr t2 (pipe_end w a1 + pipe_end w a2 + (pipe_end w b1 + pipe_end w b2))"
        using pays_trans [OF t1 pays_pipe _ refl] 2 pipe_end_pos by (simp add: t2_def p2)
      show ?thesis
      proof (cases "os_pipe os t2")
        case None
        then have "g' = g" "t = EvPipe None # t2" using i 1 2 p1 p2 by (simp_all add: cgi_init_def Let_def ts)
        moreover have "pays tr (EvPipe None # t2) 0"
          by (rule pays_lose [OF t2])
            (use pipe_end_pos no_pipe_lost [OF None] in simp_all)
        ultimately show ?thesis using closed by simp
      next
        case 3: (Some p3)
        obtain c1 c2 where p3: "p3 = (c1, c2)" by fastforce
        have t3: "pays tr t3 (pipe_end w a1 + pipe_end w a2 + (pipe_end w b1 + pipe_end w b2) + (pipe_end w c1 + pipe_end w c2))"
          using pays_trans [OF t2 pays_pipe _ refl] 3 pipe_end_pos by (simp add: t3_def p3)
        have t4: "pays tr t4 (pipe_end w a1 + pipe_end w a2 + (pipe_end w b1 + pipe_end w b2) + (pipe_end w c1 + pipe_end w c2))"
          unfolding t4_def by (rule pays_trans [OF t3 pays_other [OF _ refl]]) (simp_all add: pipe_end_pos)
        show ?thesis
        proof (cases "FD_SETSIZE \<le> b1 \<or> FD_SETSIZE \<le> c1 \<or> os_fork os t3 = None")
          case True
          then show ?thesis using i 1 2 3 p1 p2 p3 t3 t4
            by (auto simp: cgi_init_def Let_def ts pipe_ends_def algebra_simps split: if_splits)
        next
          case False
          then obtain pid where f: "os_fork os t3 = Some pid" "\<not> FD_SETSIZE \<le> b1" "\<not> FD_SETSIZE \<le> c1" by auto
          obtain ci co ce t5 t6 where c: "close_pipe a1 t4 = (ci, t5)" "close_pipe b2 t5 = (co, t6)" "close_pipe c2 t6 = (ce, t)"
            and g': "g' = g\<lparr>srv_out := a2, srv_in := b1, srv_err := c1, cgi_pid := Some (int pid), cgi_in := ci,
              cgi_out := co, cgi_err := ce, cgi_phase := CGI_SRV_TO_CGI\<rparr>"
            using i 1 2 3 f p1 p2 p3 by (auto simp: cgi_init_def Let_def ts split: prod.splits)
          have "pays tr t ((((pipe_end w a1 + pipe_end w a2 + (pipe_end w b1 + pipe_end w b2) + (pipe_end w c1 + pipe_end w c2))
              + (pipe_end w ci - pipe_end w a1)) + (pipe_end w co - pipe_end w b2)) + (pipe_end w ce - pipe_end w c2))"
            by (rule pays_closed [OF pays_closed [OF pays_closed [OF t4 c(1)] c(2)] c(3)])
          then show ?thesis by (simp add: g' pipe_ends_def algebra_simps)
        qed
      qed
    qed
  qed
qed

text \<open>The balance of a server whose connections will hold \<open>d\<close> more than they do.\<close>

definition owes :: "int \<Rightarrow> server \<Rightarrow> bool" where
  "owes d s \<longleftrightarrow> covers (balance w v (st_trace s) - held_all w v (st_heap s) - d) \<and> tight (st_trace s)
     \<and> 0 \<le> held_all w v (st_heap s) + d \<and> finite (dom (st_heap s)) \<and> (\<forall>c \<ge> sv_next s. st_heap s c = None)
     \<and> (\<forall>c k. st_heap s c = Some k \<longrightarrow> fine k)"

abbreviation bal :: "server \<Rightarrow> bool" where
  "bal \<equiv> owes 0"

lemma owes_updates [simp]:
  "owes d (s\<lparr>n_conns := n\<rparr>) = owes d s" "owes d (s\<lparr>conns := l\<rparr>) = owes d s" "owes d (s\<lparr>max_fd := m\<rparr>) = owes d s"
  "owes d (s\<lparr>read_set := S\<rparr>) = owes d s" "owes d (s\<lparr>write_set := S\<rparr>) = owes d s"
  "owes d (s\<lparr>read_ready := S\<rparr>) = owes d s" "owes d (s\<lparr>write_ready := S\<rparr>) = owes d s"
  by (simp_all add: owes_def)

lemma owes_trace:
  assumes "owes d s" "pays (st_trace s) t e" "f = d + e" "0 \<le> held_all w v (st_heap s) + f"
  shows "owes f (s\<lparr>st_trace := t\<rparr>)"
proof -
  have "0 \<le> balance w v (st_trace s)" "0 \<le> balance w v (st_trace s) + e"
    using assms(1,3,4) by (auto simp: owes_def covers_def)
  then show ?thesis using assms by (auto simp: owes_def pays_def elim: covers_add)
qed

lemma bal_trace: "bal s \<Longrightarrow> pays (st_trace s) t 0 \<Longrightarrow> bal (s\<lparr>st_trace := t\<rparr>)"
  by (rule owes_trace) (auto simp: owes_def)

lemma bal_fine: "owes d s \<Longrightarrow> get_conn c s = Some k \<Longrightarrow> fine k"
  by (auto simp: owes_def get_conn_def)

lemma pipe_ends_pos: "0 \<le> pipe_ends w g"
  using pipe_end_pos by (simp add: pipe_ends_def)

lemma held_pos: "fine k \<Longrightarrow> 0 \<le> held w v k"
  using weights pipe_end_pos by (simp add: held_def pipe_ends_def fine_def)

lemma held_le:
  assumes "owes d s" "get_conn c s = Some k"
  shows "held w v k \<le> held_all w v (st_heap s)"
proof -
  have f: "fine (the (st_heap s e))" if "e \<in> dom (st_heap s)" for e using that assms(1) by (auto simp: owes_def)
  have "0 \<le> (\<Sum>e \<in> dom (st_heap s) - {c}. held w v (the (st_heap s e)))"
    by (rule sum_nonneg) (use held_pos f in blast)
  then show ?thesis using held_all_remove [of "st_heap s" c k w v] assms by (simp add: owes_def get_conn_def)
qed

text \<open>A connection is rewritten.\<close>

lemma owes_put:
  assumes "owes d s" "get_conn c s = Some k" "fine k'" "f = d - (held w v k' - held w v k)"
  shows "owes f (put_conn c k' s)"
proof -
  have e: "balance w v (st_trace s) - held_all w v ((st_heap s)(c \<mapsto> k')) - f
      = balance w v (st_trace s) - held_all w v (st_heap s) - d"
    using assms held_all_upd [of "st_heap s" c k w v k'] by (simp add: owes_def get_conn_def)
  have "covers (balance w v (st_trace s) - held_all w v ((st_heap s)(c \<mapsto> k')) - f)"
    unfolding e using assms(1) by (simp add: owes_def)
  moreover have "0 \<le> held_all w v ((st_heap s)(c \<mapsto> k')) + f" using e assms(1) by (simp add: owes_def)
  ultimately show ?thesis
    using assms(1-3) by (auto simp: owes_def get_conn_def put_conn_def not_le [symmetric] split: if_splits)
qed

lemma bal_put:
  assumes "bal s" "get_conn c s = Some k" "fine k'" "pays (st_trace s) t (held w v k' - held w v k)"
  shows "bal (put_conn c k' (s\<lparr>st_trace := t\<rparr>))"
  by (rule owes_put [OF owes_trace [OF assms(1,4) refl], of c k])
    (use assms held_le [OF assms(1,2)] held_pos [OF assms(3)] in \<open>simp_all add: get_conn_def\<close>)

definition alike :: "conn_t \<Rightarrow> conn_t \<Rightarrow> bool" where
  "alike k k' \<longleftrightarrow> held w v k' = held w v k \<and> (fine k \<longrightarrow> fine k')"

lemma bal_keep:
  assumes "bal s" "get_conn c s = Some k" "alike k k'" "pays (st_trace s) t 0"
  shows "bal (put_conn c k' (s\<lparr>st_trace := t\<rparr>))"
  by (rule bal_put [OF assms(1,2)]) (use assms bal_fine in \<open>auto simp: alike_def\<close>)

lemma bal_same: "owes d s \<Longrightarrow> get_conn c s = Some k \<Longrightarrow> alike k k' \<Longrightarrow> owes d (put_conn c k' s)"
  by (rule owes_put) (auto simp: alike_def dest: bal_fine)

lemma alike_simps [simp]:
  "alike k k"
  "alike k (k'\<lparr>conn_buf := b\<rparr>) = alike k k'" "alike k (k'\<lparr>conn_req := r\<rparr>) = alike k k'"
  "alike k (k'\<lparr>conn_ssl := u\<rparr>) = alike k k'"
  "alike k (k'\<lparr>conn_ssl_accepted := u\<rparr>) = alike k k'" "alike k (k'\<lparr>conn_idx := i\<rparr>) = alike k k'"
  by (simp_all add: alike_def held_def fine_def unstarted_def)

lemma alike_cgi:
  "pipe_ends w g = pipe_ends w (conn_cgi k) \<Longrightarrow> cgi_phase g \<notin> {CGI_IDLE, CGI_READY} \<Longrightarrow> alike k (k\<lparr>conn_cgi := g\<rparr>)"
  by (simp add: alike_def held_def fine_def unstarted_def)

lemma alike_buf_phase [simp]: "alike k (k\<lparr>conn_cgi := (conn_cgi k)\<lparr>cgi_buf_phase := b\<rparr>\<rparr>)"
  by (simp add: alike_def held_def fine_def unstarted_def cgi_closed_def)

lemma alike_other:
  "conn_resp k' = conn_resp k \<Longrightarrow> conn_cgi k' = conn_cgi k \<Longrightarrow> conn_fd k' = conn_fd k \<Longrightarrow> alike k k'"
  by (simp add: alike_def held_def fine_def unstarted_def)

section \<open>Building a response\<close>

lemma file_mapped:
  assumes "os_stat os tr p = Some st" "lucky" "os_mmap os t fd (st_size st) = None"
  shows "w fd = 0"
proof -
  have "thrifty os \<longrightarrow> 0 < st_size st \<and> os_mmap os t fd (st_size st) \<noteq> None"
    using assms(1) unfolding thrifty_def by blast
  then show ?thesis using lucky_fds assms(2,3) by auto
qed

lemma pays_open: "os_open os tr p = Some fd \<Longrightarrow> pays tr (EvOpen p (Some fd) # tr) (w fd)"
  using tight_open by (simp add: pays_def)

lemma resp_mmap_pays:
  assumes "resp_mmap os resp path st tr = Some (rc, resp', st', t)" "resp_mmbuf resp = None" "os_ok os"
  shows "pays tr t (v * map_size (resp_mmbuf resp')) \<and> 0 \<le> map_size (resp_mmbuf resp')
    \<and> (rc < 0 \<longrightarrow> resp_mmbuf resp' = None)"
proof -
  obtain p where p: "cstr_at path 0 = Some p" using assms(1) by (auto simp: resp_mmap_def bind_eq_Some_conv)
  let ?t = "EvStat p # tr"
  have t: "pays tr ?t 0" by (rule pays_other) simp_all
  show ?thesis
  proof (cases "os_stat os tr p")
    case None
    then show ?thesis using assms p t by (auto simp: resp_mmap_def)
  next
    case (Some s)
    then have sz: "0 \<le> st_size s" using os_okD(8) [OF assms(3)] by simp
    consider "st_isdir s" | "\<not> st_isdir s" "os_open os ?t p = None"
      | fd where "\<not> st_isdir s" "os_open os ?t p = Some fd" by (cases "os_open os ?t p") auto
    then show ?thesis
    proof cases
      case 1
      then show ?thesis using assms p t Some by (auto simp: resp_mmap_def)
    next
      case 2
      have "pays tr (EvOpen p None # ?t) 0" by (rule pays_trans [OF t pays_other]) simp_all
      then show ?thesis using assms p 2 Some by (auto simp: resp_mmap_def)
    next
      case 3
      let ?o = "EvOpen p (Some fd) # ?t"
      have o: "pays tr ?o (w fd)" by (rule pays_trans [OF t pays_open [OF 3(2)]]) simp_all
      show ?thesis
      proof (cases "os_mmap os ?o fd (st_size s)")
        case None
        have "pays tr (EvMmap fd (st_size s) None # ?o) 0"
          by (rule pays_lose [OF o]) (use weights file_mapped [OF Some _ None] in simp_all)
        then show ?thesis using assms(1) p 3 Some None by (auto simp: resp_mmap_def Let_def mmbuf_new_def)
      next
        case m: (Some bs)
        have "pays tr (EvClose fd # EvMmap fd (st_size s) (Some bs) # ?o) (v * st_size s)"
          by (rule pays_trans [OF pays_trans [OF o pays_other [OF _ refl] _ refl] pays_close]) (use weights in simp_all)
        then show ?thesis
          using assms(1) p 3 Some m sz by (auto simp: resp_mmap_def Let_def mmbuf_new_def)
      qed
    qed
  qed
qed

lemma try_pages_pays:
  "try_pages os resp path n st pages tr = Some (ok, resp', path', st', t) \<Longrightarrow> resp_mmbuf resp = None \<Longrightarrow> os_ok os \<Longrightarrow>
    pays tr t (v * map_size (resp_mmbuf resp')) \<and> 0 \<le> map_size (resp_mmbuf resp')"
proof (induction pages arbitrary: resp path st tr)
  case (Cons pg pages)
  obtain p1 rc r1 s1 t1 where m: "resp_mmap os resp p1 st tr = Some (rc, r1, s1, t1)"
    and rest: "(if 0 \<le> rc then Some (True, r1, p1, s1, t1) else try_pages os r1 p1 n s1 pages t1)
      = Some (ok, resp', path', st', t)"
    using Cons.prems(1) by (auto simp: bind_eq_Some_conv)
  note mm = resp_mmap_pays [OF m Cons.prems(2,3)]
  show ?case
  proof (cases "0 \<le> rc")
    case False
    then have "pays tr t1 0" "resp_mmbuf r1 = None" using mm by auto
    moreover have "pays t1 t (v * map_size (resp_mmbuf resp')) \<and> 0 \<le> map_size (resp_mmbuf resp')"
      using Cons.IH [OF _ calculation(2) Cons.prems(3)] rest False by simp
    ultimately show ?thesis using pays_trans by fastforce
  qed (use mm rest in simp)
qed simp

lemma resp_build_pays:
  assumes "resp_build os resp req conf tr = Some (ok, resp', t)" "resp_mmbuf resp = None" "os_ok os"
  shows "pays tr t (v * map_size (resp_mmbuf resp')) \<and> 0 \<le> map_size (resp_mmbuf resp')"
proof -
  have "pays tr t (v * map_size (resp_mmbuf r)) \<and> 0 \<le> map_size (resp_mmbuf r)"
    if f: "find_file os (resp\<lparr>resp_alive := b\<rparr>) path tr = Some (m, r, p, st, t)" for b path m r p st t
  proof -
    obtain rc r1 s1 t1 where a: "resp_mmap os (resp\<lparr>resp_alive := b\<rparr>) path None tr = Some (rc, r1, s1, t1)"
      using f by (auto simp: find_file_def bind_eq_Some_conv)
    note mm = resp_mmap_pays [OF a _ assms(3)]
    show ?thesis
    proof (cases "0 \<le> rc")
      case False
      then have r1: "pays tr t1 0" "resp_mmbuf r1 = None" using mm assms(2) by auto
      obtain path' n where "try_pages os r1 path' n s1 default_pages t1 = Some (m, r, p, st, t)"
        using f a False by (auto simp: find_file_def bind_eq_Some_conv simp del: try_pages.simps split: if_splits)
      then have "pays t1 t (v * map_size (resp_mmbuf r)) \<and> 0 \<le> map_size (resp_mmbuf r)"
        using try_pages_pays r1(2) assms(3) by blast
      then show ?thesis using pays_trans [OF r1(1)] by fastforce
    qed (use f a mm assms(2) in \<open>auto simp: find_file_def bind_eq_Some_conv\<close>)
  qed
  then show ?thesis using assms(1,2) by (auto simp: resp_build_def bind_eq_Some_conv Let_def split: if_splits)
qed

end

end
