(* ===== verification/Account_Handlers.thy ===== *)
theory Account_Handlers
  imports Accounts
begin

text \<open>The ledger kept through the callbacks of the server and its handlers.\<close>

context ledger
begin

section \<open>Callbacks\<close>

abbreviation balS :: "(int \<times> server) option \<Rightarrow> bool" where
  "balS m \<equiv> post m (\<lambda>(_, s). bal s)"

lemma bal_bind:
  "balS m \<Longrightarrow> (\<And>a s. bal s \<Longrightarrow> post (f a s) Q) \<Longrightarrow> post (m \<bind> (\<lambda>(a, s). f a s)) Q"
  by (erule post_bindI) auto

lemma fd_sets_bal [simp]:
  "owes d s \<Longrightarrow> post (set_fd_read fd s) (owes d)" "owes d s \<Longrightarrow> post (clr_fd_read fd s) (owes d)"
  "owes d s \<Longrightarrow> post (set_fd_write fd s) (owes d)" "owes d s \<Longrightarrow> post (clr_fd_write fd s) (owes d)"
  by (auto simp: set_fd_read_def clr_fd_read_def set_fd_write_def clr_fd_write_def intro!: post_bind)

lemma conn_err_bal:
  assumes "bal s" "get_conn c s = Some k" "pays (st_trace s) t (held w v k' - held w v k)"
    and "unstarted k'" "0 \<le> map_size (resp_mmbuf (conn_resp k'))"
  shows "balS (liso_conn_err c st (put_conn c k' (s\<lparr>st_trace := t\<rparr>)))"
  unfolding liso_conn_err_def get_put Option.bind.bind_lunit Let_def put_put
  by (rule post_bindI [OF fd_sets_bal(3)], rule bal_put [OF assms(1,2)])
    (use assms(3-5) in \<open>simp_all add: held_def fine_def unstarted_def\<close>)

lemma conn_err_keep:
  assumes "bal s" "get_conn c s = Some k" "pays (st_trace s) t 0"
    and "held w v k' = held w v k" "unstarted k \<Longrightarrow> unstarted k'" "resp_mmbuf (conn_resp k') = resp_mmbuf (conn_resp k)"
  shows "balS (liso_conn_err c st (put_conn c k' (s\<lparr>st_trace := t\<rparr>)))"
  by (rule conn_err_bal [OF assms(1,2)]) (use assms bal_fine in \<open>auto simp: fine_def\<close>)

lemma conn_err_same:
  assumes "bal s" "get_conn c s = Some k" "pays (st_trace s) t 0"
  shows "balS (liso_conn_err c st (s\<lparr>st_trace := t\<rparr>))"
  using conn_err_keep [OF assms refl _ refl] assms(2) by (simp add: put_same)

lemma take_body_alike: "take_body k = Some k' \<Longrightarrow> alike k k'"
  by (rule alike_other) (auto simp: take_body_def Let_def bind_eq_Some_conv split: if_splits)

lemma enter_body_alike: "alike k (enter_body k)"
  by (simp add: enter_body_def alike_def held_def fine_def unstarted_def cgi_closed_def)

lemma body_step_alike:
  assumes "body_step k = Some k'"
  shows "alike k k'"
proof (cases "req_phase (conn_req k) = REQ_BODY")
  case True
  then obtain k1 where k1: "take_body (enter_body k) = Some k1" "k' = k1 \<or> k' = k1\<lparr>conn_buf := buf_reset (conn_buf k1)\<rparr>"
    using assms by (auto simp: body_step_def bind_eq_Some_conv)
  have "alike k k1" using enter_body_alike [of k] take_body_alike [OF k1(1)] by (simp add: alike_def)
  then show ?thesis using k1(2) by auto
qed (use assms in \<open>simp add: body_step_def\<close>)

lemma parse_req_bal:
  assumes "bal s"
  shows "balS (cn_parse_req liso_conn_err c e s)"
  unfolding cn_parse_req_def
proof (intro post_bind, clarify)
  fix k r k1
  assume k: "get_conn c s = Some k" and p: "parse_lines_of k e = Some (r, k1)"
  have r: "conn_resp k1 = conn_resp k \<and> conn_cgi k1 = conn_cgi k \<and> conn_fd k1 = conn_fd k"
    using p by (auto simp: parse_lines_of_def Let_def bind_eq_Some_conv split: if_splits)
  then have h: "alike k k1" "held w v k1 = held w v k" "unstarted k \<Longrightarrow> unstarted k1"
      "resp_mmbuf (conn_resp k1) = resp_mmbuf (conn_resp k)"
    by (simp_all add: alike_other held_def unstarted_def)
  have b: "alike k k2" if "body_step k1 = Some k2" for k2
    using body_step_alike [OF that] h(1) by (simp add: alike_def)
  show "balS (case r of Some status \<Rightarrow> liso_conn_err c status (put_conn c k1 s)
      | None \<Rightarrow> body_step k1 \<bind> (\<lambda>k. Some (1, put_conn c k s)))"
    using conn_err_keep [OF assms k pays_refl h(2-4)] bal_same [OF assms k b]
    by (auto split: option.split intro!: post_bind)
qed

lemma drop_pipe_bal:
  assumes "owes d s" "pipe_end w fd \<le> held_all w v (st_heap s) + d"
  shows "post (drop_pipe fd s) (\<lambda>(fd', s'). owes (d + (pipe_end w fd' - pipe_end w fd)) s' \<and> st_heap s' = st_heap s)"
proof -
  have "owes (d - pipe_end w fd) (s\<lparr>st_trace := EvClose fd # st_trace s\<rparr>)" if "0 \<le> fd"
    by (rule owes_trace [OF assms(1) pays_close]) (use that assms(2) in \<open>simp_all add: pipe_end_def\<close>)
  then have "owes (d - pipe_end w fd) (s\<lparr>read_set := S, st_trace := EvClose fd # st_trace s\<rparr>)" if "0 \<le> fd" for S
    using that by (simp add: owes_def)
  then show ?thesis
    using assms(1) by (auto simp: drop_pipe_def clr_fd_read_def Let_def close_pipe_def intro!: post_bind)
qed

text \<open>A connection whose pipes are closed: its socket is all the descriptors it holds.\<close>

definition spent :: "int \<Rightarrow> ptr \<Rightarrow> server \<Rightarrow> bool" where
  "spent fd c s \<longleftrightarrow> (\<exists>k. get_conn c s = Some k \<and> conn_fd k = fd \<and> cgi_closed (conn_cgi k))"

lemma pl_reset_spent:
  assumes "bal s" "get_conn c s = Some k"
  shows "post (pl_reset_conn c s) (\<lambda>(_, s'). bal s' \<and> spent (conn_fd k) c s')"
  unfolding pl_reset_conn_def assms(2) Option.bind.bind_lunit
proof (rule post_bind, rule post_bind, goal_cases)
  case (1 s1 s2)
  have s2: "bal s2" "get_conn c s2 = Some k"
    using 1 assms by (auto simp: set_fd_read_def clr_fd_write_def bind_eq_Some_conv get_conn_def)
  let ?g = "conn_cgi k" and ?h = "held_all w v (st_heap s2)"
  have mm: "0 \<le> v * map_size (resp_mmbuf (conn_resp k))"
    using bal_fine [OF assms] weights by (simp add: fine_def)
  have "pipe_ends w ?g + v * map_size (resp_mmbuf (conn_resp k)) \<le> held w v k" using weights by (simp add: held_def)
  then have le: "pipe_ends w ?g + v * map_size (resp_mmbuf (conn_resp k)) \<le> ?h" using held_le [OF s2] by simp
  have pipes: "pipe_end w (srv_in ?g) + pipe_end w (srv_err ?g) \<le> pipe_ends w ?g"
    using pipe_end_pos by (simp add: pipe_ends_def)
  have in_le: "pipe_end w (srv_in ?g) \<le> ?h + 0" using pipes le mm pipe_end_pos [of "srv_err ?g"] by simp
  show ?case
  proof (rule post_bindI [OF drop_pipe_bal [OF s2(1) in_le]], clarify)
    fix si s3
    assume s3: "owes (0 + (pipe_end w si - pipe_end w (srv_in ?g))) s3" "st_heap s3 = st_heap s2"
    have err_le: "pipe_end w (srv_err ?g) \<le> held_all w v (st_heap s3) + (0 + (pipe_end w si - pipe_end w (srv_in ?g)))"
      using pipes le mm pipe_end_pos [of si] s3(2) by simp
    show "post (do {
       (se, s) \<leftarrow> drop_pipe (srv_err ?g) s3;
       let (resp, tr) = resp_reset (conn_resp k) (st_trace s);
       let (cgi, tr) = cgi_reset (?g\<lparr>srv_in := si, srv_err := se\<rparr>) tr;
       Some (1, put_conn c
         (k\<lparr>conn_buf := buf_reset (conn_buf k), conn_req := req_reset (conn_req k), conn_resp := resp, conn_cgi := cgi\<rparr>)
         (s\<lparr>st_trace := tr\<rparr>)) }) (\<lambda>(_, s'). bal s' \<and> spent (conn_fd k) c s')"
    proof (rule post_bindI [OF drop_pipe_bal [OF s3(1) err_le]], clarify)
      fix se and s4 :: server
      assume s4: "owes (0 + (pipe_end w si - pipe_end w (srv_in ?g)) + (pipe_end w se - pipe_end w (srv_err ?g))) s4"
        "st_heap s4 = st_heap s3"
      have g4: "get_conn c s4 = Some k" using s2(2) s3(2) s4(2) by (simp add: get_conn_def)
      let ?t = "mmbuf_free (resp_mmbuf (conn_resp k)) (st_trace s4)"
      obtain g' t' where g': "cgi_reset (?g\<lparr>srv_in := si, srv_err := se\<rparr>) ?t = (g', t')" by fastforce
      note p = pays_cgi_reset [OF g']
      let ?k = "k\<lparr>conn_buf := buf_reset (conn_buf k), conn_req := req_reset (conn_req k),
        conn_resp := resp_clear (conn_resp k), conn_cgi := g'\<rparr>"
      have "pays (st_trace s4) t' (- (v * map_size (resp_mmbuf (conn_resp k))) - pipe_ends w (?g\<lparr>srv_in := si, srv_err := se\<rparr>))"
        by (rule pays_trans [OF pays_free conjunct1 [OF p]]) (simp_all only: neg_le_0_iff_le pipe_ends_pos simp_thms diff_conv_add_uminus)
      then have "bal (put_conn c ?k (s4\<lparr>st_trace := t'\<rparr>))"
        by (rule owes_put [OF owes_trace [OF s4(1) _ refl], of _ _ c k])
          (use g4 p le s3(2) s4(2) in \<open>simp_all add: get_conn_def fine_def unstarted_def resp_clear_def held_def pipe_ends_closed\<close>)
      moreover have "spent (conn_fd k) c (put_conn c ?k (s4\<lparr>st_trace := t'\<rparr>))" using p by (simp add: spent_def)
      ultimately show "post (let (resp, tr) = resp_reset (conn_resp k) (st_trace s4);
              (cgi, tr) = cgi_reset (?g\<lparr>srv_in := si, srv_err := se\<rparr>) tr
         in Some (1, put_conn c (k\<lparr>conn_buf := buf_reset (conn_buf k), conn_req := req_reset (conn_req k),
           conn_resp := resp, conn_cgi := cgi\<rparr>) (s4\<lparr>st_trace := tr\<rparr>))) (\<lambda>(_, s'). bal s' \<and> spent (conn_fd k) c s')"
        by (simp add: resp_reset_def g')
    qed
  qed
qed

lemma pl_reset_bal: "bal s \<Longrightarrow> balS (pl_reset_conn c s)"
  using pl_reset_spent [of s c]
  by (cases "get_conn c s") (auto simp: pl_reset_conn_def elim!: post_mono)

lemma cn_free_bal:
  assumes "owes d s" "\<And>k. get_conn c s = Some k \<Longrightarrow> d + w (conn_fd k) + pipe_ends w (conn_cgi k) = 0"
  shows "post (cn_free c s) bal"
  unfolding cn_free_def
proof (rule post_bind)
  fix k assume k: "get_conn c s = Some k"
  let ?s = "if conn_ssl k then log_ev (EvSslFree (conn_fd k)) s else s"
  let ?t = "mmbuf_free (resp_mmbuf (conn_resp k)) (st_trace ?s)"
  have le: "held w v k \<le> held_all w v (st_heap s)" by (rule held_le [OF assms(1) k])
  have free: "resp_free (conn_resp k) u = mmbuf_free (resp_mmbuf (conn_resp k)) u" for u
    by (simp add: resp_free_def mmbuf_free_def split: option.split)
  have "pays (st_trace s) (st_trace ?s) 0" by (simp add: log_ev_def)
  from pays_trans [OF this pays_free _ refl, of "resp_mmbuf (conn_resp k)"]
  have t: "owes (d - v * map_size (resp_mmbuf (conn_resp k))) (s\<lparr>st_trace := ?t\<rparr>)"
    by (rule owes_trace [OF assms(1)]) (use le assms(2) [OF k] in \<open>simp_all add: held_def\<close>)
  have e: "balance w v ?t - held_all w v ((st_heap s)(c := None)) - 0
      = balance w v ?t - held_all w v (st_heap s) - (d - v * map_size (resp_mmbuf (conn_resp k)))"
    using held_all_del [of "st_heap s" c k w v] k assms(1) assms(2) [OF k] by (simp add: get_conn_def owes_def held_def)
  have "covers (balance w v ?t - held_all w v ((st_heap s)(c := None)) - 0)"
    unfolding e using t by (simp add: owes_def)
  moreover have "held_all w v ((st_heap s)(c := None)) = held_all w v (st_heap s) - held w v k"
    by (rule held_all_del) (use assms(1) k in \<open>simp_all add: owes_def get_conn_def\<close>)
  ultimately have "bal (s\<lparr>st_trace := ?t, st_heap := (st_heap s)(c := None)\<rparr>)" using t le by (auto simp: owes_def)
  moreover have "?s\<lparr>st_trace := u, st_heap := h\<rparr> = s\<lparr>st_trace := u, st_heap := h\<rparr>"
      "st_heap (?s\<lparr>st_trace := u\<rparr>) = st_heap s" for u h by (simp_all add: log_ev_def)
  ultimately show "post (let s = ?s; s = s\<lparr>st_trace := resp_free (conn_resp k) (st_trace s)\<rparr>
      in Some (s\<lparr>st_heap := (st_heap s)(c := None)\<rparr>)) bal"
    unfolding Let_def free by (simp only: post_simps)
qed

lemma spent_free:
  "owes (- w fd) s \<Longrightarrow> spent fd c s \<Longrightarrow> post (cn_free c s) bal"
  by (rule cn_free_bal) (auto simp: spent_def pipe_ends_closed)

lemma load_piped_alike: "load_piped k = Some k' \<Longrightarrow> alike k k'"
  by (auto simp: load_piped_def Let_def bind_eq_Some_conv split: if_splits)

lemma spent_updates [simp]:
  "spent fd c (s\<lparr>n_conns := n\<rparr>) = spent fd c s" "spent fd c (s\<lparr>conns := l\<rparr>) = spent fd c s"
  "spent fd c (s\<lparr>read_set := S\<rparr>) = spent fd c s" "spent fd c (s\<lparr>st_trace := t\<rparr>) = spent fd c s"
  by (simp_all add: spent_def get_conn_def)

lemma spent_idx: "spent fd c s \<Longrightarrow> get_conn l s = Some k \<Longrightarrow> spent fd c (put_conn l (k\<lparr>conn_idx := i\<rparr>) s)"
  by (auto simp: spent_def get_conn_def put_conn_def split: if_splits)

lemma log_close_owes:
  "owes d s \<Longrightarrow> w fd \<le> held_all w v (st_heap s) + d \<Longrightarrow> owes (d - w fd) (log_ev (EvClose fd) s)"
  unfolding log_ev_def by (erule owes_trace [OF _ pays_close]) simp_all

lemma spent_close:
  assumes "bal s" "spent fd c s"
  shows "owes (- w fd) (log_ev (EvClose fd) s)"
proof -
  obtain k where k: "get_conn c s = Some k" "conn_fd k = fd" using assms(2) by (auto simp: spent_def)
  have "w fd \<le> held w v k"
    using bal_fine [OF assms(1) k(1)] weights k(2) pipe_ends_pos by (simp add: held_def fine_def)
  then show ?thesis using log_close_owes [OF assms(1), of fd] held_le [OF assms(1) k(1)] by simp
qed

lemma pl_del_bal:
  assumes "bal s"
  shows "balS (pl_del_conn c s)"
  unfolding pl_del_conn_def Let_def
proof (rule post_bind, rule post_if, goal_cases)
  case (2 k)
  let ?P = "\<lambda>s. owes (- w (conn_fd k)) s \<and> spent (conn_fd k) c s"
  have put: "post (conns_put i x s) ?P" if "?P s" for i x s
    using that by (auto simp: conns_put_def)
  show ?case
    apply (rule post_bindI [OF pl_reset_spent [OF assms 2(1)]], clarify)
    apply (rule post_bindI [of _ "\<lambda>s. bal s \<and> spent (conn_fd k) c s"])
     apply (auto simp: clr_fd_read_def intro!: post_bind) []
    apply (rule post_bind, rule post_bindI [OF put])
     apply (auto simp: log_ev_def dest: spent_close) []
    apply (rule post_bind, rule post_bindI [OF put], erule conjE, rule conjI, rule bal_same, assumption, assumption, simp,
        rule spent_idx, assumption, assumption)
    by (rule post_bindI [OF spent_free]) auto
qed (simp add: assms)

lemma drop_conn_bal: "bal s \<Longrightarrow> balS (liso_drop_conn c s)"
  unfolding liso_drop_conn_def by (rule post_bindI [OF pl_del_bal]) auto

lemma reset_or_close_bal:
  assumes "bal s"
  shows "balS (liso_reset_or_close c s)"
  unfolding liso_reset_or_close_def
proof (rule post_bind, rule post_if)
  show "balS (liso_drop_conn c s)" by (rule drop_conn_bal [OF assms])
next
  show "balS (do {
       (_, s) \<leftarrow> pl_reset_conn c s;
       k \<leftarrow> get_conn c s;
       if sz (req_last_buf (conn_req k)) \<noteq> 0 then do {
         k \<leftarrow> load_piped k;
         (_, s) \<leftarrow> cn_parse_req liso_conn_err c 0 (put_conn c k s);
         k \<leftarrow> get_conn c s;
         if req_phase (conn_req k) = REQ_DONE then do {
           s \<leftarrow> clr_fd_read (conn_fd k) s;
           s \<leftarrow> set_fd_write (conn_fd k) s;
           Some (1, s) }
         else Some (1, s) }
       else Some (1, s) })"
    apply (rule bal_bind [OF pl_reset_bal [OF assms]])
    apply (rule post_bind, rule post_if)
     apply (rule post_bind)
     apply (rule bal_bind [OF parse_req_bal], erule bal_same, assumption, erule load_piped_alike)
     apply (rule post_bind, rule post_if)
      apply (rule post_bindI [OF fd_sets_bal(2)], assumption)
      apply (rule post_bindI [OF fd_sets_bal(3)], assumption)
    by simp_all
qed

lemma cgi_inited_bal: "bal s \<Longrightarrow> balS (liso_cgi_inited c s)"
  unfolding liso_cgi_inited_def
  by (rule post_bind, rule post_bindI [OF fd_sets_bal(1)]) auto

section \<open>Handlers\<close>

lemma recv_ignore_bal:
  assumes "bal s"
  shows "balS (recv_ignore os liso_drop_conn c s)"
  unfolding recv_ignore_def smart_recv_def log_ev_trace Let_def prod.case
  using assms
  by (intro post_bind) (auto split: option.split intro!: drop_conn_bal bal_trace bal_keep post_bind)

lemma recv_bal:
  assumes "bal s"
  shows "balS (liso_recv os c s)"
  unfolding cn_recv_def
proof (rule post_bind)
  fix k assume k: "get_conn c s = Some k"
  have put: "bal (put_conn c k' (s\<lparr>st_trace := t\<rparr>))"
    if "alike k k'" "pays (st_trace s) t 0" for k' t
    by (rule bal_keep [OF assms k that])
  have full: "balS (liso_conn_err c 400 s \<bind> (\<lambda>(_, s). recv_ignore os liso_drop_conn c s))"
    by (rule bal_bind [OF conn_err_same [OF assms k, of "st_trace s", simplified]]) (rule recv_ignore_bal)
  have parse: "bal u" if "cn_parse_req liso_conn_err c e (put_conn c k' (s\<lparr>st_trace := t\<rparr>)) = Some (rc, u)"
    "alike k k'" "pays (st_trace s) t 0" for e k' t rc u
    using postD [OF parse_req_bal [OF put [OF that(2,3)]] that(1)] by simp
  show "balS (if conn_ssl k \<and> \<not> conn_ssl_accepted k then
       (let rc = os_ssl_accept os (st_trace s) (conn_fd k);
            s = log_ev (EvSslAccept (conn_fd k) rc) s in
        if rc = 0 then
          liso_drop_conn c (put_conn c (k\<lparr>conn_ssl := False\<rparr>) (log_ev (EvSslFree (conn_fd k)) s))
        else if rc < 0 then Some (1, s)
        else Some (1, put_conn c (k\<lparr>conn_ssl_accepted := True\<rparr>) s))
     else if req_phase (conn_req k) = REQ_ABORT then recv_ignore os liso_drop_conn c s
     else
       (let rsize = int BUFSZ - sz (conn_buf k) in
        if rsize \<le> 0 then do {
          (_, s) \<leftarrow> liso_conn_err c 400 s;
          recv_ignore os liso_drop_conn c s }
        else do {
          let last_recv_end = nat (buf_end (conn_buf k));
          let (r, s) = smart_recv os (conn_fd k) (nat rsize) s;
          (case r of
             None \<Rightarrow>
               liso_drop_conn c (put_conn c (k\<lparr>conn_req := (conn_req k)\<lparr>req_phase := REQ_ABORT\<rparr>\<rparr>) s)
           | Some bs \<Rightarrow> do {
               buf \<leftarrow> buf_write last_recv_end bs (conn_buf k);
               let k = k\<lparr>conn_buf := buf\<lparr>sz := sz buf + int (length bs)\<rparr>\<rparr>;
               if bs = [] then
                 liso_drop_conn c (put_conn c (k\<lparr>conn_req := (conn_req k)\<lparr>req_phase := REQ_ABORT\<rparr>\<rparr>) s)
               else do {
                 (_, s) \<leftarrow> cn_parse_req liso_conn_err c last_recv_end (put_conn c k s);
                 Some (1, s) } }) }))"
    unfolding smart_recv_def log_ev_trace Let_def prod.case put_trace
    apply (intro post_if full recv_ignore_bal assms drop_conn_bal)
    using assms bal_trace put
    by (auto split: option.split intro!: post_bind post_if drop_conn_bal elim!: parse)
qed

lemma prepare_bal:
  assumes "bal s" "get_conn c s = Some k" "resp_phase (conn_resp k) = RESP_READY" "os_ok os"
  shows "balS (liso_prepare_static_header os conf c s)"
  unfolding cn_prepare_static_header_def assms(2) Option.bind.bind_lunit
proof (rule post_bind, clarify)
  fix ok resp tr
  assume b: "resp_build os (conn_resp k) (conn_req k) conf (st_trace s) = Some (ok, resp, tr)"
  have f: "resp_mmbuf (conn_resp k) = None" "unstarted k"
    using bal_fine [OF assms(1,2)] assms(3) by (simp_all add: fine_def)
  then have m: "pays (st_trace s) tr (held w v (k\<lparr>conn_resp := resp\<rparr>) - held w v k)" and sz: "0 \<le> map_size (resp_mmbuf resp)"
    using resp_build_pays [OF b _ assms(4)] by (simp_all add: held_def)
  have p: "bal (put_conn c (k\<lparr>conn_resp := resp\<lparr>resp_phase := RESP_HEADER\<rparr>, conn_buf := bf\<rparr>) (s\<lparr>st_trace := tr\<rparr>))" for bf
    by (rule bal_put [OF assms(1,2)]) (use m f sz in \<open>simp_all add: fine_def unstarted_def held_def\<close>)
  have e: "unstarted (k\<lparr>conn_resp := resp\<rparr>)" using f(2) by (simp add: unstarted_def)
  show "balS (let s = s\<lparr>st_trace := tr\<rparr>; k = k\<lparr>conn_resp := resp\<rparr>
        in if \<not> ok then liso_conn_err c (resp_status resp) (put_conn c k s)
           else let resp = resp\<lparr>resp_phase := RESP_HEADER\<rparr>; buf = buf_reset (conn_buf k)
             in resp_hdr os resp (data buf) (st_trace s) \<bind>
               (\<lambda>(n, m). Some (1, put_conn c (k\<lparr>conn_resp := resp, conn_buf := buf\<lparr>data := m, sz := n\<rparr>\<rparr>) s)))"
    unfolding Let_def using p conn_err_bal [OF assms(1,2) m e] sz by (auto intro!: post_bind)
qed

lemma error_page_map: "error_page os k tr = Some k' \<Longrightarrow> alike k k'"
  by (auto simp: error_page_def Let_def bind_eq_Some_conv alike_def held_def fine_def unstarted_def)

lemma send_error_page_bal:
  assumes "bal s"
  shows "balS (cn_send_error_page os liso_reset_or_close liso_drop_conn c s)"
  unfolding cn_send_error_page_def smart_send_def log_ev_trace Let_def prod.case
proof (rule post_bind, rule post_bind, rule post_bind, goal_cases)
  case (1 k k' bs)
  have put: "bal (put_conn c k'' (s\<lparr>st_trace := t\<rparr>))" if "alike k' k''" "pays (st_trace s) t 0" for k'' t
    using bal_keep [OF assms 1(1) _ that(2)] error_page_map [OF 1(2)] that(1) by (simp add: alike_def)
  show ?case by (intro post_if drop_conn_bal reset_or_close_bal put) (simp_all add: put)
qed

lemma serve_static_bal:
  assumes "bal s"
  shows "balS (liso_serve_static os c s)"
proof -
  have hdr: "balS (cn_serve_header os liso_reset_or_close liso_drop_conn c k s)" if k: "get_conn c s = Some k" for k
  proof -
    have put: "bal (put_conn c (k\<lparr>conn_buf := b, conn_resp := (if x then (conn_resp k)\<lparr>resp_phase := RESP_BODY\<rparr> else conn_resp k)\<rparr>)
        (s\<lparr>st_trace := EvSend fd bs n # st_trace s\<rparr>))" for b x fd bs n
      by (rule bal_keep [OF assms k]) (simp_all add: alike_def held_def fine_def unstarted_def)
    show ?thesis
      unfolding cn_serve_header_def smart_send_def log_ev_trace Let_def prod.case
      by (rule post_bind, rule post_if, rule drop_conn_bal, rule bal_trace [OF assms], simp, rule post_bind, rule post_if,
          rule reset_or_close_bal, rule put, simp only: post_simps prod.case, rule put)
  qed
  have body: "balS (cn_serve_body os liso_reset_or_close liso_drop_conn c k s)"
    if k: "get_conn c s = Some k" "resp_phase (conn_resp k) = RESP_BODY" for k
  proof -
    have put: "bal (put_conn c (k\<lparr>conn_resp := (conn_resp k)\<lparr>resp_mmbuf := Some (mm\<lparr>data_p := n\<rparr>)\<rparr>\<rparr>)
        (s\<lparr>st_trace := EvSend fd bs r # st_trace s\<rparr>))" if "resp_mmbuf (conn_resp k) = Some mm" for mm n fd bs r
      by (rule bal_keep [OF assms k(1)]) (use that k(2) in \<open>simp_all add: alike_def held_def fine_def unstarted_def\<close>)
    show ?thesis
      unfolding cn_serve_body_def smart_send_def log_ev_trace Let_def prod.case
      by (rule post_bind, rule post_bind, rule post_if, rule drop_conn_bal, rule bal_trace [OF assms], simp, rule post_if,
          rule reset_or_close_bal, rule put, assumption, simp only: post_simps prod.case, rule put)
  qed
  show ?thesis
    unfolding cn_serve_static_def
    using hdr body send_error_page_bal [OF assms] assms by (auto intro!: post_bind split: resp_phase_t.split)
qed

lemma serve_dynamic_bal:
  assumes "bal s"
  shows "balS (liso_serve_dynamic os c s)"
  unfolding cn_serve_dynamic_def smart_send_def log_ev_trace Let_def prod.case
  by (rule post_bind, rule post_if, rule reset_or_close_bal [OF assms], rule post_bind, rule post_if, rule drop_conn_bal,
      rule bal_trace [OF assms]) (auto intro!: bal_keep [OF assms])

lemma init_cgi_bal:
  assumes "bal s" "get_conn c s = Some k" "cgi_phase (conn_cgi k) = CGI_READY"
  shows "balS (liso_init_cgi os c s)"
proof -
  obtain b g tr where g: "cgi_init os (conn_cgi k) (st_trace s) = (b, g, tr)" by (metis prod_cases3)
  have c: "cgi_closed (conn_cgi k)" "fine k"
    using bal_fine [OF assms(1,2)] assms(3) by (simp_all add: fine_def unstarted_def)
  have p: "pays (st_trace s) tr (held w v (k\<lparr>conn_cgi := g\<lparr>cgi_phase := ph\<rparr>, conn_resp := (conn_resp k)\<lparr>resp_phase := q\<rparr>\<rparr>)
      - held w v k)" for ph q
    using pays_cgi_init [OF g c(1)] pipe_ends_closed [OF c(1)] by (simp add: held_def)
  have "bal (put_conn c (k\<lparr>conn_cgi := g\<lparr>cgi_phase := CGI_SRV_TO_CGI\<rparr>\<rparr>) (s\<lparr>st_trace := tr\<rparr>))"
    by (rule bal_put [OF assms(1,2)]) (use c p in \<open>simp_all add: fine_def unstarted_def held_def\<close>)
  moreover have "balS (liso_conn_err c 500 (put_conn c (k\<lparr>conn_cgi := g\<lparr>cgi_phase := CGI_ABORT\<rparr>,
      conn_resp := (conn_resp k)\<lparr>resp_phase := RESP_ABORT\<rparr>\<rparr>) (s\<lparr>st_trace := tr\<rparr>)))"
    by (rule conn_err_bal [OF assms(1,2) p]) (use c in \<open>simp_all add: fine_def unstarted_def\<close>)
  ultimately show ?thesis
    unfolding cn_init_cgi_def assms(2) Option.bind.bind_lunit g by (simp add: Let_def cgi_inited_bal)
qed

lemma write_loop_pays: "write_loop o' fd buf n tr = Some (b, t) \<Longrightarrow> pays tr t 0"
proof (induction o' fd buf n tr rule: write_loop.induct)
  case (1 o' fd buf n tr)
  have step: "pays tr t 0" if "pays (EvWrite fd bs r # tr) t 0" for bs r
    by (rule pays_trans [OF pays_skip [OF pays_refl] that]) simp_all
  show ?case
    using "1.IH" "1.prems" [unfolded write_loop.simps [of o' fd buf n tr]]
    by (auto simp: Let_def split: if_splits option.splits intro: step)
qed

lemma stream_to_cgi_bal:
  assumes "bal s"
  shows "balS (liso_stream_to_cgi os c s)"
  unfolding cn_stream_to_cgi_def Let_def
proof (rule post_bind, rule post_bind, clarify)
  fix k ok tr
  assume k: "get_conn c s = Some k"
    and "write_loop os (srv_out (conn_cgi k)) (conn_buf k) (buf_rsize (conn_buf k)) (st_trace s) = Some (ok, tr)"
  then have m: "pays (st_trace s) tr 0" by (simp add: write_loop_pays)
  show "balS (if \<not> ok then liso_conn_err c 500 (s\<lparr>st_trace := tr\<rparr>)
      else Some (1, put_conn c (k\<lparr>conn_buf := buf_reset (conn_buf k)\<rparr>) (s\<lparr>st_trace := tr\<rparr>)))"
    using conn_err_same [OF assms k m] bal_keep [OF assms k _ m] by simp
qed

lemma stream_from_cgi_bal:
  assumes "bal s" "get_conn c s = Some k" "cgi_phase (conn_cgi k) = CGI_CGI_TO_SRV"
  shows "balS (liso_stream_from_cgi os c s)"
proof -
  have "balS (liso_conn_err c 500 (put_conn c (k\<lparr>conn_buf := b, conn_cgi := (conn_cgi k)\<lparr>cgi_phase := CGI_ABORT\<rparr>\<rparr>)
      (s\<lparr>st_trace := EvRead fd n r # st_trace s\<rparr>)))"
    for b fd n r by (rule conn_err_keep [OF assms(1,2)]) (simp_all add: held_def unstarted_def)
  moreover have "bal (put_conn c (k\<lparr>conn_buf := b, conn_cgi := (conn_cgi k)\<lparr>cgi_buf_phase := BUF_SEND, cgi_phase := p\<rparr>\<rparr>)
      (s\<lparr>st_trace := EvRead fd n r # st_trace s\<rparr>))" if "p = CGI_DONE \<or> p = CGI_CGI_TO_SRV" for b p fd n r
    by (rule bal_keep [OF assms(1,2)]) (use that in \<open>auto simp: alike_def held_def fine_def unstarted_def\<close>)
  ultimately show ?thesis
    unfolding cn_stream_from_cgi_def log_ev_trace Let_def assms(2,3) Option.bind.bind_lunit
    by (auto split: option.split intro!: post_bind)
qed

end

end
