(* ===== verification/Account_Run.thy ===== *)
theory Account_Run
  imports Account_Handlers
begin

text \<open>The ledger kept through a turn of the loop, a run of the server and its tear-down.\<close>

context ledger
begin

section \<open>A turn\<close>

lemma set_cgi_bal:
  assumes "owes d s" "\<And>k. get_conn c s = Some k \<Longrightarrow> fine k \<Longrightarrow>
    unstarted (k\<lparr>conn_cgi := f (conn_cgi k)\<rparr>) \<and> e = d - (pipe_ends w (f (conn_cgi k)) - pipe_ends w (conn_cgi k))"
  shows "post (set_cgi c f s) (owes e)"
  unfolding set_cgi_def
proof (rule post_bind)
  fix k assume k: "get_conn c s = Some k"
  have f: "fine k" by (rule bal_fine [OF assms(1) k])
  show "post (Some (put_conn c (k\<lparr>conn_cgi := f (conn_cgi k)\<rparr>) s)) (owes e)"
    using owes_put [OF assms(1) k, of "k\<lparr>conn_cgi := f (conn_cgi k)\<rparr>" e] assms(2) [OF k f] f
    by (simp add: fine_def held_def)
qed

lemma sv_recv_bal: "bal s \<Longrightarrow> post (sv_recv os c s) (\<lambda>(_, s'). bal s')"
  unfolding sv_recv_def
  by (rule post_bind, rule post_bind, rule post_if, rule bal_bind [OF recv_bal]) simp_all

lemma sv_logerr_bal: "bal s \<Longrightarrow> post (sv_logerr os c s) bal"
  unfolding sv_logerr_def
  by (rule post_bind, rule post_if, rule post_bind, rule post_if, rule post_bind)
    (auto simp: cgi_logerr_def Let_def bind_eq_Some_conv intro!: bal_trace split: option.splits)

lemma sv_prepare_bal: "bal s \<Longrightarrow> os_ok os \<Longrightarrow> post (sv_prepare os conf c s) bal"
  unfolding sv_prepare_def
  by (rule post_bind, rule post_if, rule bal_bind [OF prepare_bal]) auto

lemma sv_init_cgi_bal: "bal s \<Longrightarrow> post (sv_init_cgi os c s) bal"
  unfolding sv_init_cgi_def
  by (rule post_bind, rule post_if, rule bal_bind [OF init_cgi_bal]) auto

lemma sv_select_sets_bal: "bal s \<Longrightarrow> post (sv_select_sets c s) bal"
  unfolding sv_select_sets_def
  by (rule post_bind, rule post_if, rule post_bindI [OF fd_sets_bal(2)]) (auto intro: fd_sets_bal(3))

text \<open>A pipe end is closed and forgotten.\<close>

lemma set_cgi_close_bal:
  assumes "bal s" "get_conn c s = Some k"
  shows "post (set_cgi c (\<lambda>g. g\<lparr>srv_out := fst (close_pipe (srv_out (conn_cgi k)) (st_trace s))\<rparr>)
      (s\<lparr>st_trace := snd (close_pipe (srv_out (conn_cgi k)) (st_trace s))\<rparr>)) bal"
    and "post (set_cgi c (\<lambda>g. g\<lparr>srv_in := fst (close_pipe (srv_in (conn_cgi k)) (st_trace s))\<rparr>)
      (s\<lparr>st_trace := snd (close_pipe (srv_in (conn_cgi k)) (st_trace s))\<rparr>)) bal"
proof -
  have p: "pipe_end w (srv_out (conn_cgi k)) \<le> held w v k" "pipe_end w (srv_in (conn_cgi k)) \<le> held w v k"
    using bal_fine [OF assms] weights pipe_end_pos by (simp_all add: held_def pipe_ends_def fine_def add_increasing)
  have k: "get_conn c (s\<lparr>st_trace := t\<rparr>) = Some k" for t using assms(2) by (simp add: get_conn_def)
  note le = p [THEN order_trans, OF held_le [OF assms]]
  show "post (set_cgi c (\<lambda>g. g\<lparr>srv_out := fst (close_pipe (srv_out (conn_cgi k)) (st_trace s))\<rparr>)
      (s\<lparr>st_trace := snd (close_pipe (srv_out (conn_cgi k)) (st_trace s))\<rparr>)) bal"
    by (rule set_cgi_bal [OF owes_trace [OF assms(1) pays_close_pipe refl]])
      (use le k in \<open>auto simp: fine_def unstarted_def cgi_closed_def\<close>)
  show "post (set_cgi c (\<lambda>g. g\<lparr>srv_in := fst (close_pipe (srv_in (conn_cgi k)) (st_trace s))\<rparr>)
      (s\<lparr>st_trace := snd (close_pipe (srv_in (conn_cgi k)) (st_trace s))\<rparr>)) bal"
    by (rule set_cgi_bal [OF owes_trace [OF assms(1) pays_close_pipe refl]])
      (use le k in \<open>auto simp: fine_def unstarted_def cgi_closed_def\<close>)
qed

lemma sv_to_cgi_bal: "bal s \<Longrightarrow> post (sv_to_cgi os c s) bal"
  unfolding sv_to_cgi_def Let_def case_prod_beta
  apply (rule post_bind, rule post_if)
   apply (rule bal_bind [OF stream_to_cgi_bal, unfolded case_prod_beta], assumption)
   apply (rule post_bind, rule post_if)
    apply (rule post_bindI [OF set_cgi_close_bal(1)], assumption, assumption)
    apply (rule post_bindI [OF fd_sets_bal(1)], assumption)
    apply (erule set_cgi_bal)
  by (simp_all add: unstarted_def)

lemma fd_sets_keep:
  assumes "bal s" "get_conn c s = r"
  shows "post (set_fd_write fd s) (\<lambda>s. bal s \<and> get_conn c s = r)" "post (clr_fd_read fd s) (\<lambda>s. bal s \<and> get_conn c s = r)"
  using assms by (auto simp: set_fd_write_def clr_fd_read_def get_conn_def intro!: post_bind)

lemma sv_from_cgi_bal: "bal s \<Longrightarrow> post (sv_from_cgi os c s) bal"
  unfolding sv_from_cgi_def Let_def case_prod_beta
proof (rule post_bind, rule post_bind, rule post_if, goal_cases)
  case (1 k r)
  show ?case
  proof (rule bal_bind [OF stream_from_cgi_bal [OF 1(1,2)], unfolded case_prod_beta], use 1 in simp, rule post_bind, goal_cases)
    case (1 a s k)
    show ?case
      by (rule post_bindI [of _ "\<lambda>s'. bal s' \<and> get_conn c s' = Some k"], rule post_if, rule fd_sets_keep(1))
        (use 1 in \<open>auto intro!: post_if post_bindI [OF fd_sets_keep(2)] set_cgi_close_bal(2)\<close>)
  qed
qed simp

lemma sv_send_dynamic_bal: "bal s \<Longrightarrow> post (sv_send_dynamic os c s) (\<lambda>(_, s'). bal s')"
  unfolding sv_send_dynamic_def
  apply (rule post_bind, rule post_bind, rule post_if)
   apply (rule bal_bind [OF serve_dynamic_bal], assumption)
   apply (rule post_if, simp, rule post_bind, rule post_if, rule post_bindI [OF fd_sets_bal(4)])
  by simp_all

lemma sv_dynamic_bal: "bal s \<Longrightarrow> post (sv_dynamic os c s) (\<lambda>(_, s'). bal s')"
  unfolding sv_dynamic_def
  by (rule post_bind, rule post_if, rule post_bindI [OF sv_from_cgi_bal]) (simp_all add: sv_send_dynamic_bal)

lemma sv_static_bal: "bal s \<Longrightarrow> post (sv_static os c s) (\<lambda>(_, s'). bal s')"
  unfolding sv_static_def
  by (rule post_bind, rule post_bind, rule post_if, rule bal_bind [OF serve_static_bal]) simp_all

lemma serve_conn_bal:
  assumes "bal s" "os_ok os"
  shows "post (serve_conn os conf c s) (\<lambda>(_, s'). bal s')"
  unfolding serve_conn_def case_prod_beta
  apply (rule post_bindI [OF sv_recv_bal [OF assms(1), unfolded case_prod_beta]])
  apply (rule post_if, simp)
  apply (rule post_bindI [OF sv_logerr_bal], assumption)
  apply (rule post_bindI [OF sv_prepare_bal [OF _ assms(2)]], assumption)
  apply (rule post_bindI [OF sv_init_cgi_bal], assumption)
  apply (rule post_bindI [OF sv_select_sets_bal], assumption)
  apply (rule post_bindI [OF sv_to_cgi_bal], assumption)
  apply (rule post_bindI [OF sv_dynamic_bal [unfolded case_prod_beta]], assumption)
  apply (rule post_if, simp, rule sv_static_bal [unfolded case_prod_beta], assumption)
  done

lemma serve_loop_bal:
  "serve_loop fuel o' conf i m s = Some (Some (m', s')) \<Longrightarrow> o' = os \<Longrightarrow> bal s \<Longrightarrow> os_ok os \<Longrightarrow> bal s'"
proof (induction fuel o' conf i m s rule: serve_loop.induct)
  case (1 fuel o' conf i m s)
  show ?case
  proof (cases "i < n_conns s")
    case True
    then obtain f c alive s1 where f: "fuel = Suc f" and c: "conns_get i s = Some c"
      and s1: "serve_conn o' conf c s = Some (alive, s1)"
      and rest: "(if \<not> alive then serve_loop f o' conf i m s1
        else (case get_conn c s1 of None \<Rightarrow> Some None
          | Some k \<Rightarrow> serve_loop f o' conf (Suc i) (conn_max_fd k m) s1)) = Some (Some (m', s'))"
      using "1.prems"(1) by (subst (asm) serve_loop.simps)
        (auto simp: bind_eq_Some_conv split: nat.splits option.splits bind_splits)
    have b: "bal s1" using postD [OF serve_conn_bal [OF "1.prems"(3,4)] s1 [unfolded "1.prems"(2)]] by simp
    have e: "do { c \<leftarrow> conns_get i s; r \<leftarrow> serve_conn o' conf c s; Some (c, r) } = Some (c, alive, s1)"
      using c s1 by simp
    show ?thesis
    proof (cases alive)
      case False
      then show ?thesis using "1.IH"(1) [OF True f e refl refl] rest b "1.prems"(2,4) by simp
    next
      case a: True
      then obtain k where k: "get_conn c s1 = Some k" using rest by (auto split: option.splits)
      show ?thesis using "1.IH"(2) [OF True f e refl refl] a k rest b "1.prems"(2,4) by simp
    qed
  next
    case False
    then show ?thesis using "1.prems" by (subst (asm) serve_loop.simps) simp
  qed
qed

section \<open>The run\<close>

lemma alloc_bal:
  assumes "owes (held w v k) s" "fine k"
  shows "bal (snd (alloc_conn k s))"
proof -
  have n: "st_heap s (sv_next s) = None" "finite (dom (st_heap s))" using assms(1) by (simp_all add: owes_def)
  have e: "balance w v (st_trace s) - held_all w v ((st_heap s)(sv_next s \<mapsto> k)) - 0
      = balance w v (st_trace s) - held_all w v (st_heap s) - held w v k"
    and new: "held_all w v ((st_heap s)(sv_next s \<mapsto> k)) = held_all w v (st_heap s) + held w v k"
    using held_all_new [OF n(2,1), of w v k] by simp_all
  have "covers (balance w v (st_trace s) - held_all w v ((st_heap s)(sv_next s \<mapsto> k)) - 0)"
    unfolding e using assms(1) by (simp add: owes_def)
  moreover have "0 \<le> held_all w v ((st_heap s)(sv_next s \<mapsto> k))" using assms(1) new by (simp add: owes_def)
  ultimately show ?thesis using assms by (auto simp: owes_def alloc_conn_def put_conn_def Let_def)
qed

lemma init_ssl_bal: "bal s \<Longrightarrow> balS (cn_init_ssl os c s)"
  unfolding cn_init_ssl_def log_ev_trace Let_def
  by (rule post_bind, rule post_if) (auto intro: bal_keep)

lemma conns_put_bal: "bal s \<Longrightarrow> post (conns_put i x s) bal"
  by (simp add: conns_put_def)

lemma pl_add_bal: "bal s \<Longrightarrow> balS (pl_add_conn c s)"
  unfolding pl_add_conn_def Let_def
  apply (rule post_if, simp, rule post_bind)
  apply (rule post_bind, rule post_bindI [OF conns_put_bal])
   apply (rule bal_same)
  by (auto simp: set_fd_read_def bind_eq_Some_conv get_conn_def)

lemma init_ssl_spent:
  "bal s \<and> spent fd c s \<Longrightarrow> post (cn_init_ssl os c s) (\<lambda>(_, s). bal s \<and> spent fd c s)"
  unfolding cn_init_ssl_def log_ev_trace Let_def
  by (rule post_bind, rule post_if) (auto simp: spent_def intro!: bal_keep)

lemma close_free:
  assumes "bal s" "spent fd c s"
  shows "post (cn_free c (log_ev (EvClose fd) s)) bal"
  by (rule spent_free [OF spent_close [OF assms]]) (use assms(2) in \<open>simp add: log_ev_def\<close>)

lemma accept_bal:
  assumes "bal s"
  shows "post (liso_accept_conn os conf sock ctx s) (\<lambda>(_, s'). bal s')"
proof (cases "os_accept os (st_trace s) sock")
  case None
  have "bal (log_ev (EvAccept sock None) s)" using assms by (auto simp: log_ev_def intro: bal_trace)
  then show ?thesis by (simp add: liso_accept_conn_def None)
next
  case (Some a)
  obtain fd ad where a: "a = (fd, ad)" by fastforce
  let ?s = "log_ev (EvAccept sock (Some fd)) s"
  have s: "owes (w fd) ?s"
    unfolding log_ev_def
    by (rule owes_trace [OF assms]) (use tight_accept Some a assms weights in \<open>auto simp: pays_def owes_def add_increasing\<close>)
  then have close: "bal (log_ev (EvClose fd) ?s)" using log_close_owes [OF s, of fd] assms by (simp add: owes_def log_ev_def)
  let ?k = "\<lambda>q. (cn_new fd (int (n_conns ?s)))\<lparr>conn_req := q\<rparr>"
  have new: "bal (snd (alloc_conn (?k q) ?s)) \<and> spent fd (fst (alloc_conn (?k q) ?s)) (snd (alloc_conn (?k q) ?s))" for q
  proof -
    have k: "cgi_closed (conn_cgi (?k q))" "conn_fd (?k q) = fd" "resp_mmbuf (conn_resp (?k q)) = None"
      by (simp_all add: cn_new_def cgi_new_def cgi_reset_def close_pipe_def cgi_closed_def resp_new_def resp_clear_def)
    have "bal (snd (alloc_conn (?k q) ?s))"
      by (rule alloc_bal) (use s k in \<open>simp_all add: held_def fine_def unstarted_def pipe_ends_closed\<close>)
    then show ?thesis using k by (simp add: spent_def alloc_conn_def)
  qed
  show ?thesis
    unfolding liso_accept_conn_def Let_def Some a option.case prod.case option.map fst_conv
    apply (rule post_if, simp add: close, rule post_if, simp add: close)
    apply (rule post_bind, unfold case_prod_beta)
    apply (rule post_bindI [of _ "\<lambda>x. bal (snd x) \<and> spent fd (fst (alloc_conn (?k q) ?s)) (snd x)" for q])
     apply (rule post_if, rule init_ssl_spent [unfolded case_prod_beta], rule new)
     apply (simp only: post_simps prod.sel, rule new)
    apply (rule post_if)
     apply (rule post_bindI [OF close_free [of _ fd]], simp, simp, simp)
    apply (rule bal_bind [OF pl_add_bal, unfolded case_prod_beta])
    by auto
qed

lemma accept_ready_bal: "bal s \<Longrightarrow> post (accept_ready os conf sock ctx s) bal"
  unfolding accept_ready_def
  by (rule post_bind, rule post_if, rule post_bindI [OF accept_bal]) auto

lemma serve_all_bal:
  assumes "bal s" "os_ok os"
  shows "post (serve_all os conf s) bal"
  using serve_loop_bal [OF _ refl assms]
  by (auto simp: serve_all_def split: option.split prod.split)

lemma select_turn_bal:
  assumes "bal s" "os_ok os"
  shows "post (select_turn os conf sock ssl s) bal"
proof -
  have r: "bal (log_ev (EvSelect n r) (pl_ready s))" for n r
    using assms(1) by (auto simp: log_ev_def pl_ready_def intro!: bal_trace)
  show ?thesis
    unfolding select_turn_def Let_def
    apply (split option.split, intro conjI allI impI, simp add: r)
    apply (split prod.split, intro allI impI)
    apply (rule post_bindI [OF accept_ready_bal], simp add: r)
    apply (rule post_bindI [OF accept_ready_bal], assumption)
    by (rule serve_all_bal [OF _ assms(2)])
qed

definition balp :: "proc \<Rightarrow> bool" where
  "balp p \<longleftrightarrow> (\<forall>s. pr_pool p = Some s \<longrightarrow> bal s)"

lemma reach_bal:
  assumes "argv_ok argv" "sys_ok sys" "os_ok os" "tight []"
  shows "lisod_reach os sys argv conf x \<Longrightarrow> \<forall>p. x = Running p \<longrightarrow> balp p"
proof (induction rule: lisod_reach.induct)
  case (started p)
  then obtain s where "pr_pool p = Some s" "st_heap s = Map.empty" "st_trace s = []"
    using lisod_start_ok [OF assms(1,2)] by (auto simp: starts_def)
  then show ?case using assms(4) by (simp add: balp_def owes_def held_all_def)
next
  case (stepped x y)
  have "balp q" if y: "y = Running q" for q
  proof (cases x)
    case (Running p)
    with stepped have p: "lisod_step os sys conf (Running p) (Running q)" "balp p" using y by simp_all
    from p(1) show ?thesis
    proof (rule lisod_stepE)
      fix s s' assume "pr_pool p = Some s" "select_turn os conf (pr_sock p) (pr_ssl_sock p) s = Some s'"
        "Running q = Running (p\<lparr>pr_pool := Some s'\<rparr>)"
      then show ?thesis using postD [OF select_turn_bal [OF _ assms(3)]] p(2) by (auto simp: balp_def)
    next
      fix sig p' assume "signal_handler sys sig p = Some (Inr ((), p'))" "Running q = Running p'"
      then show ?thesis using p(2) handler_frame by (auto simp: balp_def same_globals_def)
    qed simp
  next
    case (Stopped rc p)
    then show ?thesis using stepped.hyps(2) by simp
  qed
  then show ?case by blast
qed

text \<open>Tear-down gives the mappings back; it does not close the descriptors of the connections.\<close>

lemma free_all_bal:
  assumes "\<And>fd. w fd = 0"
  shows "bal s \<Longrightarrow> post (free_all i n s) bal"
proof (induction n arbitrary: i s)
  case (Suc n)
  show ?case
    unfolding free_all.simps
    by (rule post_bind, rule post_bindI [OF cn_free_bal [OF Suc.prems]],
        simp add: assms pipe_ends_def pipe_end_def, erule Suc.IH)
qed simp

lemma teardown_bal:
  assumes "\<And>fd. w fd = 0" "balp p" "teardown sys rc p = Some (rc', p')"
  shows "balp p'"
proof -
  define p1 where "p1 = pc_when (pr_ctx p) PcCtxFree (release_lock
    (pc_when (0 < pr_ssl_sock p) (PcClose (pr_ssl_sock p)) (pc_when (0 < pr_sock p) (PcClose (pr_sock p))
    (pc_when (0 < pr_ssl_sock p) (PcSetsockopt (pr_ssl_sock p))
    (pc_when (0 < pr_sock p) (PcSetsockopt (pr_sock p)) p)))))"
  have "pr_pool (pc_when b c q) = pr_pool q" "pr_pool (release_lock q) = pr_pool q" for b c q
    by (simp_all add: pc_when_def release_lock_def Let_def)
  then have p1: "balp p1" using assms(2) by (simp add: balp_def p1_def)
  have td: "teardown sys rc p = free_pool p1 \<bind> (\<lambda>p.
      (if log_inited (pr_log p) then do {
          l \<leftarrow> log_line (sy_log sys) ''-------- Liso Server stops --------'' [] (pr_log p);
          Some (p\<lparr>pr_log := log_stop l\<rparr>) }
        else Some p) \<bind> (\<lambda>p. Some (exit_with rc p)))"
    by (simp add: teardown_def p1_def Let_def release_lock_def)
  obtain q where q: "free_pool p1 = Some q" "pr_pool p' = pr_pool q"
    using assms(3) [unfolded td] by (auto simp: bind_eq_Some_conv exit_with_def split: if_splits)
  have "balp q"
    using q(1) p1 postD [OF free_all_bal [OF assms(1)]]
    by (auto simp: free_pool_def pl_free_def balp_def bind_eq_Some_conv split: option.splits)
  then show ?thesis using q(2) by (simp add: balp_def)
qed

end

end
