(* ===== verification/Mappings.thy ===== *)
theory Mappings
  imports Account_Run
begin

text \<open>
  No file mapping is lost: what the server has mapped and not unmapped is what its connections
  hold. This is the ledger in which only mapped bytes are weighed; nothing is asked of the
  descriptors the system hands out.
\<close>

text \<open>The bytes a history has mapped and not given back.\<close>

fun mapped_bytes :: "trace \<Rightarrow> int" where
  "mapped_bytes [] = 0"
| "mapped_bytes (e # tr) =
     (case e of
        EvMmap fd n (Some bs) \<Rightarrow> mapped_bytes tr + n
      | EvMunmap n \<Rightarrow> mapped_bytes tr - n
      | _ \<Rightarrow> mapped_bytes tr)"

interpretation maps: ledger "\<lambda>_. 0" 1 "\<lambda>_. True" True os for os
  by unfold_locales simp_all

lemma mapped_entry: "mapped_bytes (e # tr) = entry (\<lambda>_. 0) 1 e + mapped_bytes tr"
  by (rule entry.cases [of "(\<lambda>_. 0, 1, e)"]) (auto simp: pipe_end_def)

lemma mapped_balance: "balance (\<lambda>_. 0) 1 tr = mapped_bytes tr"
  by (induction tr) (simp_all only: mapped_entry balance_simps mapped_bytes.simps(1))

lemma held_map: "held (\<lambda>_. 0) 1 k = map_size (resp_mmbuf (conn_resp k))"
  by (simp add: held_def pipe_ends_def pipe_end_def)

text \<open>The account of a reachable state, and of the states it can stop in.\<close>

lemma reach_account:
  assumes "argv_ok argv" "sys_ok sys" "os_ok os" "lisod_reach os sys argv conf (Running p)" "pr_pool p = Some s"
  shows "mapped_bytes (st_trace s) = held_all (\<lambda>_. 0) 1 (st_heap s)"
    and "lisod_step os sys conf (Running p) (Stopped rc p') \<Longrightarrow> pr_pool p' = Some s' \<Longrightarrow> mapped_bytes (st_trace s') = 0"
proof -
  have b: "maps.balp p" using maps.reach_bal [OF assms(1-3)] assms(4) by simp
  then show "mapped_bytes (st_trace s) = held_all (\<lambda>_. 0) 1 (st_heap s)"
    using assms(5) by (simp add: maps.balp_def maps.owes_def maps.covers_def mapped_balance)
  have ok: "running_ok p" "log_os_ok (sy_log sys)"
    using reach_running [OF assms(1-4)] assms(2) by (simp_all add: sys_ok_def)
  assume st: "lisod_step os sys conf (Running p) (Stopped rc p')" and s': "pr_pool p' = Some s'"
  have "st_heap s' = Map.empty" using step_stopped [OF st ok] s' by (simp add: pool_empty_def)
  moreover have "maps.balp p'"
    using st
  proof (rule lisod_stepE)
    fix sig rc' q assume "signal_handler sys sig p = Some (Inl (rc', q))" "Stopped rc p' = Stopped rc' q"
    then have "teardown sys EXIT_SUCCESS p = Some (rc, p')" by (cases sig) (auto simp: signal_handler_def)
    then show ?thesis by (rule maps.teardown_bal [OF refl b])
  qed simp_all
  ultimately show "mapped_bytes (st_trace s') = 0"
    using s' by (simp add: maps.balp_def maps.owes_def maps.covers_def mapped_balance held_all_def)
qed

end
