(* ===== verification/Server_Props.thy ===== *)
theory Server_Props
  imports Examples
begin

text \<open>
  What holds of the server as a whole: its invariant in every reachable state, the end of the loop
  over the connections, accepting and dropping, start-up, signals and tear-down.
\<close>

section \<open>The run\<close>

lemma ex_sys_good: "sys_good ex_sys"
  by (simp add: sys_good_def ex_sys_def ex_log_os_def)

lemma ex_started: "\<exists>p. lisod_start ex_sys ex_argv proc0 = Some (Inr (ex_conf, p))
    \<and> pr_sock p = 3 \<and> pr_ssl_sock p = 4 \<and> pr_pool p = Some ex_server0"
proof -
  have "sy_socket ex_sys cs = (if cs = [] then 3 else 4)" for cs by (simp add: ex_sys_def)
  moreover have "pl_new 3 4 [] = Some ex_server0" by (simp add: ex_server0_def pl_new_def fd_ok_def FD_SETSIZE_def)
  ultimately show ?thesis
    using lisod_start_goes [OF ex_argv_ok ex_sys_ok ex_sys_good] by (auto simp: goes_def ex_conf_ok)
qed

text \<open>One turn and two turns from the example's start.\<close>

lemma ex_one_turn:
  assumes "select_turn os ex_conf 3 4 ex_server0 = Some s"
  shows "\<exists>p. lisod_reach os ex_sys ex_argv ex_conf (Running p) \<and> pr_pool p = Some s
    \<and> pr_sock p = 3 \<and> pr_ssl_sock p = 4"
proof -
  obtain p where p: "lisod_start ex_sys ex_argv proc0 = Some (Inr (ex_conf, p))"
      "pr_sock p = 3" "pr_ssl_sock p = 4" "pr_pool p = Some ex_server0"
    using ex_started by blast
  have "lisod_step os ex_sys ex_conf (Running p) (Running (p\<lparr>pr_pool := Some s\<rparr>))"
    using p assms by (intro lisod_step.turn) simp_all
  then have "lisod_reach os ex_sys ex_argv ex_conf (Running (p\<lparr>pr_pool := Some s\<rparr>))"
    using lisod_reach.started [OF p(1)] by (rule lisod_reach.stepped [rotated])
  then show ?thesis using p(2,3) by (intro exI [of _ "p\<lparr>pr_pool := Some s\<rparr>"]) simp
qed

lemma ex_two_turns:
  assumes "select_turn os ex_conf 3 4 ex_server0 = Some s1" "select_turn os ex_conf 3 4 s1 = Some s2"
  shows "\<exists>p. lisod_reach os ex_sys ex_argv ex_conf (Running p) \<and> pr_pool p = Some s2"
proof -
  obtain p where p: "lisod_reach os ex_sys ex_argv ex_conf (Running p)" "pr_pool p = Some s1"
      "pr_sock p = 3" "pr_ssl_sock p = 4"
    using ex_one_turn [OF assms(1)] by blast
  have "lisod_step os ex_sys ex_conf (Running p) (Running (p\<lparr>pr_pool := Some s2\<rparr>))"
    using p(2-4) assms(2) by (intro lisod_step.turn) simp_all
  with p(1) have "lisod_reach os ex_sys ex_argv ex_conf (Running (p\<lparr>pr_pool := Some s2\<rparr>))"
    by (rule lisod_reach.stepped)
  then show ?thesis by (intro exI [of _ "p\<lparr>pr_pool := Some s2\<rparr>"]) simp
qed

text \<open>C6: in every state the server can reach after start-up, whatever clients, CGI programs and
  the file system do, the pool is well formed (\<open>pool_ok\<close>: its slots hold distinct live connections
  that know their slot and are well formed, at most \<open>MAX_CONNS\<close> of them, and no descriptor is
  watched but the listeners and those of live connections), and every watched descriptor is within
  the range the next \<open>select\<close> asks about.\<close>

theorem server_invariant:
  assumes "argv_ok argv" "sys_ok sys" "os_ok os" "lisod_reach os sys argv conf (Running p)"
  shows "\<exists>s. pr_pool p = Some s \<and> pool_ok (pr_sock p) (pr_ssl_sock p) s
    \<and> read_set s \<union> write_set s \<subseteq> {..max_fd s}"
  using reach_running [OF assms] by (simp add: running_ok_def select_ok_def)

theorem server_invariant_witness:
  "\<exists>p s. lisod_reach ex_os ex_sys ex_argv ex_conf (Running p) \<and> pr_pool p = Some s
    \<and> pool_ok (pr_sock p) (pr_ssl_sock p) s \<and> read_set s \<union> write_set s \<subseteq> {..max_fd s}"
proof -
  obtain p where "lisod_start ex_sys ex_argv proc0 = Some (Inr (ex_conf, p))" using ex_started by blast
  then have r: "lisod_reach ex_os ex_sys ex_argv ex_conf (Running p)" by (rule lisod_reach.started)
  from server_invariant [OF ex_argv_ok ex_sys_ok ex_os_ok r] r show ?thesis by blast
qed

text \<open>C7: in a well-formed pool the loop over the connections ends: with as much fuel as there are
  connections it does not run out, although a dropped connection makes it visit the same slot
  again. It only drops connections, and the bound it computes covers every watched descriptor.\<close>

theorem serve_loop_ends:
  assumes "pool_ok sock ssl s" "os_ok os" "conf_ok conf" "n_conns s \<le> fuel"
  shows "\<exists>r. serve_loop fuel os conf 0 (min_max_fd s) s = Some r
    \<and> (\<forall>m s'. r = Some (m, s') \<longrightarrow> pool_ok sock ssl s' \<and> n_conns s' \<le> n_conns s
         \<and> read_set s' \<union> write_set s' \<subseteq> {..m})"
proof -
  have "covered 0 (min_max_fd s) s" by (simp add: covered_def)
  from serve_loop_ok [OF assms(2,3,1) this, of fuel] assms(4) obtain r where
    r: "serve_loop fuel os conf 0 (min_max_fd s) s = Some r"
    "post r (\<lambda>(m, s'). pool_ok sock ssl s' \<and> covered (n_conns s') m s' \<and> n_conns s' \<le> n_conns s)"
    by auto
  have "pool_ok sock ssl s' \<and> n_conns s' \<le> n_conns s \<and> read_set s' \<union> write_set s' \<subseteq> {..m}"
    if "r = Some (m, s')" for m s'
    using postD [OF r(2) that] covered_sets [of sock ssl s' m] by simp
  then show ?thesis using r(1) by blast
qed

theorem serve_loop_ends_witness:
  "\<exists>r. serve_loop 1 ex_os ex_conf 0 (min_max_fd ex_server) ex_server = Some r
    \<and> (\<forall>m s'. r = Some (m, s') \<longrightarrow> pool_ok 3 4 s' \<and> n_conns s' \<le> n_conns ex_server
         \<and> read_set s' \<union> write_set s' \<subseteq> {..m})"
  by (rule serve_loop_ends [OF ex_server_ok ex_os_ok ex_conf_ok(1)]) (simp add: ex_server_conn)

text \<open>C8: start-up has no undefined behaviour on proper arguments: the process exits with status 0
  (the parent of the daemon) or 1, or goes on with a well-formed pool, a context and a usable
  configuration.\<close>

theorem startup_outcome:
  assumes "argv_ok argv" "sys_ok sys"
  shows "\<exists>r. lisod_start sys argv proc0 = Some r
    \<and> (case r of
         Inl (rc, p) \<Rightarrow> rc \<in> {EXIT_SUCCESS, EXIT_FAILURE} \<and> last (pr_calls p) = PcExit rc
       | Inr (conf, p) \<Rightarrow> conf_ok conf \<and> pr_ctx p
           \<and> (\<exists>s. pr_pool p = Some s \<and> pool_ok (pr_sock p) (pr_ssl_sock p) s))"
proof -
  obtain r where r: "lisod_start sys argv proc0 = Some r"
    "case r of Inl (rc, p) \<Rightarrow> rc \<in> {EXIT_SUCCESS, EXIT_FAILURE} \<and> last (pr_calls p) = PcExit rc
        \<and> pr_calls p \<noteq> []
     | Inr (conf, p) \<Rightarrow> conf_ok conf \<and> pr_ctx p
        \<and> (\<exists>s. pr_pool p = Some s \<and> pool_ok (pr_sock p) (pr_ssl_sock p) s \<and> select_ok s
             \<and> st_heap s = Map.empty \<and> st_trace s = [])"
    using lisod_start_ok [OF assms] by (auto simp: starts_def safe_def)
  then show ?thesis by (cases r) auto
qed

theorem startup_outcome_witness:
  "\<exists>r. lisod_start ex_sys ex_argv proc0 = Some r
    \<and> (case r of
         Inl (rc, p) \<Rightarrow> rc \<in> {EXIT_SUCCESS, EXIT_FAILURE} \<and> last (pr_calls p) = PcExit rc
       | Inr (conf, p) \<Rightarrow> conf_ok conf \<and> pr_ctx p
           \<and> (\<exists>s. pr_pool p = Some s \<and> pool_ok (pr_sock p) (pr_ssl_sock p) s))"
  by (rule startup_outcome [OF ex_argv_ok ex_sys_ok])

text \<open>When every call of start-up succeeds the server runs, whatever the final check of the private
  key against the certificate says: that check only prints a message.\<close>

lemma startup_ignores_key_check:
  assumes "argv_ok argv" "sys_ok sys" "sys_good sys"
  shows "\<exists>conf p. lisod_start (sys\<lparr>sy_ctx_check := check\<rparr>) argv proc0 = Some (Inr (conf, p)) \<and> pr_ctx p"
proof -
  have "sys_ok (sys\<lparr>sy_ctx_check := check\<rparr>)" "sys_good (sys\<lparr>sy_ctx_check := check\<rparr>)"
    using assms(2,3) by (simp_all add: sys_ok_def sys_good_def)
  from lisod_start_goes [OF assms(1) this] show ?thesis by (auto simp: goes_def)
qed

lemma startup_ignores_key_check_witness:
  "\<exists>conf p. lisod_start (ex_sys\<lparr>sy_ctx_check := \<lambda>_. False\<rparr>) ex_argv proc0 = Some (Inr (conf, p)) \<and> pr_ctx p"
  by (rule startup_ignores_key_check [OF ex_argv_ok ex_sys_ok ex_sys_good])

text \<open>C10: from every state the running server can reach, SIGTERM stops it with status 0, with
  every connection freed exactly once, and the listeners, the lock file and the SSL context
  released.\<close>

theorem sigterm_stops:
  assumes "argv_ok argv" "sys_ok sys" "os_ok os" "lisod_reach os sys argv conf (Running p)"
  shows "\<exists>p'. lisod_step os sys conf (Running p) (Stopped EXIT_SUCCESS p')
    \<and> (\<forall>s. pr_pool p' = Some s \<longrightarrow> st_heap s = Map.empty)
    \<and> pr_calls p' = pr_calls p @ teardown_calls EXIT_SUCCESS p"
proof -
  have "proc_ok p" using reach_running [OF assms] by (auto simp: running_ok_def proc_ok_def)
  moreover have "log_os_ok (sy_log sys)" using assms(2) by (simp add: sys_ok_def)
  ultimately obtain p' where p': "teardown sys EXIT_SUCCESS p = Some (EXIT_SUCCESS, p')" "pool_empty p'"
      "pr_calls p' = pr_calls p @ teardown_calls EXIT_SUCCESS p"
    using teardown_ok [of p sys EXIT_SUCCESS] by (auto simp: safe_def)
  then have "signal_handler sys SIGTERM p = Some (Inl (EXIT_SUCCESS, p'))" by (simp add: signal_handler_def)
  then have "lisod_step os sys conf (Running p) (Stopped EXIT_SUCCESS p')"
    by (intro lisod_step.ended [of SIGTERM]) simp_all
  then show ?thesis using p' by (auto simp: pool_empty_def)
qed

theorem sigterm_stops_witness:
  "\<exists>p p'. lisod_step ex_os ex_sys ex_conf (Running p) (Stopped EXIT_SUCCESS p')
    \<and> (\<forall>s. pr_pool p' = Some s \<longrightarrow> st_heap s = Map.empty)
    \<and> pr_calls p' = pr_calls p @ teardown_calls EXIT_SUCCESS p"
proof -
  obtain p where "lisod_start ex_sys ex_argv proc0 = Some (Inr (ex_conf, p))" using ex_started by blast
  then have "lisod_reach ex_os ex_sys ex_argv ex_conf (Running p)" by (rule lisod_reach.started)
  from sigterm_stops [OF ex_argv_ok ex_sys_ok ex_os_ok this] show ?thesis by blast
qed

text \<open>C11: in every state the running server can reach, the three state machines of each connection
  agree. While a header is read neither side serves; a complete static request is served by the
  response alone, a complete dynamic one by the CGI program alone; no pipe is open while the CGI
  phase is idle, ready or disabled (after a start that failed, phase \<open>CGI_ABORT\<close>, pipes can be);
  and the buffer and the descriptor are in range.\<close>

theorem reachable_phases:
  assumes "argv_ok argv" "sys_ok sys" "os_ok os" "lisod_reach os sys argv conf (Running p)"
    and "pr_pool p = Some s" "st_heap s c = Some k"
  shows "(req_phase (conn_req k) \<in> {REQ_START, REQ_HEADER} \<longrightarrow>
       cgi_phase (conn_cgi k) = CGI_IDLE \<and> resp_phase (conn_resp k) = RESP_READY)
    \<and> (req_phase (conn_req k) \<in> {REQ_BODY, REQ_DONE} \<longrightarrow>
       (case req_type (conn_req k) of
          REQ_STATIC \<Rightarrow> cgi_phase (conn_cgi k) = CGI_DISABLED
            \<and> resp_phase (conn_resp k) \<in> {RESP_READY, RESP_HEADER, RESP_BODY}
        | REQ_DYNAMIC \<Rightarrow> resp_phase (conn_resp k) = RESP_DISABLED
            \<and> cgi_phase (conn_cgi k) \<in> {CGI_READY, CGI_SRV_TO_CGI, CGI_CGI_TO_SRV, CGI_DONE}))
    \<and> (cgi_phase (conn_cgi k) \<in> {CGI_IDLE, CGI_READY, CGI_DISABLED} \<longrightarrow> cgi_closed (conn_cgi k))
    \<and> length (data (conn_buf k)) \<le> BUFSZ + 1 \<and> (req_phase (conn_req k) \<noteq> REQ_ABORT \<longrightarrow> buf_ok (conn_buf k))
    \<and> fd_ok (conn_fd k)"
proof -
  have "slots_ok s" using reach_running [OF assms(1-4)] assms(5) by (auto simp: running_ok_def pool_ok_def)
  then have "conn_ok k" "fd_ok (conn_fd k)" using slot_of assms(6) by blast+
  then show ?thesis
    by (cases "req_type (conn_req k)") (auto simp: conn_ok_def phases_ok_def phases_fit_def data_ok_def cgi_ok_def)
qed

text \<open>The first turn of the server of the example accepts a client.\<close>

lemma ex_turn_accepts: "\<exists>s k. select_turn ex_os ex_conf 3 4 ex_server0 = Some s \<and> st_heap s 0 = Some k
    \<and> req_phase (conn_req k) = REQ_START"
proof -
  have "(case select_turn ex_os ex_conf 3 4 ex_server0 of None \<Rightarrow> False
      | Some s \<Rightarrow> (case st_heap s 0 of None \<Rightarrow> False | Some k \<Rightarrow> req_phase (conn_req k) = REQ_START))"
    by code_simp
  then show ?thesis by (auto split: option.splits)
qed

theorem reachable_phases_witness:
  "\<exists>p s k. lisod_reach ex_os ex_sys ex_argv ex_conf (Running p) \<and> pr_pool p = Some s \<and> st_heap s 0 = Some k
    \<and> req_phase (conn_req k) = REQ_START \<and> cgi_phase (conn_cgi k) = CGI_IDLE \<and> cgi_closed (conn_cgi k)
    \<and> resp_phase (conn_resp k) = RESP_READY \<and> buf_ok (conn_buf k)"
proof -
  obtain p where p: "lisod_start ex_sys ex_argv proc0 = Some (Inr (ex_conf, p))"
      "pr_sock p = 3" "pr_ssl_sock p = 4" "pr_pool p = Some ex_server0"
    using ex_started by blast
  obtain s k where s: "select_turn ex_os ex_conf 3 4 ex_server0 = Some s" "st_heap s 0 = Some k"
      "req_phase (conn_req k) = REQ_START"
    using ex_turn_accepts by blast
  have "lisod_step ex_os ex_sys ex_conf (Running p) (Running (p\<lparr>pr_pool := Some s\<rparr>))"
    using p s(1) by (intro lisod_step.turn) simp_all
  with lisod_reach.started [OF p(1)]
  have r: "lisod_reach ex_os ex_sys ex_argv ex_conf (Running (p\<lparr>pr_pool := Some s\<rparr>))"
    by (rule lisod_reach.stepped)
  have "pr_pool (p\<lparr>pr_pool := Some s\<rparr>) = Some s" by simp
  from reachable_phases [OF ex_argv_ok ex_sys_ok ex_os_ok r this s(2)] r s(2,3) this show ?thesis by fastforce
qed

text \<open>The handler of SIGCHLD returns when \<open>waitpid\<close> reports finitely many children, and changes
  nothing of the server.\<close>

lemma sigchld_returns:
  assumes "\<And>cs. n \<le> reaped cs \<Longrightarrow> sy_waitpid sys cs \<le> 0"
  shows "\<exists>p'. signal_handler sys SIGCHLD p = Some (Inr ((), p')) \<and> pr_pool p' = pr_pool p \<and> pr_log p' = pr_log p"
proof -
  obtain p' where "reap sys p = Some p'" using reap_returns [OF assms] by blast
  then show ?thesis using reap_frame [of sys p p'] by (auto simp: signal_handler_def same_globals_def)
qed

lemma sigchld_returns_witness:
  "\<exists>p'. signal_handler ex_sys SIGCHLD proc0 = Some (Inr ((), p')) \<and> pr_pool p' = pr_pool proc0
    \<and> pr_log p' = pr_log proc0"
  by (rule sigchld_returns [of 2]) (simp add: ex_sys_def)

section \<open>Accepting and dropping\<close>

text \<open>C12: accepting a client has no undefined behaviour, keeps the pool well formed and adds at
  most one connection; a client beyond the capacity of the pool or of \<open>fd_set\<close> is closed at once
  and changes nothing else.\<close>

theorem accept_keeps_pool:
  assumes "pool_ok sock ssl s" "os_ok os"
  shows "\<exists>r s'. liso_accept_conn os conf lsock ctx s = Some (r, s') \<and> pool_ok sock ssl s'
    \<and> n_conns s' = (if r = None then n_conns s else Suc (n_conns s)) \<and> n_conns s' \<le> MAX_CONNS
    \<and> (\<forall>fd ad. os_accept os (st_trace s) lsock = Some (fd, ad) \<longrightarrow>
         n_conns s = MAX_CONNS \<or> FD_SETSIZE \<le> fd \<longrightarrow>
         r = None \<and> s' = s\<lparr>st_trace := EvClose fd # EvAccept lsock (Some fd) # st_trace s\<rparr>)"
proof -
  obtain r s' where r: "liso_accept_conn os conf lsock ctx s = Some (r, s')" "pool_ok sock ssl s'"
      "n_conns s' = (if r = None then n_conns s else Suc (n_conns s))"
    using accept_conn_ok [OF assms, of conf lsock ctx] by (auto simp: safe_def)
  have "n_conns s' \<le> MAX_CONNS" using r(2) by (simp add: pool_ok_def slots_ok_def)
  moreover have "r = None \<and> s' = s\<lparr>st_trace := EvClose fd # EvAccept lsock (Some fd) # st_trace s\<rparr>"
    if "os_accept os (st_trace s) lsock = Some (fd, ad)" "n_conns s = MAX_CONNS \<or> FD_SETSIZE \<le> fd" for fd ad
    using r(1) that by (auto simp: liso_accept_conn_def log_ev_def Let_def split: if_splits)
  ultimately show ?thesis using r by blast
qed

theorem accept_keeps_pool_witness:
  "\<exists>r s'. liso_accept_conn ex_os ex_conf 4 True ex_server = Some (r, s') \<and> pool_ok 3 4 s'
    \<and> n_conns s' = (if r = None then n_conns ex_server else Suc (n_conns ex_server))"
  using accept_keeps_pool [OF ex_server_ok ex_os_ok, of ex_conf 4 True] by blast

text \<open>C32: dropping a connection keeps the pool well formed and removes that connection alone: it
  leaves the heap and both descriptor sets, every other connection is as it was but for its slot,
  and one connection fewer is counted.\<close>

theorem drop_removes_one:
  assumes "pool_ok sock ssl s" "st_heap s c = Some k" "pl_del_conn c s = Some (rc, s')"
  shows "rc = 1 \<and> pool_ok sock ssl s' \<and> n_conns s = Suc (n_conns s')
    \<and> dom (st_heap s') = dom (st_heap s) - {c}
    \<and> (\<forall>d m. d \<noteq> c \<longrightarrow> st_heap s d = Some m \<longrightarrow> (\<exists>j. st_heap s' d = Some (m\<lparr>conn_idx := j\<rparr>)))
    \<and> conn_fd k \<notin> read_set s' \<union> write_set s'"
proof -
  have "gone sock ssl s c s'"
    using postD [OF pl_del_gone [OF live_refl [OF assms(1,2)]] assms(3)] by simp
  then show ?thesis
    using postD [OF pl_del_exact [OF assms(1,2)] assms(3)] by (simp add: gone_def)
qed

lemma ex_server_del: "map_option fst (pl_del_conn 0 ex_server) = Some 1"
  by code_simp

theorem drop_removes_one_witness:
  "\<exists>k s'. pl_del_conn 0 ex_server = Some (1, s') \<and> st_heap ex_server 0 = Some k \<and> pool_ok 3 4 s'
    \<and> n_conns s' = 0 \<and> dom (st_heap s') = dom (st_heap ex_server) - {0}"
proof -
  obtain s' where s': "pl_del_conn 0 ex_server = Some (1, s')" using ex_server_del by auto
  obtain k where k: "st_heap ex_server 0 = Some k" using ex_server_conn by (auto simp: get_conn_def)
  from drop_removes_one [OF ex_server_ok k s'] s' k ex_server_conn show ?thesis by auto
qed

end
