(* ===== verification/Descriptors.thy ===== *)
theory Descriptors
  imports Account_Run Server_Props
begin

text \<open>
  Whose descriptors are open: the ledger in which one descriptor \<open>f\<close> is weighed. The system hands
  out descriptors that are not open (\<open>fresh_fds\<close>); then no descriptor is closed twice, none is held
  twice, and in a thrifty system every open one is held by a connection.
\<close>

section \<open>The descriptors of a connection\<close>

definition conn_fds :: "conn_t \<Rightarrow> int list" where
  "conn_fds k = conn_fd k # filter (\<lambda>fd. 0 \<le> fd)
     (let g = conn_cgi k in [srv_out g, srv_in g, srv_err g, cgi_in g, cgi_out g, cgi_err g])"

definition only :: "int \<Rightarrow> int \<Rightarrow> int" where
  "only f fd = of_bool (fd = f)"

lemma held_count: "held (only f) 0 k = int (count_list (conn_fds k) f)"
proof -
  have "int (count_list (filter (\<lambda>fd. 0 \<le> fd) xs) f) = (\<Sum>fd \<leftarrow> xs. pipe_end (only f) fd)" for xs
    by (induction xs) (simp_all add: pipe_end_def only_def)
  then show ?thesis by (simp add: held_def pipe_ends_def only_def conn_fds_def Let_def del: filter.simps)
qed

definition holders :: "int \<Rightarrow> (ptr \<rightharpoonup> conn_t) \<Rightarrow> nat" where
  "holders f h = (\<Sum>c \<in> dom h. count_list (conn_fds (the (h c))) f)"

lemma held_all_holders: "held_all (only f) 0 h = int (holders f h)"
  by (simp add: held_all_def held_count holders_def)

section \<open>The ledger of a descriptor\<close>

definition fresh_fds :: "os \<Rightarrow> bool" where
  "fresh_fds os \<longleftrightarrow> (\<forall>tr s fd ad. os_accept os tr s = Some (fd, ad) \<longrightarrow> fd \<notin> open_fds tr)
     \<and> (\<forall>tr r x. os_pipe os tr = Some (r, x) \<longrightarrow> r \<notin> open_fds tr \<and> x \<notin> open_fds tr \<and> r \<noteq> x)
     \<and> (\<forall>tr p fd. os_open os tr p = Some fd \<longrightarrow> fd \<notin> open_fds tr)"

lemma fresh_fdsD:
  assumes "fresh_fds os"
  shows "os_accept os tr s = Some (fd, ad) \<Longrightarrow> fd \<notin> open_fds tr"
    and "os_pipe os tr = Some (r, x) \<Longrightarrow> r \<notin> open_fds tr \<and> x \<notin> open_fds tr \<and> r \<noteq> x"
    and "os_open os tr p = Some fd \<Longrightarrow> fd \<notin> open_fds tr"
  using assms unfolding fresh_fds_def by blast+

text \<open>Every \<open>close\<close> of \<open>f\<close> found it open.\<close>

fun closes_open :: "int \<Rightarrow> trace \<Rightarrow> bool" where
  "closes_open f [] = True"
| "closes_open f (e # tr) = (closes_open f tr \<and> (e = EvClose f \<longrightarrow> f \<in> open_fds tr))"

definition tight_fd :: "os \<Rightarrow> int \<Rightarrow> trace \<Rightarrow> bool" where
  "tight_fd os f tr \<longleftrightarrow> (os_ok os \<and> fresh_fds os \<longrightarrow>
     balance (only f) 0 tr = of_bool (f \<in> open_fds tr) \<and> closes_open f tr)"

lemma entry_other: "\<not> moves_fd e \<Longrightarrow> entry w 0 e = 0 \<and> open_fds (e # tr) = open_fds tr \<and> e \<noteq> EvClose f"
  by (cases e; rule entry.cases [of "(w, 0, e)"]) (auto split: option.split)

interpretation fds: ledger "only f" 0 "tight_fd os f" "thrifty os" os for f os
proof (unfold_locales, goal_cases)
  case (4 tr s fd ad)
  then show ?case using fresh_fdsD(1) [of os tr s fd ad] by (auto simp: tight_fd_def only_def)
next
  case (5 tr p)
  then obtain r x where p: "p = (r, x)" "os_pipe os tr = Some (r, x)" by (cases p) auto
  from 5(1) p(2) os_okD(6) [of os tr r x] fresh_fdsD(2) [of os tr r x] show ?case
    by (auto simp: p(1) tight_fd_def only_def pipe_end_def)
next
  case (6 tr path fd)
  then show ?case using fresh_fdsD(3) [of os tr path fd] by (auto simp: tight_fd_def only_def)
next
  case (7 tr fd)
  then show ?case by (cases "f \<in> open_fds tr") (auto simp: tight_fd_def only_def split: if_splits)
next
  case (8 tr e)
  then show ?case using entry_other [of e "only f" tr f] by (simp add: tight_fd_def)
qed (simp_all add: only_def)

section \<open>Every descriptor has one owner\<close>

lemma count_one_distinct: "(\<And>x. count_list xs x \<le> 1) \<Longrightarrow> distinct xs"
proof (induction xs)
  case (Cons x xs)
  have "count_list xs y \<le> 1" for y using Cons.prems [of y] by (simp split: if_splits)
  moreover have "x \<notin> set xs" using Cons.prems [of x] by (simp add: count_list_0_iff)
  ultimately show ?case using Cons.IH by simp
qed simp

lemma reach_holders:
  assumes "argv_ok argv" "sys_ok sys" "os_ok os" "fresh_fds os" "lisod_reach os sys argv conf (Running p)" "pr_pool p = Some s"
  shows "finite (dom (st_heap s)) \<and> closes_open f (st_trace s)
    \<and> holders f (st_heap s) \<le> of_bool (f \<in> open_fds (st_trace s))
    \<and> (thrifty os \<longrightarrow> holders f (st_heap s) = of_bool (f \<in> open_fds (st_trace s)))"
proof -
  have "tight_fd os f []" by (simp add: tight_fd_def)
  then have "fds.bal f os s"
    using fds.reach_bal [OF assms(1-3), of f] assms(5,6) by (auto simp: fds.balp_def)
  then have b: "fds.covers os (balance (only f) 0 (st_trace s) - int (holders f (st_heap s)))"
      "tight_fd os f (st_trace s)" "finite (dom (st_heap s))"
    by (simp_all add: fds.owes_def held_all_holders)
  have "balance (only f) 0 (st_trace s) = int (of_bool (f \<in> open_fds (st_trace s)))" "closes_open f (st_trace s)"
    using b(2) assms(3,4) by (simp_all add: tight_fd_def)
  then show ?thesis using b(1,3) by (simp add: fds.covers_def del: of_nat_of_bool)
qed

lemma holders_two:
  assumes "finite (dom h)" "c \<noteq> d" "h c = Some k" "h d = Some l"
  shows "count_list (conn_fds k) f + count_list (conn_fds l) f \<le> holders f h"
proof -
  have "(\<Sum>e \<in> {c, d}. count_list (conn_fds (the (h e))) f) \<le> holders f h"
    unfolding holders_def by (rule sum_mono2) (use assms in auto)
  then show ?thesis using assms by simp
qed

lemma holders_one:
  assumes "finite (dom h)" "h c = Some k"
  shows "count_list (conn_fds k) f \<le> holders f h"
proof -
  have "(\<Sum>e \<in> {c}. count_list (conn_fds (the (h e))) f) \<le> holders f h"
    unfolding holders_def by (rule sum_mono2) (use assms in auto)
  then show ?thesis using assms by simp
qed

text \<open>C13: in every state the running server can reach, each descriptor a connection holds (its socket
  and the ends of its pipes) is open, no connection holds one twice and no two connections share
  one, so that what is closed for one connection is never the descriptor of another; every
  \<open>close\<close> so far was of an open descriptor; and if the system is thrifty, no descriptor is lost: the
  ones that are open are exactly those the connections hold. The system has to hand out
  descriptors that are not open.\<close>

theorem descriptors_owned:
  assumes "argv_ok argv" "sys_ok sys" "os_ok os" "fresh_fds os" "lisod_reach os sys argv conf (Running p)" "pr_pool p = Some s"
  shows "(\<forall>c k. st_heap s c = Some k \<longrightarrow> distinct (conn_fds k) \<and> set (conn_fds k) \<subseteq> open_fds (st_trace s))
    \<and> (\<forall>c d k l. st_heap s c = Some k \<longrightarrow> st_heap s d = Some l \<longrightarrow> c \<noteq> d \<longrightarrow> set (conn_fds k) \<inter> set (conn_fds l) = {})
    \<and> (\<forall>fd. closes_open fd (st_trace s))
    \<and> (thrifty os \<longrightarrow> open_fds (st_trace s) = (\<Union>k \<in> ran (st_heap s). set (conn_fds k)))"
proof -
  note r = reach_holders [OF assms]
  have fin: "finite (dom (st_heap s))" using r by blast
  have one: "count_list (conn_fds k) f \<le> of_bool (f \<in> open_fds (st_trace s))" if "st_heap s c = Some k" for c k f
    using holders_one [OF fin that, of f] r [of f] by linarith
  have two: "count_list (conn_fds k) f + count_list (conn_fds l) f \<le> 1"
    if "c \<noteq> d" "st_heap s c = Some k" "st_heap s d = Some l" for c d k l f
    using holders_two [OF fin that, of f] r [of f] by (cases "f \<in> open_fds (st_trace s)") simp_all
  have held: "f \<in> (\<Union>k \<in> ran (st_heap s). set (conn_fds k)) \<longleftrightarrow> 0 < holders f (st_heap s)" for f
  proof -
    have "holders f (st_heap s) = 0 \<longleftrightarrow> (\<forall>c \<in> dom (st_heap s). f \<notin> set (conn_fds (the (st_heap s c))))"
      using fin by (simp add: holders_def count_list_0_iff)
    then show ?thesis by (force simp: ran_def dom_def)
  qed
  have "distinct (conn_fds k) \<and> set (conn_fds k) \<subseteq> open_fds (st_trace s)" if k: "st_heap s c = Some k" for c k
  proof (intro conjI subsetI)
    show "distinct (conn_fds k)"
      by (rule count_one_distinct, rule order_trans [OF one [OF k]]) simp
    fix f assume "f \<in> set (conn_fds k)"
    then show "f \<in> open_fds (st_trace s)" using one [OF k, of f] count_list_0_iff [of "conn_fds k" f]
      by (cases "f \<in> open_fds (st_trace s)") simp_all
  qed
  moreover have "set (conn_fds k) \<inter> set (conn_fds l) = {}"
    if "c \<noteq> d" "st_heap s c = Some k" "st_heap s d = Some l" for c d k l
  proof -
    have "f \<notin> set (conn_fds k) \<or> f \<notin> set (conn_fds l)" for f
      using two [OF that, of f] by (auto simp flip: count_list_0_iff)
    then show ?thesis by blast
  qed
  moreover have "closes_open fd (st_trace s)" for fd using r by blast
  moreover have "open_fds (st_trace s) = (\<Union>k \<in> ran (st_heap s). set (conn_fds k))" if "thrifty os"
    using r held that by (auto split: if_splits)
  ultimately show ?thesis by blast
qed

text \<open>
  A system that numbers its descriptors one after the other, and in which clients connect and send
  nothing.
\<close>

fun next_fd :: "trace \<Rightarrow> int" where
  "next_fd [] = 5"
| "next_fd (e # tr) =
     (case e of
        EvAccept s (Some fd) \<Rightarrow> max (fd + 1) (next_fd tr)
      | EvPipe (Some (r, x)) \<Rightarrow> max (max (r + 1) (x + 1)) (next_fd tr)
      | EvOpen p (Some fd) \<Rightarrow> max (fd + 1) (next_fd tr)
      | _ \<Rightarrow> next_fd tr)"

lemma below_next: "fd \<in> open_fds tr \<Longrightarrow> fd < next_fd tr"
  by (induction tr) (auto split: event.splits option.splits prod.splits)

lemma next_ge: "5 \<le> next_fd tr"
  by (induction tr) (auto split: event.splits option.splits prod.splits)

lemma next_pos: "0 \<le> next_fd tr"
  using next_ge [of tr] by linarith

definition count_os :: os where
  "count_os = ex_os\<lparr>os_accept := (\<lambda>tr _. Some (next_fd tr, ''10.0.0.1'')),
     os_pipe := (\<lambda>tr. Some (next_fd tr, next_fd tr + 1)),
     os_open := (\<lambda>tr _. Some (next_fd tr)),
     os_select := (\<lambda>tr n r w. Some ({fd \<in> r. fd < n \<and> fd = 3}, {}))\<rparr>"

lemma count_os_ok: "os_ok count_os"
  using ex_os_ok next_pos by (auto simp: os_ok_def count_os_def add_increasing2 no_nul_def INET_ADDRSTRLEN_def)

lemma count_os_fresh: "fresh_fds count_os"
  using below_next by (fastforce simp: fresh_fds_def count_os_def)

lemma count_os_thrifty: "thrifty count_os"
  by (auto simp: thrifty_def count_os_def ex_os_def)

lemma count_turns: "\<exists>s1 s2. select_turn count_os ex_conf 3 4 ex_server0 = Some s1
    \<and> select_turn count_os ex_conf 3 4 s1 = Some s2
    \<and> map_option conn_fds (st_heap s2 0) = Some [5] \<and> map_option conn_fds (st_heap s2 1) = Some [6]
    \<and> 5 \<in> open_fds (st_trace s2) \<and> 6 \<in> open_fds (st_trace s2)"
proof -
  have "(case select_turn count_os ex_conf 3 4 ex_server0 of None \<Rightarrow> False
    | Some s1 \<Rightarrow> (case select_turn count_os ex_conf 3 4 s1 of None \<Rightarrow> False
      | Some s2 \<Rightarrow> map_option conn_fds (st_heap s2 0) = Some [5] \<and> map_option conn_fds (st_heap s2 1) = Some [6]
         \<and> 5 \<in> open_fds (st_trace s2) \<and> 6 \<in> open_fds (st_trace s2)))"
    by code_simp
  then show ?thesis by (auto split: option.splits)
qed

theorem descriptors_owned_witness:
  "\<exists>p s. lisod_reach count_os ex_sys ex_argv ex_conf (Running p) \<and> pr_pool p = Some s
    \<and> {5, 6} \<subseteq> open_fds (st_trace s) \<and> open_fds (st_trace s) = (\<Union>k \<in> ran (st_heap s). set (conn_fds k))"
proof -
  obtain s1 s2 where s: "select_turn count_os ex_conf 3 4 ex_server0 = Some s1"
      "select_turn count_os ex_conf 3 4 s1 = Some s2" "5 \<in> open_fds (st_trace s2)" "6 \<in> open_fds (st_trace s2)"
    using count_turns by blast
  obtain p where p: "lisod_reach count_os ex_sys ex_argv ex_conf (Running p)" "pr_pool p = Some s2"
    using ex_two_turns [OF s(1,2)] by blast
  from descriptors_owned [OF ex_argv_ok ex_sys_ok count_os_ok count_os_fresh p] count_os_thrifty
  have "open_fds (st_trace s2) = (\<Union>k \<in> ran (st_heap s2). set (conn_fds k))" by blast
  then show ?thesis using p s(3,4) by blast
qed

end
