(* ===== verification/Turn_Fds.thy ===== *)
theory Turn_Fds
  imports Descriptors Waiting
begin

text \<open>
  The descriptors within a turn. The account of C13 holds at every step of a turn, so a descriptor
  that a connection holds is open; a pipe made in the turn, whose ends were not open, is then none
  of the descriptors \<open>select\<close> reported, unless one of those has been closed since.
\<close>

section \<open>The account of every descriptor\<close>

definition accounted :: "os \<Rightarrow> server \<Rightarrow> bool" where
  "accounted os s \<longleftrightarrow> (\<forall>f. fds.bal f os s)"

definition owned_fds :: "server \<Rightarrow> int set" where
  "owned_fds s = (\<Union>k \<in> ran (st_heap s). set (conn_fds k))"

lemma accounted_reach:
  assumes "argv_ok argv" "sys_ok sys" "os_ok os" "lisod_reach os sys argv conf (Running p)" "pr_pool p = Some s"
  shows "accounted os s"
proof -
  have "tight_fd os f []" for f by (simp add: tight_fd_def)
  then show ?thesis
    using fds.reach_bal [OF assms(1-3)] assms(4,5) by (auto simp: accounted_def fds.balp_def)
qed

lemma accounted_ready [simp]:
  "accounted os (s\<lparr>read_ready := S\<rparr>) = accounted os s" "accounted os (s\<lparr>write_ready := S\<rparr>) = accounted os s"
  by (simp_all add: accounted_def)

lemma owned_open:
  assumes "accounted os s" "os_ok os" "fresh_fds os"
  shows "owned_fds s \<subseteq> open_fds (st_trace s)"
proof
  fix f
  assume "f \<in> owned_fds s"
  then obtain c k where k: "st_heap s c = Some k" "f \<in> set (conn_fds k)" by (auto simp: owned_fds_def ran_def)
  have "fds.bal f os s" using assms(1) by (simp add: accounted_def)
  then have b: "fds.covers os (balance (only f) 0 (st_trace s) - int (holders f (st_heap s)))"
      "tight_fd os f (st_trace s)" "finite (dom (st_heap s))"
    by (simp_all add: fds.owes_def held_all_holders)
  have "0 < count_list (conn_fds k) f" using k(2) count_list_0_iff [of "conn_fds k" f] by simp
  then have "0 < holders f (st_heap s)" using holders_one [OF b(3) k(1), of f] by simp
  then show "f \<in> open_fds (st_trace s)"
    using b(1,2) assms(2,3) by (auto simp: fds.covers_def tight_fd_def of_bool_def split: if_splits)
qed

lemma post_all: "(\<And>f. post m (P f)) \<Longrightarrow> post m (\<lambda>x. \<forall>f. P f x)"
  by (simp add: post_def)

lemma accounted_recv: "accounted os s \<Longrightarrow> post (sv_recv os c s) (\<lambda>(_, s'). accounted os s')"
  unfolding accounted_def case_prod_beta
  by (rule post_all, rule fds.sv_recv_bal [unfolded case_prod_beta]) blast

lemma accounted_logerr: "accounted os s \<Longrightarrow> post (sv_logerr os c s) (accounted os)"
  unfolding accounted_def by (rule post_all) (use fds.sv_logerr_bal in auto)

lemma accounted_prepare: "accounted os s \<Longrightarrow> os_ok os \<Longrightarrow> post (sv_prepare os conf c s) (accounted os)"
  unfolding accounted_def by (rule post_all) (use fds.sv_prepare_bal in auto)

section \<open>Until its program is started a connection keeps its descriptors\<close>

definition has_fds :: "int list \<Rightarrow> ptr \<Rightarrow> server \<Rightarrow> bool" where
  "has_fds fds c s \<longleftrightarrow> (\<exists>k. get_conn c s = Some k \<and> conn_fds k = fds)"

lemma has_fds_put [simp]:
  "has_fds l c (put_conn c k s) = (conn_fds k = l)" "has_fds l c (s\<lparr>st_trace := t\<rparr>) = has_fds l c s"
  "has_fds l c (s\<lparr>write_set := W\<rparr>) = has_fds l c s"
  by (simp_all add: has_fds_def get_conn_def put_conn_def)

lemma conn_fds_cong:
  "conn_fd k' = conn_fd k \<Longrightarrow> conn_cgi k' = (conn_cgi k)\<lparr>cgi_phase := p\<rparr> \<Longrightarrow> conn_fds k' = conn_fds k"
  by (simp add: conn_fds_def Let_def)

lemma conn_fds_same: "conn_fd k' = conn_fd k \<Longrightarrow> conn_cgi k' = conn_cgi k \<Longrightarrow> conn_fds k' = conn_fds k"
  by (simp add: conn_fds_def)

lemma conn_fds_update [simp]:
  "conn_fds (k\<lparr>conn_buf := b\<rparr>) = conn_fds k" "conn_fds (k\<lparr>conn_req := r\<rparr>) = conn_fds k"
  "conn_fds (k\<lparr>conn_resp := p\<rparr>) = conn_fds k" "conn_fds (k\<lparr>conn_ssl_accepted := a\<rparr>) = conn_fds k"
  by (simp_all add: conn_fds_def)

lemma conn_err_fds:
  assumes "has_fds l c s"
  shows "post (liso_conn_err c st s) (\<lambda>(_, s'). has_fds l c s')"
proof -
  obtain k where k: "get_conn c s = Some k" "conn_fds k = l" using assms by (auto simp: has_fds_def)
  show ?thesis
    unfolding liso_conn_err_def k(1) Option.bind.bind_lunit Let_def set_fd_write_def FD_SET_def
    using k(2) by (cases "fd_ok (conn_fd k)") simp_all
qed

lemma body_step_fds:
  assumes "body_step k = Some k'"
  shows "conn_fds k' = conn_fds k"
proof -
  have "conn_fd (enter_body k) = conn_fd k \<and> (\<exists>p. conn_cgi (enter_body k) = (conn_cgi k)\<lparr>cgi_phase := p\<rparr>)"
    by (auto simp: enter_body_def intro: exI [of _ "cgi_phase (conn_cgi k)"])
  then have e: "conn_fds (enter_body k) = conn_fds k" using conn_fds_cong by blast
  have "conn_fds k1 = conn_fds (enter_body k)" if "take_body (enter_body k) = Some k1" for k1
    by (rule conn_fds_same) (use that in \<open>auto simp: take_body_def Let_def bind_eq_Some_conv split: if_splits\<close>)
  note t = this
  show ?thesis
  proof (cases "req_phase (conn_req k) = REQ_BODY")
    case True
    then obtain k1 where "take_body (enter_body k) = Some k1" "k' = k1 \<or> k' = k1\<lparr>conn_buf := buf_reset (conn_buf k1)\<rparr>"
      using assms by (auto simp: body_step_def bind_eq_Some_conv)
    then show ?thesis using e t by auto
  qed (use assms in \<open>simp add: body_step_def\<close>)
qed

lemma parse_req_fds:
  assumes "has_fds l c s"
  shows "post (cn_parse_req liso_conn_err c e s) (\<lambda>(_, s'). has_fds l c s')"
  unfolding cn_parse_req_def
proof (intro post_bind, clarify)
  fix k r k1
  assume k: "get_conn c s = Some k" and p: "parse_lines_of k e = Some (r, k1)"
  have "conn_fds k1 = conn_fds k"
    by (rule conn_fds_same) (use p in \<open>auto simp: parse_lines_of_def Let_def bind_eq_Some_conv split: if_splits\<close>)
  then have l: "conn_fds k1 = l" using assms k by (simp add: has_fds_def)
  show "post (case r of Some status \<Rightarrow> liso_conn_err c status (put_conn c k1 s)
      | None \<Rightarrow> body_step k1 \<bind> (\<lambda>k. Some (1, put_conn c k s))) (\<lambda>(_, s'). has_fds l c s')"
    using l body_step_fds [of k1] by (auto split: option.split intro!: conn_err_fds post_bind)
qed

lemma recv_ignore_fds:
  assumes "has_fds l c s"
  shows "post (recv_ignore os liso_drop_conn c s) (\<lambda>(rc, s'). 0 \<le> rc \<longrightarrow> has_fds l c s')"
  unfolding recv_ignore_def smart_recv_def log_ev_trace Let_def prod.case
  using assms by (intro post_bind) (auto split: option.split
      intro!: post_bind post_if post_mono [OF drop_rc] simp: has_fds_def)

lemma recv_fds:
  assumes "has_fds l c s"
  shows "post (liso_recv os c s) (\<lambda>(rc, s'). 0 \<le> rc \<longrightarrow> has_fds l c s')" (is "post _ ?Q")
proof -
  obtain k where k: "get_conn c s = Some k" "conn_fds k = l" using assms by (auto simp: has_fds_def)
  have fat: "post (liso_drop_conn c t) ?Q" for t by (rule post_mono [OF drop_rc]) auto
  have full: "post (liso_conn_err c 400 s \<bind> (\<lambda>(_, s). recv_ignore os liso_drop_conn c s)) ?Q"
    by (rule post_bindI [OF conn_err_fds [OF assms]]) (auto intro: recv_ignore_fds)
  have parse: "post (cn_parse_req liso_conn_err c e t \<bind> (\<lambda>(_, s). Some (1, s))) ?Q" if "has_fds l c t" for e t
    by (rule post_bindI [OF parse_req_fds [OF that]]) auto
  have msg: "post (buf_write i bs (conn_buf k) \<bind> (\<lambda>buf.
      if bs = [] then liso_drop_conn c (dead buf)
      else cn_parse_req liso_conn_err c i (put_conn c (k\<lparr>conn_buf := buf\<lparr>sz := sz buf + int (length bs)\<rparr>\<rparr>) (s\<lparr>st_trace := t\<rparr>))
        \<bind> (\<lambda>(_, s). Some (1, s)))) ?Q" for i bs dead t
    by (rule post_bind, rule post_if, rule fat, rule parse) (simp add: k(2))
  show ?thesis
    unfolding cn_recv_def k(1) Option.bind.bind_lunit smart_recv_def log_ev_trace put_trace Let_def prod.case
    by (intro post_if) (auto split: option.split
        intro!: full fat recv_ignore_fds msg simp: assms k(2))
qed

lemma sv_recv_fds:
  assumes "has_fds l c s"
  shows "post (sv_recv os c s) (\<lambda>(alive, s'). alive \<longrightarrow> has_fds l c s')"
  unfolding sv_recv_def
  by (rule post_bind, rule post_bind, rule post_if, rule post_bindI [OF recv_fds [OF assms]]) (auto simp: assms)

lemma sv_logerr_fds: "has_fds l c s \<Longrightarrow> post (sv_logerr os c s) (has_fds l c)"
  unfolding sv_logerr_def by (intro post_bind post_if) (auto intro!: post_bind)

lemma sv_prepare_fds:
  assumes "has_fds l c s"
  shows "post (sv_prepare os conf c s) (has_fds l c)"
proof -
  obtain k where k: "get_conn c s = Some k" "conn_fds k = l" using assms by (auto simp: has_fds_def)
  have "post (liso_prepare_static_header os conf c s) (\<lambda>(_, s'). has_fds l c s')"
    unfolding cn_prepare_static_header_def k(1) Option.bind.bind_lunit Let_def
    by (rule post_bind, clarify, rule post_if) (auto intro!: post_bind conn_err_fds simp: k(2))
  then show ?thesis
    unfolding sv_prepare_def k(1) Option.bind.bind_lunit
    by (intro post_if) (auto elim!: post_bindI simp: assms)
qed

section \<open>The ends of a new pipe\<close>

lemma cgi_init_new_ends:
  assumes "cgi_init os g tr = (b, g', tr')" "fresh_fds os" "\<And>t r w. os_pipe os t = Some (r, w) \<Longrightarrow> r \<notin> L \<and> w \<notin> L"
    and "F \<subseteq> L \<union> open_fds tr"
  shows "(srv_in g' = srv_in g \<or> srv_in g' \<notin> F) \<and> (srv_err g' = srv_err g \<or> srv_err g' \<notin> F)"
proof -
  have new: "r \<notin> F \<and> w \<notin> F" if "os_pipe os t = Some (r, w)" "open_fds tr \<subseteq> open_fds t" for t r w
    using fresh_fdsD(2) [OF assms(2) that(1)] assms(3) [OF that(1)] assms(4) that(2) by blast
  have 2: "r \<notin> F \<and> w \<notin> F" if "os_pipe os (EvPipe (Some (a, d)) # tr) = Some (r, w)" for a d r w
    by (rule new [OF that]) auto
  have 3: "r \<notin> F \<and> w \<notin> F"
    if "os_pipe os (EvPipe (Some (a, d)) # EvPipe (Some (x, y)) # tr) = Some (r, w)" for a d x y r w
    by (rule new [OF that]) auto
  show ?thesis
    using assms(1) 2 3
    by (auto simp: cgi_init_def Let_def close_pipe_def split: option.splits if_splits)
qed

lemma ends_avoid_accounted:
  assumes "accounted os u" "os_ok os" "fresh_fds os"
    and "\<And>t r w. os_pipe os t = Some (r, w) \<Longrightarrow> r \<notin> L \<and> w \<notin> L" "F \<subseteq> L \<union> owned_fds u"
  shows "ends_avoid os c F u"
proof -
  have "F \<subseteq> L \<union> open_fds (st_trace u)" using owned_open [OF assms(1-3)] assms(5) by blast
  then show ?thesis using cgi_init_new_ends [OF _ assms(3,4)] by (auto simp: ends_avoid_def)
qed

text \<open>The other connections keep their descriptors while this one is served.\<close>

lemma owned_live:
  assumes "live sock ssl s c u" "has_fds (conn_fds k) c u" "get_conn c s = Some k"
  shows "owned_fds s \<subseteq> owned_fds u"
proof
  fix f
  assume "f \<in> owned_fds s"
  then obtain d m where d: "st_heap s d = Some m" "f \<in> set (conn_fds m)" by (auto simp: owned_fds_def ran_def)
  show "f \<in> owned_fds u"
  proof (cases "d = c")
    case True
    then show ?thesis using assms(2,3) d by (auto simp: owned_fds_def has_fds_def ran_def get_conn_def)
  next
    case False
    then have "st_heap u d = Some m" using assms(1) d(1) by (simp add: live_def)
    then show ?thesis using d(2) by (auto simp: owned_fds_def ran_def)
  qed
qed

lemma serve_conn_keeps_waiting:
  assumes p: "pool_ok sock ssl s" and os: "os_ok os" "conf_ok conf" "fresh_fds os"
      "\<And>t r w. os_pipe os t = Some (r, w) \<Longrightarrow> {r, w} \<inter> {sock, ssl} = {}"
    and acc: "accounted os s" "read_ready s \<subseteq> {sock, ssl} \<union> owned_fds s"
    and k: "get_conn c s = Some k" "waits k s" "lone k s" "req_phase (conn_req k) = REQ_DONE \<longrightarrow> conn_fd k \<notin> read_ready s"
  shows "post (serve_conn os conf c s) (\<lambda>(alive, s'). alive \<longrightarrow> has waits c s')"
proof (rule serve_conn_waits [OF p os(1,2) k, where A = "\<lambda>u. accounted os u \<and> has_fds (conn_fds k) c u"])
  show "accounted os s \<and> has_fds (conn_fds k) c s" using acc(1) k(1) by (simp add: has_fds_def)
  fix u
  assume u: "accounted os u \<and> has_fds (conn_fds k) c u"
  then show "post (sv_recv os c u) (\<lambda>(alive, u'). alive \<longrightarrow> accounted os u' \<and> has_fds (conn_fds k) c u')"
    by (intro post_mono [OF post_conj [OF accounted_recv sv_recv_fds]]) auto
  show "post (sv_logerr os c u) (\<lambda>u. accounted os u \<and> has_fds (conn_fds k) c u)"
    using u by (intro post_conj accounted_logerr sv_logerr_fds) auto
  show "post (sv_prepare os conf c u) (\<lambda>u. accounted os u \<and> has_fds (conn_fds k) c u)"
    using u os(1) by (intro post_conj accounted_prepare sv_prepare_fds) auto
  assume lv: "live sock ssl s c u"
  have "conn_fd k \<in> owned_fds s" using k(1) by (auto simp: owned_fds_def ran_def get_conn_def conn_fds_def)
  then have F: "insert (conn_fd k) (read_ready s) \<subseteq> {sock, ssl} \<union> owned_fds u"
    using acc(2) owned_live [OF lv _ k(1)] u by blast
  show "ends_avoid os c (insert (conn_fd k) (read_ready s)) u"
    by (rule ends_avoid_accounted [OF conjunct1 [OF u] os(1,3) _ F]) (use os(4) in auto)
qed

end
