(* ===== verification/Flow_Props.thy ===== *)
theory Flow_Props
  imports Served_Cgi Mappings Turn_Fds
begin

text \<open>
  Across turns: what the server watches for a connection, the case in which it watches nothing, and
  the account of the file mappings.
\<close>

section \<open>A client that connects first and sends its request then\<close>

definition map_os :: os where
  "map_os = count_os\<lparr>os_select := (\<lambda>tr n r w. Some ({fd \<in> r. fd < n \<and> fd = (if tr = [] then 3 else 5)}, {}))\<rparr>"

lemma map_os_ok: "os_ok map_os"
  using count_os_ok by (auto simp: os_ok_def map_os_def)


lemma map_accepts: "\<exists>s k req'. select_turn map_os ex_conf 3 4 ex_server0 = Some s \<and> get_conn 0 s = Some k
    \<and> between k \<and> conn_fd k = 5 \<and> n_conns s = 1 \<and> conns s = [Some 0] \<and> st_trace s \<noteq> [] \<and> mapped_bytes (st_trace s) = 0
    \<and> 5 \<in> read_set s \<and> 5 < max_fd s + 1
    \<and> complete_get (conn_req k) ex_lines req' \<and> cstr (req_uri req') = ''/a.html''
    \<and> waits k s \<and> cgi_phase (conn_cgi k) = CGI_IDLE \<and> cgi_buf_phase (conn_cgi k) = BUF_RECV \<and> srv_in (conn_cgi k) = -1"
proof -
  have "(case select_turn map_os ex_conf 3 4 ex_server0 of None \<Rightarrow> False
    | Some s \<Rightarrow> (case get_conn 0 s of None \<Rightarrow> False
      | Some k \<Rightarrow> between k \<and> conn_fd k = 5 \<and> n_conns s = 1 \<and> conns s = [Some 0] \<and> st_trace s \<noteq> [] \<and> mapped_bytes (st_trace s) = 0
         \<and> 5 \<in> read_set s \<and> 5 < max_fd s + 1
         \<and> (case parse_spec (conn_req k) ex_lines of None \<Rightarrow> False
            | Some (n, req') \<Rightarrow> complete_get (conn_req k) ex_lines req' \<and> cstr (req_uri req') = ''/a.html'')
         \<and> waits k s \<and> cgi_phase (conn_cgi k) = CGI_IDLE \<and> cgi_buf_phase (conn_cgi k) = BUF_RECV
         \<and> srv_in (conn_cgi k) = -1))"
    by code_simp
  then show ?thesis by (auto split: option.splits)
qed

text \<open>The connection's part of the turn in which its request arrives.\<close>

lemma map_receives:
  assumes "pool_ok 3 4 s" "get_conn 0 s = Some k" "between k" "conn_fd k = 5" "complete_get (conn_req k) ex_lines req'"
      "cstr (req_uri req') = ''/a.html''" "read_ready s = {5}" "write_ready s = {}"
    and tr: "tr = EvRecv 5 BUFSZ (Some (join_lines ex_lines)) # st_trace s"
  shows "\<exists>k' s'. serve_conn map_os ex_conf 0 s = Some (True, s') \<and> get_conn 0 s' = Some k'
    \<and> st_trace s' = map_calls ''www/a.html'' ex_stat (next_fd tr) ''xxxxx'' tr"
proof -
  have r: "os_recv map_os (st_trace s) (conn_fd k) BUFSZ = Some (join_lines ex_lines)"
    by (simp add: ex_lines_join map_os_def count_os_def ex_os_def ex_get_def CRLF_def BUFSZ_def)
  have p: "''www/a.html'' = take REQ_URISZ (cstr (conf_www ex_conf)) @ cstr (req_uri req')"
    by (simp add: assms(6) ex_conf_www REQ_URISZ_def)
  have m: "mapped_at map_os tr ''www/a.html'' ex_stat (next_fd tr) ''xxxxx''"
    using ex_mapped [of tr] next_pos by (simp add: mapped_at_def map_os_def count_os_def ex_os_def)
  have f: "conn_fd k \<in> read_ready s" "conn_fd k \<notin> write_ready s" using assms by simp_all
  have t: "tr = EvRecv (conn_fd k) BUFSZ (Some (join_lines ex_lines)) # st_trace s" using tr assms(4) by simp
  show ?thesis
    using first_turn [OF assms(1) map_os_ok ex_conf_ok(1) assms(2,3) f r assms(5) p t m ex_stat_size] by blast
qed

section \<open>A turn keeps the connection going\<close>



section \<open>A request behind the answer of a CGI program\<close>

definition piped_req :: "conn_t \<Rightarrow> req_t" where
  "piped_req k = (req_reset (conn_req k))\<lparr>req_last_buf := buf_reset (req_last_buf (conn_req k))\<rparr>"

lemma load_whole:
  assumes k: "length (data (conn_buf k)) \<le> BUFSZ + 1" "data_p (conn_buf k) = 0" "req_phase (conn_req k) = REQ_START"
      "cgi_phase (conn_cgi k) = CGI_IDLE"
    and lb: "buf_ok (req_last_buf (conn_req k))" "data_p (req_last_buf (conn_req k)) = 0"
      "unread (req_last_buf (conn_req k)) = join_lines ls @ rest"
    and g: "whole_request ((conn_req k)\<lparr>req_last_buf := buf_reset (req_last_buf (conn_req k))\<rparr>) ls rest n req'"
  shows "sz (req_last_buf (conn_req k)) \<noteq> 0 \<and> (\<exists>k1. load_piped k = Some k1
    \<and> (\<exists>k2. cn_parse_req err_cb c 0 (put_conn c k1 s) = Some (1, put_conn c k2 s) \<and> got_conn k req' k2))"
proof -
  let ?lb = "req_last_buf (conn_req k)"
  define t where "t = join_lines ls @ rest"
  have t: "length t = nat (sz ?lb)" "take (nat (sz ?lb)) (data ?lb) = t" "nat (sz ?lb) \<le> length (data ?lb)" "0 \<le> sz ?lb"
      "length t \<le> BUFSZ"
    using lb unfolding t_def by (auto simp: unread_def buf_ok_def simp del: take_append simp flip: lb(3))
  have ne: "t \<noteq> []" using last_join_lines [of ls] g by (simp add: whole_request_def t_def)
  obtain buf where b: "buf_write 0 t ((conn_buf k)\<lparr>sz := sz ?lb\<rparr>) = Some buf" "sz buf = sz ?lb" "data_p buf = 0"
      "take (length t) (data buf) = t" "length t \<le> length (data buf)"
    using buf_write_base [of "(conn_buf k)\<lparr>sz := sz ?lb\<rparr>" t] k t(5) by auto
  let ?k1 = "k\<lparr>conn_buf := buf, conn_req := (conn_req k)\<lparr>req_last_buf := buf_reset ?lb\<rparr>\<rparr>"
  have l: "load_piped k = Some ?k1" using t b(1) by (simp add: load_piped_def buf_slice_def Let_def)
  let ?k2 = "?k1\<lparr>conn_req := req', conn_buf := (conn_buf ?k1)\<lparr>data_p := n\<rparr>\<rparr>"
  have p: "parse_lines_of ?k1 0 = Some (None, ?k2) \<and> req_rsize req' = req_clen req' \<and> 0 \<le> req_clen req'
      \<and> (req_ok (conn_req ?k1) \<longrightarrow> req_ok req')"
    by (rule parse_lines_of_whole [where m = "length t"]) (use b k g t in \<open>simp_all flip: t_def\<close>)
  have w: "int n + req_clen req' = int (length t)" "req_phase req' = REQ_BODY" using g by (simp_all add: whole_request_def t_def)
  obtain k3 where k3: "body_step ?k2 = Some k3" "got_conn ?k2 req' k3"
    using body_step_whole [of ?k2] w p b(2) t(1,4) k(4) by (auto simp: buf_rsize_def)
  have "cn_parse_req err_cb c 0 (put_conn c ?k1 s) = Some (1, put_conn c k3 s)"
    using conjunct1 [OF p] k3(1) by (simp add: cn_parse_req_def)
  moreover have "got_conn k req' k3" using k3(2) by (simp add: got_conn_def split: req_kind.splits)
  moreover have "sz ?lb \<noteq> 0" using ne t(1) by auto
  ultimately show ?thesis using l by blast
qed

text \<open>The reset at the end of such an answer.\<close>

lemma reset_loads_piped:
  assumes k: "get_conn c s = Some k" "conn_ok k" "fd_ok (conn_fd k)" "req_alive (conn_req k)"
      "srv_in (conn_cgi k) < 0" "srv_err (conn_cgi k) < FD_SETSIZE"
    and lb: "data_p (req_last_buf (conn_req k)) = 0" "unread (req_last_buf (conn_req k)) = join_lines ls @ rest"
    and g: "whole_request (piped_req k) ls rest n req'"
  shows "\<exists>v k'. liso_reset_or_close c s = Some (1, v) \<and> get_conn c v = Some k' \<and> write_ready v = write_ready s
    \<and> conn_fd k' = conn_fd k \<and> conn_req k' = done_req req' \<and> cgi_buf_phase (conn_cgi k') = BUF_RECV
    \<and> resp_phase (conn_resp k') \<in> {RESP_READY, RESP_DISABLED} \<and> conn_fd k \<notin> read_set v"
proof -
  obtain s1 g1 where s1: "pl_reset_conn c s = Some (1, s1)" "cgi_phase g1 = CGI_IDLE" "cgi_buf_phase g1 = BUF_RECV"
      "write_ready s1 = write_ready s" "get_conn c s1 = Some (k\<lparr>conn_buf := buf_reset (conn_buf k),
        conn_req := req_reset (conn_req k), conn_resp := resp_clear (conn_resp k), conn_cgi := g1\<rparr>)"
    using reset_after_cgi [OF k(1,3,5,6), of 0] by auto
  let ?m = "k\<lparr>conn_buf := buf_reset (conn_buf k), conn_req := req_reset (conn_req k),
        conn_resp := resp_clear (conn_resp k), conn_cgi := g1\<rparr>"
  have rr: "req_last_buf (req_reset r) = req_last_buf r" "req_phase (req_reset r) = REQ_START" for r
    by (simp_all add: req_reset_def)
  have ok: "buf_ok (req_last_buf (conn_req k))" "length (data (conn_buf k)) \<le> BUFSZ + 1"
    using k(2) by (simp_all add: conn_ok_def data_ok_def req_ok_def)
  obtain k1 k2 where k2: "load_piped ?m = Some k1"
      "cn_parse_req liso_conn_err c 0 (put_conn c k1 s1) = Some (1, put_conn c k2 s1)" "got_conn ?m req' k2"
    and nz: "sz (req_last_buf (conn_req k)) \<noteq> 0"
    using load_whole [of ?m ls rest n req' liso_conn_err c s1] lb g ok s1(2) by (auto simp: rr piped_req_def)
  have e: "conn_fd k2 = conn_fd k" "conn_req k2 = done_req req'" "cgi_buf_phase (conn_cgi k2) = BUF_RECV"
      "resp_phase (conn_resp k2) \<in> {RESP_READY, RESP_DISABLED}"
    using k2(3) s1(3) by (auto simp: got_conn_def resp_clear_def split: req_kind.splits)
  define v where "v = (put_conn c k2 s1)\<lparr>read_set := read_set s1 - {conn_fd k},
    write_set := insert (conn_fd k) (write_set s1)\<rparr>"
  have "liso_reset_or_close c s = Some (1, v)"
    using k(1,3,4) s1(1,5) k2(1,2) nz e
    by (simp add: liso_reset_or_close_def rr clr_fd_read_def set_fd_write_def v_def)
  then show ?thesis
    using e s1(4) by (intro exI [of _ v] exI [of _ k2]) (simp add: v_def get_conn_def put_conn_def)
qed

text \<open>The turn in which nothing is read: only the last two steps act.\<close>

lemma last_turn:
  assumes "get_conn c s = Some k" "fd_ok (conn_fd k)"
    and "req_phase (conn_req k) = REQ_DONE" "req_type (conn_req k) = REQ_DYNAMIC" "cgi_phase (conn_cgi k) = CGI_DONE"
    and "srv_in (conn_cgi k) < 0" "srv_err (conn_cgi k) < FD_SETSIZE" "srv_err (conn_cgi k) \<notin> read_ready s"
    and "conn_fd k \<notin> read_ready s" "u = s\<lparr>read_set := read_set s - {conn_fd k}\<rparr>"
  shows "serve_conn os conf c s = do {
      (alive, s) \<leftarrow> sv_send_dynamic os c u; if \<not> alive then Some (False, s) else sv_static os c s }"
proof -
  note a = assms
  have 1: "sv_recv os c s = Some (True, s)" using a by (simp add: sv_recv_def isset_read_def)
  have 2: "sv_logerr os c s = Some s" using a by (simp add: sv_logerr_def isset_read_def fd_ok_def)
  have 3: "sv_prepare os conf c s = Some s" using a by (simp add: sv_prepare_def)
  have 4: "sv_init_cgi os c s = Some s" using a by (simp add: sv_init_cgi_def)
  have 5: "sv_select_sets c s = Some u" using a by (simp add: sv_select_sets_def clr_fd_read_def)
  have u: "get_conn c u = Some k" "read_ready u = read_ready s" using a(1,10) by (simp_all add: get_conn_def)
  have 6: "sv_to_cgi os c u = Some u" using a u by (simp add: sv_to_cgi_def)
  have 7: "sv_from_cgi os c u = Some u" using a u by (simp add: sv_from_cgi_def)
  have 8: "sv_dynamic os c u = sv_send_dynamic os c u" using a(4) u(1) 7 by (simp add: sv_dynamic_def)
  show ?thesis by (simp add: serve_conn_def 1 2 3 4 5 6 8)
qed

text \<open>C31: when the answer of a CGI program ends while a complete request waits in \<open>last_buf\<close>, the
  reset loads and parses that request, stops reading and asks for the client to be writable; but
  the code after the call, which means the response that has just ended, takes that back. After
  the turn the server watches nothing for the connection, neither for reading nor for writing,
  though a complete request, for a file or for a program, is there to be answered.\<close>

theorem piped_after_cgi_stalls:
  assumes "get_conn c s = Some k" "conn_ok k" "fd_ok (conn_fd k)" "0 < conn_fd k" "req_alive (conn_req k)"
    and "req_phase (conn_req k) = REQ_DONE" "req_type (conn_req k) = REQ_DYNAMIC" "cgi_phase (conn_cgi k) = CGI_DONE"
    and "cgi_buf_phase (conn_cgi k) = BUF_SEND" "buf_rsize (conn_buf k) = 0"
    and "srv_in (conn_cgi k) < 0" "srv_err (conn_cgi k) < FD_SETSIZE" "srv_err (conn_cgi k) \<notin> read_ready s"
    and "conn_fd k \<notin> read_ready s" "conn_fd k \<in> write_ready s"
    and "data_p (req_last_buf (conn_req k)) = 0" "unread (req_last_buf (conn_req k)) = join_lines ls @ rest"
    and "whole_request (piped_req k) ls rest n req'"
  shows "\<exists>s' k'. serve_conn os conf c s = Some (True, s') \<and> get_conn c s' = Some k' \<and> conn_fd k' = conn_fd k
    \<and> conn_req k' = done_req req' \<and> conn_fd k \<notin> read_set s' \<union> write_set s'"
proof -
  note a = assms
  define u where "u = s\<lparr>read_set := read_set s - {conn_fd k}\<rparr>"
  have u: "get_conn c u = Some k" "write_ready u = write_ready s" using a(1) by (simp_all add: u_def get_conn_def)
  obtain v k' where v: "liso_reset_or_close c u = Some (1, v)" "get_conn c v = Some k'" "write_ready v = write_ready s"
      "conn_fd k' = conn_fd k" "conn_req k' = done_req req'" "cgi_buf_phase (conn_cgi k') = BUF_RECV"
      "resp_phase (conn_resp k') \<in> {RESP_READY, RESP_DISABLED}" "conn_fd k \<notin> read_set v"
    using reset_loads_piped [OF u(1) a(2,3,5,11,12,16-18)] u(2) by auto
  define w where "w = v\<lparr>write_set := write_set v - {conn_fd k}\<rparr>"
  have w: "get_conn c w = Some k'" "write_ready w = write_ready s" using v(2,3) by (simp_all add: w_def get_conn_def)
  have send: "sv_send_dynamic os c u = Some (True, w)"
    using a(3,4,8-10,15) u v
    by (simp add: sv_send_dynamic_def isset_write_def cn_serve_dynamic_def Let_def clr_fd_write_def w_def)
  have stat: "sv_static os c w = Some (True, w)"
    using w v(4,5,7) a(3) by (auto simp: sv_static_def isset_write_def cn_serve_static_def)
  have "serve_conn os conf c s = Some (True, w)"
    using last_turn [OF a(1,3,6-8,11-14) u_def, of os conf] send stat by simp
  then show ?thesis using w(1) v(4,5,8) by (intro exI [of _ w] exI [of _ k']) (simp add: w_def)
qed

definition ex_piped :: conn_t where
  "ex_piped = (cn_new 5 0)\<lparr>
     conn_req := req_new\<lparr>req_phase := REQ_DONE, req_type := REQ_DYNAMIC, req_alive := True,
       req_last_buf := \<lparr>sz = int (length ex_get), data = ex_get, data_p = 0\<rparr>\<rparr>,
     conn_resp := resp_new\<lparr>resp_phase := RESP_DISABLED\<rparr>,
     conn_cgi := cgi_new\<lparr>cgi_phase := CGI_DONE, cgi_buf_phase := BUF_SEND\<rparr>\<rparr>"

definition ex_piped_server :: server where
  "ex_piped_server = put_conn 0 ex_piped (ex_server\<lparr>read_ready := {}, write_ready := {5}\<rparr>)"

lemma ex_piped_fields:
  "conn_fd ex_piped = 5 \<and> req_alive (conn_req ex_piped) \<and> req_phase (conn_req ex_piped) = REQ_DONE
    \<and> req_type (conn_req ex_piped) = REQ_DYNAMIC \<and> cgi_phase (conn_cgi ex_piped) = CGI_DONE
    \<and> cgi_buf_phase (conn_cgi ex_piped) = BUF_SEND \<and> buf_rsize (conn_buf ex_piped) = 0
    \<and> srv_in (conn_cgi ex_piped) < 0 \<and> srv_err (conn_cgi ex_piped) < 0
    \<and> data_p (req_last_buf (conn_req ex_piped)) = 0
    \<and> unread (req_last_buf (conn_req ex_piped)) = join_lines ex_lines"
  by code_simp

lemma ex_piped_whole: "\<exists>req'. whole_request (piped_req ex_piped) ex_lines [] (length (join_lines ex_lines)) req'"
proof -
  have "(case parse_spec (piped_req ex_piped) ex_lines of None \<Rightarrow> False
      | Some (n, req') \<Rightarrow> whole_request (piped_req ex_piped) ex_lines [] (length (join_lines ex_lines)) req')"
    by code_simp
  then show ?thesis by (auto split: option.splits)
qed

lemma ex_piped_ok: "conn_ok ex_piped"
proof -
  note cn_new_ok [where fd = 5 and i = 0 and ad = "req_addr req_new" and p = "req_port req_new"]
  moreover have "length ex_get \<le> BUFSZ" by (simp add: ex_get_def CRLF_def BUFSZ_def)
  ultimately show ?thesis
    by (simp add: ex_piped_def conn_ok_def phases_ok_def phases_fit_def data_ok_def cgi_ok_def req_ok_def buf_ok_def
        cn_new_def resp_ok_def)
qed

theorem piped_after_cgi_stalls_witness:
  "\<exists>s' k'. serve_conn ex_os ex_conf 0 ex_piped_server = Some (True, s') \<and> get_conn 0 s' = Some k'
    \<and> req_phase (conn_req k') = REQ_DONE \<and> 5 \<notin> read_set s' \<union> write_set s'"
proof -
  obtain req' where g: "whole_request (piped_req ex_piped) ex_lines [] (length (join_lines ex_lines)) req'"
    using ex_piped_whole by blast
  have s: "get_conn 0 ex_piped_server = Some ex_piped" "read_ready ex_piped_server = {}" "write_ready ex_piped_server = {5}"
    by (simp_all add: ex_piped_server_def)
  have "srv_err (conn_cgi ex_piped) < FD_SETSIZE" using ex_piped_fields by (simp add: FD_SETSIZE_def)
  then show ?thesis
    using piped_after_cgi_stalls [OF s(1) ex_piped_ok _ _ _ _ _ _ _ _ _ _ _ _ _ _ _ g, of ex_os ex_conf] s(2,3) ex_piped_fields
    by (auto simp: fd_ok_def FD_SETSIZE_def)
qed

section \<open>File mappings\<close>

text \<open>The turn that receives the request maps its file.\<close>

lemma map_builds:
  assumes s: "pool_ok 3 4 s" "get_conn 0 s = Some k" "between k" "conn_fd k = 5" "n_conns s = 1" "conns s = [Some 0]"
      "st_trace s \<noteq> []" "mapped_bytes (st_trace s) = 0" "5 \<in> read_set s" "5 < max_fd s + 1"
    and g: "complete_get (conn_req k) ex_lines req'" "cstr (req_uri req') = ''/a.html''"
  shows "\<exists>s'. select_turn map_os ex_conf 3 4 s = Some s' \<and> mapped_bytes (st_trace s') = 5"
proof -
  let ?n = "max_fd s + 1" and ?r = "Some ({5}, {}) :: (fd_set \<times> fd_set) option"
  define u where "u = (log_ev (EvSelect ?n ?r) (pl_ready s))\<lparr>read_ready := {5}, write_ready := {}\<rparr>"
  have sel: "os_select map_os (st_trace s) ?n (read_set s) (write_set s) = ?r"
    using s(7,9,10) by (auto simp: map_os_def)
  have u: "pool_ok 3 4 u" "get_conn 0 u = Some k" "n_conns u = 1" "conns u = [Some 0]"
      "st_trace u = EvSelect ?n ?r # st_trace s" "read_ready u = {5}" "write_ready u = {}"
    using s(1,2,5,6) by (simp_all add: u_def pl_ready_def log_ev_def get_conn_def pool_ok_def slots_ok_def sets_ok_def)
  let ?tr = "EvRecv 5 BUFSZ (Some (join_lines ex_lines)) # st_trace u"
  obtain k' v where v: "serve_conn map_os ex_conf 0 u = Some (True, v)" "get_conn 0 v = Some k'"
      "st_trace v = map_calls ''www/a.html'' ex_stat (next_fd ?tr) ''xxxxx'' ?tr"
    using map_receives [OF u(1,2) s(3,4) g u(6,7) refl] by blast
  have "served 3 4 u 0 (True, v)"
    using postD [OF serve_conn_live [OF live_refl [OF u(1)] map_os_ok ex_conf_ok(1)] v(1)] u(2)
    by (simp add: get_conn_def)
  then have n: "n_conns v = 1" using u(3) by (simp add: live_def)
  have "serve_loop 1 map_os ex_conf 0 (min_max_fd u) u = Some (Some (conn_max_fd k' (min_max_fd u), v))"
    using u(3,4) v(1,2) n
    by (simp add: serve_loop.simps [of "Suc 0"] serve_loop.simps [of 0] conns_get_def)
  then have "serve_all map_os ex_conf u = Some (v\<lparr>max_fd := conn_max_fd k' (min_max_fd u)\<rparr>)"
    by (simp add: serve_all_def u(3))
  moreover have "accept_ready map_os ex_conf fd b u = Some u" if "fd \<in> {3, 4}" for fd b
    using that u(6) by (auto simp: accept_ready_def isset_read_def fd_ok_def FD_SETSIZE_def)
  ultimately have "select_turn map_os ex_conf 3 4 s = Some (v\<lparr>max_fd := conn_max_fd k' (min_max_fd u)\<rparr>)"
    using sel by (simp add: select_turn_def Let_def pl_ready_def log_ev_def u_def)
  moreover have "mapped_bytes (st_trace v) = 5"
    unfolding v(3) using s(8) u(5) by (simp add: map_calls_def ex_stat_def)
  ultimately show ?thesis by simp
qed

text \<open>C29: no file mapping is lost. In every state the running server can reach, the bytes that are
  mapped and not unmapped are those of the files its connections are sending, whatever requests,
  errors and disconnections came before; and when the server stops all of them have been given
  back.\<close>

theorem mappings_accounted:
  assumes "argv_ok argv" "sys_ok sys" "os_ok os" "lisod_reach os sys argv conf (Running p)" "pr_pool p = Some s"
  shows "mapped_bytes (st_trace s) = (\<Sum>c \<in> dom (st_heap s). map_size (resp_mmbuf (conn_resp (the (st_heap s c)))))
    \<and> (\<forall>rc p' s'. lisod_step os sys conf (Running p) (Stopped rc p') \<longrightarrow> pr_pool p' = Some s' \<longrightarrow>
         mapped_bytes (st_trace s') = 0)"
  using reach_account [OF assms] by (simp add: held_all_def held_map)

theorem mappings_accounted_witness:
  "\<exists>p s. lisod_reach map_os ex_sys ex_argv ex_conf (Running p) \<and> pr_pool p = Some s
    \<and> mapped_bytes (st_trace s) = 5
    \<and> (\<Sum>c \<in> dom (st_heap s). map_size (resp_mmbuf (conn_resp (the (st_heap s c))))) = 5"
proof -
  obtain s k req' where s: "select_turn map_os ex_conf 3 4 ex_server0 = Some s" "get_conn 0 s = Some k" "between k"
      "conn_fd k = 5" "n_conns s = 1" "conns s = [Some 0]" "st_trace s \<noteq> []" "mapped_bytes (st_trace s) = 0"
      "5 \<in> read_set s" "5 < max_fd s + 1" "complete_get (conn_req k) ex_lines req'" "cstr (req_uri req') = ''/a.html''"
    using map_accepts by blast
  have "pool_ok 3 4 s"
    using postD [OF select_turn_ok [of 3 4 ex_server0 map_os ex_conf] s(1)] ex_server0_ok map_os_ok ex_conf_ok(1) by blast
  from map_builds [OF this s(2-12)] obtain s' where s': "select_turn map_os ex_conf 3 4 s = Some s'"
      "mapped_bytes (st_trace s') = 5" by blast
  obtain p where p: "lisod_reach map_os ex_sys ex_argv ex_conf (Running p)" "pr_pool p = Some s'"
    using ex_two_turns [OF s(1) s'(1)] by blast
  from mappings_accounted [OF ex_argv_ok ex_sys_ok map_os_ok p] p s'(2) show ?thesis by metis
qed

end
