(* ===== verification/Cgi_Props.thy ===== *)
theory Cgi_Props
  imports Examples
begin

text \<open>
  The CGI program's side: the six pipe ends and where they are closed, and the environment with its
  fixed number of slots.
\<close>

section \<open>Pipe ends\<close>

definition cgi_ends :: "cgi_t \<Rightarrow> int set" where
  "cgi_ends g = {srv_out g, srv_in g, cgi_in g, cgi_out g, srv_err g, cgi_err g} \<inter> {0..}"

lemma close_pipe_spec:
  "close_pipe fd tr = (fd', tr') \<Longrightarrow> fd' < 0 \<and> open_fds tr' = open_fds tr - ({fd} \<inter> {0..})"
  by (auto simp: close_pipe_def split: if_splits)

text \<open>Resetting a CGI record closes every pipe end that is open, and nothing else.\<close>

lemma cgi_reset_closes_all:
  assumes "cgi_reset g tr = (g', tr')"
  shows "cgi_ends g' = {} \<and> open_fds tr' = open_fds tr - cgi_ends g
    \<and> cgi_phase g' = CGI_IDLE \<and> cgi_buf_phase g' = BUF_RECV"
proof -
  obtain so t1 where 1: "close_pipe (srv_out g) tr = (so, t1)" by (cases "close_pipe (srv_out g) tr")
  obtain si t2 where 2: "close_pipe (srv_in g) t1 = (si, t2)" by (cases "close_pipe (srv_in g) t1")
  obtain ci t3 where 3: "close_pipe (cgi_in g) t2 = (ci, t3)" by (cases "close_pipe (cgi_in g) t2")
  obtain co t4 where 4: "close_pipe (cgi_out g) t3 = (co, t4)" by (cases "close_pipe (cgi_out g) t3")
  obtain se t5 where 5: "close_pipe (srv_err g) t4 = (se, t5)" by (cases "close_pipe (srv_err g) t4")
  obtain ce t6 where 6: "close_pipe (cgi_err g) t5 = (ce, t6)" by (cases "close_pipe (cgi_err g) t5")
  note sp = close_pipe_spec [OF 1] close_pipe_spec [OF 2] close_pipe_spec [OF 3]
    close_pipe_spec [OF 4] close_pipe_spec [OF 5] close_pipe_spec [OF 6]
  have "tr' = t6" and g': "g' = g\<lparr>cgi_phase := CGI_IDLE, srv_out := so, srv_in := si, cgi_in := ci,
      cgi_out := co, srv_err := se, cgi_err := ce, cgi_buf_phase := BUF_RECV\<rparr>"
    using assms by (simp_all add: cgi_reset_def 1 2 3 4 5 6)
  then show ?thesis using sp by (auto simp: cgi_ends_def)
qed

lemma cgi_reset_closes_two:
  "\<exists>g' tr'. cgi_reset (cgi_new\<lparr>srv_out := 8, srv_in := 9\<rparr>) [EvPipe (Some (9, 8))] = (g', tr')
    \<and> cgi_ends g' = {} \<and> open_fds tr' = {}"
proof -
  obtain g' tr' where r: "cgi_reset (cgi_new\<lparr>srv_out := 8, srv_in := 9\<rparr>) [EvPipe (Some (9, 8))] = (g', tr')"
    by (cases "cgi_reset (cgi_new\<lparr>srv_out := 8, srv_in := 9\<rparr>) [EvPipe (Some (9, 8))]")
  have "cgi_ends (cgi_new\<lparr>srv_out := 8, srv_in := 9\<rparr>) = {8, 9}"
    by (auto simp: cgi_ends_def cgi_new_def cgi_reset_def close_pipe_def)
  with cgi_reset_closes_all [OF r] r show ?thesis by auto
qed

text \<open>The contract of \<open>pipe\<close>: two new descriptors.\<close>

definition fresh_pipes :: "os \<Rightarrow> bool" where
  "fresh_pipes os \<longleftrightarrow> (\<forall>tr r w. os_pipe os tr = Some (r, w) \<longrightarrow>
     r \<noteq> w \<and> r \<notin> open_fds tr \<and> w \<notin> open_fds tr)"

text \<open>C33: when a CGI program is started, the server keeps exactly its three ends of the pipes open,
  the two it will \<open>select\<close> on are in range, and the child's three ends are closed.\<close>

theorem cgi_init_started:
  assumes "os_ok os" "fresh_pipes os" "cgi_init os g tr = (True, g', tr')"
  shows "cgi_phase g' = CGI_SRV_TO_CGI \<and> open_fds tr' = open_fds tr \<union> {srv_out g', srv_in g', srv_err g'}
    \<and> {srv_out g', srv_in g', srv_err g'} \<inter> open_fds tr = {}
    \<and> fd_ok (srv_in g') \<and> fd_ok (srv_err g') \<and> 0 \<le> srv_out g'
    \<and> cgi_in g' < 0 \<and> cgi_out g' < 0 \<and> cgi_err g' < 0"
proof -
  obtain r1 w1 where p1: "os_pipe os tr = Some (r1, w1)"
    using assms(3) by (auto simp: cgi_init_def Let_def split: option.splits)
  let ?t1 = "EvPipe (Some (r1, w1)) # tr"
  obtain r2 w2 where p2: "os_pipe os ?t1 = Some (r2, w2)"
    using assms(3) by (auto simp: cgi_init_def Let_def p1 split: option.splits)
  let ?t2 = "EvPipe (Some (r2, w2)) # ?t1"
  obtain r3 w3 where p3: "os_pipe os ?t2 = Some (r3, w3)"
    using assms(3) by (auto simp: cgi_init_def Let_def p1 p2 split: option.splits)
  let ?t3 = "EvPipe (Some (r3, w3)) # ?t2"
  have pos: "0 \<le> r1" "0 \<le> w1" "0 \<le> r2" "0 \<le> w2" "0 \<le> r3" "0 \<le> w3"
    using os_okD(6) [OF assms(1)] p1 p2 p3 by blast+
  have new: "r1 \<noteq> w1" "r1 \<notin> open_fds tr" "w1 \<notin> open_fds tr"
    "r2 \<noteq> w2" "r2 \<notin> open_fds ?t1" "w2 \<notin> open_fds ?t1" "r3 \<noteq> w3" "r3 \<notin> open_fds ?t2" "w3 \<notin> open_fds ?t2"
    using assms(2) p1 p2 p3 unfolding fresh_pipes_def by blast+
  have sz: "\<not> (FD_SETSIZE \<le> r2 \<or> FD_SETSIZE \<le> r3)"
    using assms(3) by (auto simp: cgi_init_def Let_def p1 p2 p3)
  obtain pid where f: "os_fork os ?t3 = Some pid"
    using assms(3) sz by (auto simp: cgi_init_def Let_def p1 p2 p3 split: option.splits)
  have r: "g' = g\<lparr>srv_out := w1, srv_in := r2, srv_err := r3, cgi_pid := Some (int pid), cgi_in := - 1,
        cgi_out := - 1, cgi_err := - 1, cgi_phase := CGI_SRV_TO_CGI\<rparr>"
    "tr' = EvClose w3 # EvClose w2 # EvClose r1 # EvFork (Some pid) # ?t3"
    using assms(3) sz pos by (simp_all add: cgi_init_def Let_def p1 p2 p3 f close_pipe_def)
  show ?thesis using r new pos sz by (auto simp: fd_ok_def)
qed

lemma finite_open_fds: "finite (open_fds tr)"
proof (induction tr)
  case (Cons e tr)
  then show ?case by (cases e) (auto split: option.splits prod.splits)
qed simp

definition pipe_os :: os where
  "pipe_os = ex_os\<lparr>os_pipe := \<lambda>tr. let m = Max (insert 2 (open_fds tr)) in Some (m + 1, m + 2)\<rparr>"

lemma pipe_os_ok: "os_ok pipe_os" "fresh_pipes pipe_os"
proof -
  have m: "x \<le> Max (insert 2 (open_fds tr))" if "x = 2 \<or> x \<in> open_fds tr" for x tr
    using that finite_open_fds by (auto intro: Max_ge)
  have pos: "0 \<le> Max (insert 2 (open_fds tr))" for tr using m [of 2 tr] by simp
  then show "os_ok pipe_os" using ex_os_ok by (auto simp: os_ok_def pipe_os_def Let_def add_nonneg_nonneg)
  show "fresh_pipes pipe_os" using m by (fastforce simp: fresh_pipes_def pipe_os_def Let_def)
qed

theorem cgi_init_started_witness:
  "\<exists>g' tr'. cgi_init pipe_os cgi_new [] = (True, g', tr') \<and> open_fds tr' = {srv_out g', srv_in g', srv_err g'}
    \<and> cgi_in g' < 0"
proof -
  have "fst (cgi_init pipe_os cgi_new [])" by code_simp
  then obtain g' tr' where r: "cgi_init pipe_os cgi_new [] = (True, g', tr')"
    by (cases "cgi_init pipe_os cgi_new []") auto
  from cgi_init_started [OF pipe_os_ok r] r show ?thesis by simp
qed

text \<open>When the third \<open>pipe\<close> fails, the two pipes made before it stay open and are not in the
  record, so no reset will ever close them.\<close>

lemma cgi_init_leaks:
  assumes "os_pipe os tr = Some (r1, w1)" "os_pipe os (EvPipe (Some (r1, w1)) # tr) = Some (r2, w2)"
    and "os_pipe os (EvPipe (Some (r2, w2)) # EvPipe (Some (r1, w1)) # tr) = None"
  shows "\<exists>tr'. cgi_init os g tr = (False, g, tr') \<and> open_fds tr' = open_fds tr \<union> {r1, w1, r2, w2}"
  using assms by (auto simp: cgi_init_def Let_def)

section \<open>The environment\<close>

text \<open>\<open>n\<close> entries, each at most \<open>ENVSZ - 1\<close> bytes.\<close>

definition entries :: "nat \<Rightarrow> string list \<Rightarrow> bool" where
  "entries n envp \<longleftrightarrow> length envp = n \<and> list_all (\<lambda>e. length e < ENVSZ) envp"

lemma add_entry_n: "entries n envp \<Longrightarrow> n < ENVP_CNT \<Longrightarrow> safe (add_entry s envp) (entries (Suc n))"
  by (simp add: add_entry_def entries_def ENVSZ_def)

definition base_count :: "req_t \<Rightarrow> nat" where
  "base_count req = 12 + (if req_params req \<noteq> None then 1 else 0) + (if 0 < req_clen req then 1 else 0)
     + (if req_scheme req = HTTPS then 1 else 0)"

text \<open>A request whose path is below the prefix, on an accepted connection.\<close>

definition cgi_req :: "req_t \<Rightarrow> bool" where
  "cgi_req req \<longleftrightarrow> req_ok req \<and> length PREFIX \<le> length (cstr (req_uri req)) \<and> is_cstr (req_addr req)
     \<and> req_port req \<noteq> None"

lemma entries_nil: "entries 0 []"
  by (simp add: entries_def)

lemma is_cstr_drop:
  assumes "is_cstr m" "n \<le> length (cstr m)"
  shows "is_cstr (drop n m)"
proof -
  obtain r where "m = cstr m @ NUL # r" using assms(1) by (rule is_cstr_split)
  then have "drop n m = drop n (cstr m) @ NUL # r" using assms(2) by (metis drop_append drop_0 diff_is_0_eq)
  then show ?thesis by (simp add: is_cstr_def)
qed

lemma safe_Some: "safe (Some x) P = P x"
  by simp

lemma envp_base_run:
  assumes "cgi_req req"
  shows "safe (envp_base req) (entries (base_count req))"
proof -
  have r: "req_ok req" using assms by (simp add: cgi_req_def)
  then have u: "is_cstr (req_uri req)" and h: "is_cstr (req_host req)"
    using str_ok_cstr by (auto simp: req_ok_def)
  have info: "\<exists>s. cstr_at (req_uri req) (length PREFIX) = Some s"
    using is_cstr_drop [OF u, of "length PREFIX"] assms
    by (subst cstr_at_drop) (simp add: cstr_at_cstr cgi_req_def)
  have q: "\<exists>s. cstr_at (req_uri req) p = Some s" if "req_params req = Some p" for p
    using r that by (subst cstr_at_drop) (simp add: cstr_at_cstr req_ok_def)
  obtain port where port: "req_port req = Some port" using assms by (auto simp: cgi_req_def)
  have ad: "cstr_at (req_addr req) 0 = Some (cstr (req_addr req))"
    using assms by (simp add: cstr_at_cstr cgi_req_def)
  obtain si where si: "cstr_at (req_uri req) (length PREFIX) = Some si" using info by blast
  have us: "cstr_at (req_uri req) 0 = Some (cstr (req_uri req))" "cstr_at (req_host req) 0 = Some (cstr (req_host req))"
    using u h by (simp_all add: cstr_at_cstr)
  note add = safe_bindI [OF add_entry_n]
  let ?q = "if req_params req \<noteq> None then 1 else 0 :: nat"
  let ?c = "if 0 < req_clen req then 1 else 0 :: nat"
  have query: "safe (case req_params req of None \<Rightarrow> Some envp
      | Some p \<Rightarrow> do { q \<leftarrow> cstr_at (req_uri req) p; add_entry (''QUERY_STRING='' @ q) envp })
      (entries (4 + ?q))" if "entries 4 envp" for envp
  proof (cases "req_params req")
    case (Some p)
    then obtain s where "cstr_at (req_uri req) p = Some s" using q by blast
    then show ?thesis using Some add_entry_n [OF that] by (simp add: ENVP_CNT_def)
  qed (use that in simp)
  have clen: "safe (if 0 < req_clen req then add_entry (''CONTENT_LENGTH='' @ show_int (req_clen req)) envp
      else Some envp) (entries (4 + ?q + ?c))" if "entries (4 + ?q) envp" for envp
    using that add_entry_n [OF that] by (simp add: ENVP_CNT_def split: if_splits)
  let ?n = "4 + ?q + ?c"
  have https: "safe (if req_scheme req = HTTPS then add_entry (''HTTPS='' @ ''on'') envp else Some envp)
      (entries (base_count req))" if "entries (?n + 8) envp" for envp
    using that add_entry_n [OF that] by (auto simp: ENVP_CNT_def base_count_def split: if_splits)
  have n: "?n \<le> 6" by simp
  have e: "entries (Suc (Suc (Suc (Suc 0)))) = entries 4" by (simp add: numeral_eq_Suc)
  show ?thesis
    unfolding envp_base_def si us ad port Option.bind.bind_lunit
    apply (rule add [OF entries_nil], simp add: ENVP_CNT_def)
    apply (rule add, assumption, simp add: ENVP_CNT_def)
    apply (rule add, assumption, simp add: ENVP_CNT_def)
    apply (rule add, assumption, simp add: ENVP_CNT_def)
    apply (rule safe_bindI [OF query], simp only: e)
    apply (rule safe_bindI [OF clen], assumption)
    apply (rule add, assumption, use n in \<open>simp add: ENVP_CNT_def\<close>)+
    apply (rule https, simp)
    done
qed

text \<open>The character of a header name in the name of its variable, as a table.\<close>

definition env_char :: "char \<Rightarrow> char" where
  "env_char c =
     (case map_of (zip ''abcdefghijklmnopqrstuvwxyz-'' ''ABCDEFGHIJKLMNOPQRSTUVWXYZ_'') c of
        Some d \<Rightarrow> d
      | None \<Rightarrow> c)"

lemma conv_char_env: "conv_char c = env_char c"
proof -
  have "list_all (\<lambda>c. conv_char c = env_char c) Enum.enum" by code_simp
  then show ?thesis by (simp add: list_all_iff UNIV_enum [symmetric])
qed

lemma env_char_NUL: "env_char c = NUL \<longleftrightarrow> c = NUL"
proof -
  have "char_of (n - 97 + 65 :: nat) \<noteq> NUL" if "97 \<le> n" "n \<le> 122" for n
  proof
    assume "char_of (n - 97 + 65 :: nat) = NUL"
    then have "of_char (char_of (n - 97 + 65 :: nat) :: char) = (0::nat)" by simp
    then show False using that by simp
  qed
  then show ?thesis by (auto simp: conv_char_def simp flip: conv_char_env)
qed

lemma conv_loop_run:
  "no_nul cs \<Longrightarrow> length m = i + 5 \<Longrightarrow> i \<le> HDR_KEYSZ \<Longrightarrow>
    conv_loop cs i (i + 5) m = (if i + length cs < HDR_KEYSZ then Some (m @ map env_char cs @ [NUL]) else None)"
proof (induction cs arbitrary: i m)
  case (Cons c cs)
  have "mem_put (HDR_KEYSZ + 5) (i + 5) [conv_char c] m = Some (m @ [env_char c])" if "i < HDR_KEYSZ"
    using that Cons.prems(2) by (simp add: mem_put_def conv_char_env)
  moreover have "mem_put (HDR_KEYSZ + 5) (i + 5) [NUL] m = None" if "\<not> i < HDR_KEYSZ"
    using that by (simp add: mem_put_def)
  ultimately show ?case
    using Cons.prems Cons.IH [of "m @ [env_char c]" "Suc i"] by (auto simp: no_nul_def)
qed (simp add: mem_put_def)

lemma convert_key_run:
  assumes "no_nul k"
  shows "convert_key k = (if length k < HDR_KEYSZ then Some (''HTTP_'' @ map env_char k) else None)"
proof -
  have m: "mem_put (HDR_KEYSZ + 5) 0 ''HTTP_'' [] = Some ''HTTP_''" by (simp add: mem_put_def)
  have n: "no_nul (''HTTP_'' @ map env_char k)" using assms env_char_NUL by (simp add: no_nul_def image_iff) metis
  have l: "conv_loop k 0 5 ''HTTP_'' = (if length k < HDR_KEYSZ then Some ((''HTTP_'' @ map env_char k) @ NUL # []) else None)"
    using conv_loop_run [OF assms, of "''HTTP_''" 0] by simp
  have "cstr_at ((''HTTP_'' @ map env_char k) @ NUL # []) 0 = Some (''HTTP_'' @ map env_char k)"
    using n by (simp add: cstr_at_cstr cstr_append_NUL del: append.simps append_assoc)
  then show ?thesis
    by (simp only: convert_key_def m l Option.bind.bind_lunit) (simp split: if_split)
qed

text \<open>C35: a header name of up to 511 bytes becomes \<open>HTTP_\<close> and the name with each of the letters
  \<open>a\<close> to \<open>z\<close> in upper case, each dash an underscore and every other byte as it is, all of it and in
  order; a name of the full 512 bytes a header may have (or more) overruns the static array by one.\<close>

theorem convert_key_bound:
  assumes "no_nul k"
  shows "(length k < HDR_KEYSZ \<longrightarrow> convert_key k = Some (''HTTP_'' @ map env_char k))
    \<and> (HDR_KEYSZ \<le> length k \<longrightarrow> convert_key k = None)"
  using convert_key_run [OF assms] by simp

theorem convert_key_bound_witness:
  "convert_key ''aQuick-Brown_Fox09 jumpsoverthelazydogz'' = Some ''HTTP_AQUICK_BROWN_FOX09 JUMPSOVERTHELAZYDOGZ''
    \<and> convert_key (replicate 512 (CHR ''a'')) = None"
proof -
  let ?k = "''aQuick-Brown_Fox09 jumpsoverthelazydogz''"
  have m: "map env_char ?k = ''AQUICK_BROWN_FOX09 JUMPSOVERTHELAZYDOGZ''" by code_simp
  have "length ?k < HDR_KEYSZ" by (simp add: HDR_KEYSZ_def)
  then have 1: "convert_key ?k = Some (''HTTP_'' @ map env_char ?k)"
    using convert_key_bound [of ?k] by simp
  have "no_nul (replicate 512 (CHR ''a''))" by (simp add: no_nul_def)
  from convert_key_bound [OF this] have "convert_key (replicate 512 (CHR ''a'')) = None"
    by (simp add: HDR_KEYSZ_def)
  with 1 show ?thesis unfolding m by simp
qed

text \<open>The loop over the headers stops at the last slot.\<close>

lemma add_hdrs_run:
  assumes "list_all (\<lambda>(k, v). no_nul k \<and> length k < HDR_KEYSZ) hs"
  shows "entries n envp \<Longrightarrow> n \<le> ENVP_CNT \<Longrightarrow> safe (add_hdrs hs envp) (entries (min ENVP_CNT (n + length hs)))"
  using assms
proof (induction hs arbitrary: n envp)
  case (Cons h hs)
  obtain k v where h: "h = (k, v)" by (cases h)
  have k: "no_nul k" "length k < HDR_KEYSZ" using Cons.prems(3) by (simp_all add: h)
  have len: "length envp = n" using Cons.prems(1) by (simp add: entries_def)
  show ?case
  proof (cases "n < ENVP_CNT")
    case True
    have step: "safe (if map tolower k = ''content-type'' then add_entry (''CONTENT_TYPE='' @ v) envp
        else do { key \<leftarrow> convert_key k; add_entry (key @ ''='' @ v) envp }) (entries (Suc n))"
      using add_entry_n [OF Cons.prems(1) True] convert_key_run [OF k(1)] k(2) by simp
    have rest: "safe (add_hdrs hs e) (entries (min ENVP_CNT (n + length (h # hs))))" if "entries (Suc n) e" for e
      using Cons.IH [OF that] True Cons.prems(3) by simp
    show ?thesis
      unfolding h add_hdrs.simps if_P [OF True [folded len]]
      by (rule safe_bindI [OF step]) (use rest in \<open>simp add: h\<close>)
  next
    case False
    then have "n = ENVP_CNT" using Cons.prems(2) by simp
    then show ?thesis using Cons.prems(1) len by (simp add: h)
  qed
qed simp

text \<open>A header name that is too long, or one header too many, before the end.\<close>

lemma add_hdrs_long:
  "list_all (\<lambda>(k, v). no_nul k) hs \<Longrightarrow> \<not> list_all (\<lambda>(k, v). length k < HDR_KEYSZ) hs \<Longrightarrow> entries n envp \<Longrightarrow>
    n \<le> ENVP_CNT \<Longrightarrow> add_hdrs hs envp = None \<or> (\<exists>e. add_hdrs hs envp = Some e \<and> ENVP_CNT \<le> length e)"
proof (induction hs arbitrary: n envp)
  case (Cons h hs)
  obtain k v where h: "h = (k, v)" by (cases h)
  have len: "length envp = n" and k: "no_nul k" using Cons.prems by (simp_all add: entries_def h)
  show ?case
  proof (cases "n < ENVP_CNT")
    case n: True
    show ?thesis
    proof (cases "length k < HDR_KEYSZ")
      case True
      have step: "safe (if map tolower k = ''content-type'' then add_entry (''CONTENT_TYPE='' @ v) envp
          else do { key \<leftarrow> convert_key k; add_entry (key @ ''='' @ v) envp }) (entries (Suc n))"
        using add_entry_n [OF Cons.prems(3) n] convert_key_run [OF k] True by simp
      then obtain e where e: "(if map tolower k = ''content-type'' then add_entry (''CONTENT_TYPE='' @ v) envp
          else do { key \<leftarrow> convert_key k; add_entry (key @ ''='' @ v) envp }) = Some e" "entries (Suc n) e"
        by (auto simp: safe_def)
      show ?thesis
        unfolding h add_hdrs.simps if_P [OF n [folded len]] e(1) Option.bind.bind_lunit
        by (rule Cons.IH [OF _ _ e(2)]) (use Cons.prems True n in \<open>simp_all add: h\<close>)
    next
      case False
      have "map tolower k \<noteq> ''content-type''"
      proof
        assume "map tolower k = ''content-type''"
        then have "length k = length ''content-type''" by (metis length_map)
        then show False using False by (simp add: HDR_KEYSZ_def)
      qed
      then show ?thesis using False n len convert_key_run [OF k] by (simp add: h)
    qed
  qed (use len in \<open>simp add: h\<close>)
qed simp

text \<open>C36: the environment of a CGI program is built exactly when every header name is shorter than
  512 bytes and the fixed entries, the headers and the final \<open>NULL\<close> fit the 64 slots: a longer name
  overruns the array of \<open>convert_key\<close>, and with one header more the \<open>NULL\<close> is written past the
  slots. When it is built, it has one entry per variable and header, none longer than the line
  buffer.\<close>

theorem environment_fits:
  assumes "cgi_req req"
  shows "(if base_count req + length (req_hdrs req) < ENVP_CNT \<and> list_all (\<lambda>(k, v). length k < HDR_KEYSZ) (req_hdrs req)
     then \<exists>envp. envp_new req = Some envp \<and> length envp = base_count req + length (req_hdrs req)
       \<and> list_all (\<lambda>e. length e < ENVSZ) envp
     else envp_new req = None)"
proof -
  have b: "base_count req \<le> ENVP_CNT" by (simp add: base_count_def ENVP_CNT_def)
  have nul: "list_all (\<lambda>(k, v). no_nul k) (req_hdrs req)"
    using assms by (auto simp: cgi_req_def req_ok_def hdr_ok_def list_all_iff)
  obtain e0 where e0: "envp_base req = Some e0" "entries (base_count req) e0"
    using envp_base_run [OF assms(1)] by (auto simp: safe_def)
  show ?thesis
  proof (cases "list_all (\<lambda>(k, v). length k < HDR_KEYSZ) (req_hdrs req)")
    case True
    then have "list_all (\<lambda>(k, v). no_nul k \<and> length k < HDR_KEYSZ) (req_hdrs req)"
      using nul by (auto simp: list_all_iff)
    from add_hdrs_run [OF this e0(2) b] obtain e1 where "add_hdrs (req_hdrs req) e0 = Some e1"
        "entries (min ENVP_CNT (base_count req + length (req_hdrs req))) e1"
      by (auto simp: safe_def)
    then show ?thesis using e0(1) True by (auto simp: envp_new_def entries_def min_def)
  next
    case False
    have "envp_new req = None" using add_hdrs_long [OF nul False e0(2) b] e0(1) by (auto simp: envp_new_def)
    then show ?thesis using False by simp
  qed
qed

definition ex_cgi_req :: "nat \<Rightarrow> req_t" where
  "ex_cgi_req n = req_new\<lparr>req_uri := lit ''/cgi/x'', req_addr := lit ''10.0.0.1'', req_port := Some 8080,
     req_hdrs := replicate n (''Accept'', ''*'')\<rparr>"

lemma ex_cgi_req_ok:
  "cgi_req (ex_cgi_req n)" "list_all (\<lambda>(k, v). length k < HDR_KEYSZ) (req_hdrs (ex_cgi_req n))"
  "base_count (ex_cgi_req n) = 12" "length (req_hdrs (ex_cgi_req n)) = n"
proof -
  have p: "req_params req_new = None" "req_clen req_new = - 1" "req_scheme req_new = HTTP"
    by (simp_all add: req_new_def req_reset_def)
  show "cgi_req (ex_cgi_req n)"
    using req_ok_new p
    by (simp add: cgi_req_def ex_cgi_req_def req_ok_def str_ok_def PREFIX_def list_all_iff hdr_ok_def
        HDR_KEYSZ_def HDR_VALSZ_def REQ_URISZ_def) (simp add: lit_def)
  show "list_all (\<lambda>(k, v). length k < HDR_KEYSZ) (req_hdrs (ex_cgi_req n))"
    by (simp add: ex_cgi_req_def list_all_iff HDR_KEYSZ_def)
  show "base_count (ex_cgi_req n) = 12" "length (req_hdrs (ex_cgi_req n)) = n"
    using p by (simp_all add: base_count_def ex_cgi_req_def)
qed

theorem environment_fits_witness:
  "(\<exists>envp. envp_new (ex_cgi_req 51) = Some envp \<and> length envp = 63) \<and> envp_new (ex_cgi_req 52) = None"
  using environment_fits [OF ex_cgi_req_ok(1), of 51] environment_fits [OF ex_cgi_req_ok(1), of 52]
  by (auto simp: ex_cgi_req_ok ENVP_CNT_def)

end
