(* ===== verification/Request_Props.thy ===== *)
theory Request_Props
  imports Request_Inv
begin

text \<open>
  The properties of the request parser: it is the reference parser, it is memory safe on the
  inputs that spare its unchecked copies (and not on the others), it does not matter how the lines
  of a request are cut into buffers, and its statuses and phases agree.
\<close>

section \<open>When the reference parser is defined\<close>

definition short_host :: "string \<Rightarrow> bool" where
  "short_host l =
     (case split_header l of
        HField k v \<Rightarrow> map tolower k = ''host'' \<longrightarrow> length v \<le> REQ_HOSTSZ
      | _ \<Rightarrow> True)"

lemma line_step_None: "line_step req l = None \<longleftrightarrow> \<not> short_host l"
  by (auto simp: line_step_def short_host_def apply_field_def split: hline.splits)

lemma parse_lines_defined: "\<forall>l \<in> set ls. short_host l \<Longrightarrow> parse_lines req ls n \<noteq> None"
proof (induction ls arbitrary: req n)
  case (Cons l ls)
  then obtain st req' where "line_step req l = Some (st, req')"
    using line_step_None [of req l] by (cases "line_step req l") auto
  then show ?case using Cons by (cases st) auto
qed simp

lemma parse_spec_defined:
  assumes "\<forall>l \<in> set ls. short_host l"
  shows "parse_spec req ls \<noteq> None"
proof (cases "req_phase req")
  case REQ_START
  have "\<forall>l \<in> set (tl ls). short_host l" using assms by (cases ls) auto
  then show ?thesis using REQ_START parse_lines_defined [of "tl ls"]
    by (auto simp: parse_spec_def split: prod.splits option.splits)
qed (use assms parse_lines_defined in \<open>auto simp: parse_spec_def\<close>)

section \<open>Cutting the lines\<close>

definition shift_rc :: "nat \<Rightarrow> int \<times> req_t \<Rightarrow> int \<times> req_t" where
  "shift_rc n = (\<lambda>(rc, req). (if rc < 0 then rc else int n + rc, req))"

lemma line_step_exit:
  "line_step req l = Some (st, req') \<Longrightarrow> header_exit req st req'"
  by (auto simp: line_step_def apply_field_def header_exit_def finish_header_def Let_def
      split: hline.splits if_splits)

lemma parse_lines_shift:
  "req_phase req = REQ_HEADER \<Longrightarrow> parse_lines req ls (m + n) = map_option (shift_rc m) (parse_lines req ls n)"
proof (induction ls arbitrary: req n)
  case (Cons l ls)
  show ?case
  proof (cases "line_step req l")
    case (Some sr)
    obtain st req' where sr: "sr = (st, req')" by (cases sr)
    note ex = line_step_exit [OF Some [unfolded sr]]
    show ?thesis
    proof (cases st)
      case (Ret rc)
      then show ?thesis using Some sr ex by (auto simp: shift_rc_def header_exit_def)
    next
      case Stop
      then show ?thesis using Some sr by (simp add: shift_rc_def)
    next
      case Next
      then have "req_phase req' = REQ_HEADER" using ex Cons.prems by (simp add: header_exit_def)
      from Cons.IH [OF this, of "n + Suc (length l)"] show ?thesis
        using Some sr Next by (simp add: add.assoc)
    qed
  qed simp
qed (simp add: shift_rc_def)

lemma parse_lines_append:
  assumes "parse_lines req as n = Some (rc, req1)" "0 \<le> rc" "req_phase req1 = REQ_HEADER"
    "req_phase req = REQ_HEADER"
  shows "rc = int (n + length (join_lines as))
    \<and> parse_lines req (as @ bs) n = parse_lines req1 bs (n + length (join_lines as))"
  using assms
proof (induction as arbitrary: req n)
  case (Cons l ls)
  then obtain st req' where st: "line_step req l = Some (st, req')"
    by (cases "line_step req l") auto
  note ex = line_step_exit [OF st]
  show ?case
  proof (cases st)
    case (Ret rc')
    then show ?thesis using Cons.prems st ex by (auto simp: header_exit_def)
  next
    case Stop
    then show ?thesis using Cons.prems st ex by (auto simp: header_exit_def)
  next
    case Next
    then have h: "req_phase req' = REQ_HEADER" using ex Cons.prems(4) by (simp add: header_exit_def)
    have "parse_lines req' ls (n + Suc (length l)) = Some (rc, req1)"
      using Cons.prems(1) st Next by simp
    from Cons.IH [OF this Cons.prems(2,3) h] show ?thesis using st Next by (simp add: add.assoc)
  qed
qed simp

lemma parse_spec_append:
  assumes "parse_spec req as = Some (rc, req1)" "0 \<le> rc" "req_phase req1 = REQ_HEADER"
    and "req_phase req \<le> REQ_HEADER" "as \<noteq> []"
  shows "parse_spec req (as @ bs) = map_option (shift_rc (nat rc)) (parse_spec req1 bs)"
proof (cases "req_phase req")
  case REQ_HEADER
  with assms(1) have a: "parse_lines req as 0 = Some (rc, req1)" by (simp add: parse_spec_def)
  note p = parse_lines_append [OF a assms(2,3) REQ_HEADER, of bs]
  show ?thesis using p parse_lines_shift [OF assms(3), of bs "nat rc" 0] REQ_HEADER assms(3)
    by (simp add: parse_spec_def)
next
  case REQ_START
  obtain l ls where as: "as = l # ls" using assms(5) by (cases as) auto
  obtain r req0 where r: "request_line req l = (r, req0)" by (cases "request_line req l")
  show ?thesis
  proof (cases r)
    case (Some rc')
    then have "req1 = req0" "rc = rc'" using assms(1) REQ_START as r by (simp_all add: parse_spec_def)
    moreover have "req_phase req0 = REQ_ABORT"
      using r Some by (auto simp: request_line_def Let_def split: if_splits option.splits prod.splits)
    ultimately show ?thesis using assms(3) by simp
  next
    case None
    then have a: "parse_lines req0 ls (Suc (length l)) = Some (rc, req1)"
      using assms(1) REQ_START as r by (simp add: parse_spec_def)
    have h: "req_phase req0 = REQ_HEADER" using r None by (simp add: request_line_phase)
    note p = parse_lines_append [OF a assms(2,3) h, of bs]
    then have n: "Suc (length l) + length (join_lines ls) = nat rc" by linarith
    show ?thesis
      using p parse_lines_shift [OF assms(3), of bs "nat rc" 0] REQ_START assms(3) as r None
      by (simp add: parse_spec_def n del: add_Suc)
  qed
qed (use assms(4) in auto)

section \<open>The properties\<close>

text \<open>A buffer of header lines that begins with a bare line feed: the test for the end of the line
  reads the byte before the array.\<close>

lemma req_parse_empty_line:
  assumes "view buf [] (join_lines ls)" "ls \<noteq> []" "req_phase req = REQ_HEADER" "hd ls = []"
  shows "req_parse req buf = None"
proof -
  obtain ls' where ls: "ls = [] # ls'" using assms(2,4) by (cases ls) auto
  then have v: "view buf [] ([] @ LF # join_lines ls')" using assms(1) by simp
  have p: "data_p buf = 0" "0 < buf_end buf" "0 < buf_end (buf\<lparr>data_p := 0\<rparr>)"
    using v by (simp_all add: view_def buf_end_def)
  have "proceed_line buf = Some (0, buf\<lparr>data_p := 0\<rparr>)" using proceed_line_view [OF v] by simp
  then have "header_line req buf = None" using p(3) by (simp add: header_line_def eol_def)
  then show ?thesis using p assms(3) by (simp add: req_parse_def parse_headers.simps)
qed

text \<open>
  C1: fed whole lines, the parser of \<open>request.c\<close>, with its cursors, look-behind and bounded
  copies, returns exactly the status and the request that the reference parser on lists of lines
  computes, and has undefined behaviour exactly where the reference parser has no result (a \<open>Host\<close>
  value of more than 256 bytes) and on header lines that begin with an empty one. The one case left
  out is a request line whose URI is exactly \<open>http://\<close> or \<open>https://\<close>: there the code searches
  beyond the end of the string.
\<close>

theorem req_parse_is_reference:
  assumes "view buf [] (join_lines ls)" "\<forall>l \<in> set ls. LF \<notin> set l" "ls \<noteq> []"
    and "req_phase req = REQ_START \<Longrightarrow> plain_uri (uri_of_line (hd ls))"
  shows "parse_result (req_parse req buf) =
    (if req_phase req = REQ_HEADER \<and> hd ls = [] then None else parse_spec req ls)"
proof (cases "req_phase req = REQ_HEADER \<and> hd ls = []")
  case True
  then show ?thesis using req_parse_empty_line [OF assms(1,3)] by (simp add: parse_result_def)
next
  case False
  then show ?thesis using req_parse_lines [OF assms] by auto
qed

definition ex_lines :: "string list" where
  "ex_lines = [''GET /cgi/a?x=1 HTTP/1.1'' @ [CR], ''Host: h'' @ [CR], ''A: b'' @ [CR], [CR]]"

definition ex_buf :: "string list \<Rightarrow> buf_t" where
  "ex_buf ls = \<lparr>sz = int (length (join_lines ls)), data = join_lines ls, data_p = 0\<rparr>"

lemma ex_buf_view: "view (ex_buf ls) [] (join_lines ls)"
  by (simp add: view_def ex_buf_def)

lemma ex_lines_ok:
  "\<forall>l \<in> set ex_lines. LF \<notin> set l" "ex_lines \<noteq> []" "plain_uri (uri_of_line (hd ex_lines))"
  "req_phase req_new = REQ_START" "\<forall>l \<in> set ex_lines. short_host l"
  by code_simp+

theorem req_parse_is_reference_witness:
  "parse_result (req_parse req_new (ex_buf ex_lines)) = parse_spec req_new ex_lines
   \<and> map_option fst (parse_spec req_new ex_lines) = Some 42"
proof
  show "parse_result (req_parse req_new (ex_buf ex_lines)) = parse_spec req_new ex_lines"
    using req_parse_is_reference [OF ex_buf_view ex_lines_ok(1,2), of req_new] ex_lines_ok by simp
  show "map_option fst (parse_spec req_new ex_lines) = Some 42" by code_simp
qed

text \<open>
  C2: memory safety. If no line carries a \<open>Host\<close> value longer than the 256 bytes the request has
  room for, the URI of the request line is not exactly \<open>http://\<close> or \<open>https://\<close>, and a buffer that
  continues a header does not begin with an empty line, then the parser has no undefined behaviour
  on a buffer of whole lines: it returns, and it leaves a well-formed request (every array a string
  within its capacity, every header within its node, the parameters pointing into \<open>uri\<close>).
\<close>

theorem req_parse_memory_safe:
  assumes "view buf [] (join_lines ls)" "\<forall>l \<in> set ls. LF \<notin> set l" "ls \<noteq> []"
    and "req_phase req = REQ_START \<Longrightarrow> plain_uri (uri_of_line (hd ls))"
    and "req_phase req = REQ_HEADER \<Longrightarrow> hd ls \<noteq> []"
    and "\<forall>l \<in> set ls. short_host l" and "req_ok req"
  shows "\<exists>rc req' buf'. req_parse req buf = Some (rc, req', buf') \<and> req_ok req'"
proof -
  have "parse_result (req_parse req buf) \<noteq> None"
    using req_parse_lines [OF assms(1-5)] parse_spec_defined [OF assms(6)] by simp
  then obtain rc req' buf' where "req_parse req buf = Some (rc, req', buf')"
    by (auto simp: parse_result_def)
  with req_parse_ok [OF assms(7), of buf] show ?thesis by (auto dest: postD)
qed

theorem req_parse_memory_safe_witness:
  "\<exists>rc req' buf'. req_parse req_new (ex_buf ex_lines) = Some (rc, req', buf') \<and> req_ok req'"
  by (rule req_parse_memory_safe [of _ ex_lines])
    (use ex_buf_view ex_lines_ok req_ok_new in auto)

text \<open>
  C3: the memory-safety hypothesis is needed. When the parser is in the header phase and the next
  line is a \<open>Host\<close> header whose value has more than 256 bytes, the copy into \<open>req->host\<close> runs
  over the end of the array: the parser has undefined behaviour, whatever follows.
\<close>

theorem req_parse_host_overflow:
  assumes "view buf [] (join_lines (l # ls))" "\<forall>k \<in> set (l # ls). LF \<notin> set k" "l \<noteq> []"
    and "req_phase req = REQ_HEADER"
    and "split_header l = HField k v" "map tolower k = ''host''" "REQ_HOSTSZ < length v"
  shows "req_parse req buf = None"
proof -
  have "\<not> short_host l" using assms(5-7) by (simp add: short_host_def)
  then have "parse_spec req (l # ls) = None"
    using line_step_None [of req l] assms(4) by (simp add: parse_spec_def)
  with req_parse_lines [OF assms(1,2), of req] assms(3,4) show ?thesis by (simp add: parse_result_def)
qed

definition long_host :: string where
  "long_host = ''Host:'' @ replicate 300 (CHR ''h'') @ [CR]"

lemma split_long_host:
  "case split_header long_host of HField k v \<Rightarrow> k = ''Host'' \<and> length v = 300 | _ \<Rightarrow> False"
  "LF \<notin> set long_host" "long_host \<noteq> []" "map tolower ''Host'' = ''host''"
  by code_simp+

theorem req_parse_host_overflow_witness:
  "req_parse (req_new\<lparr>req_phase := REQ_HEADER\<rparr>) (ex_buf [long_host, [CR]]) = None"
proof -
  obtain v where v: "split_header long_host = HField ''Host'' v" "length v = 300"
    using split_long_host(1) by (auto split: hline.splits)
  show ?thesis
    by (rule req_parse_host_overflow [OF ex_buf_view _ _ _ v(1)])
      (use split_long_host v(2) in \<open>auto simp: REQ_HOSTSZ_def\<close>)
qed

text \<open>
  C4: how the lines of a request are distributed over the buffers the parser is called with does
  not matter, unless the second buffer begins with an empty line. If the lines \<open>ls1\<close> (with a URI
  other than \<open>http://\<close> and \<open>https://\<close>) leave the parser in the header phase, then parsing \<open>ls2\<close> next
  gives the same request and the same status as parsing \<open>ls1 @ ls2\<close> at once, and the counts of
  consumed bytes add up; but if \<open>ls2\<close> begins with a bare line feed the second call has undefined
  behaviour.
\<close>

theorem req_parse_chunks:
  assumes "view b1 [] (join_lines ls1)" "view b2 [] (join_lines ls2)"
    and "view b12 [] (join_lines (ls1 @ ls2))"
    and "\<forall>l \<in> set (ls1 @ ls2). LF \<notin> set l" "ls1 \<noteq> []" "ls2 \<noteq> []"
    and "req_phase req = REQ_START \<Longrightarrow> plain_uri (uri_of_line (hd ls1))"
    and "req_phase req = REQ_HEADER \<Longrightarrow> hd ls1 \<noteq> []"
    and "req_phase req \<le> REQ_HEADER"
    and "parse_result (req_parse req b1) = Some (rc1, req1)" "0 \<le> rc1" "req_phase req1 = REQ_HEADER"
  shows "if hd ls2 = [] then req_parse req1 b2 = None
    else parse_result (req_parse req b12) =
      map_option (\<lambda>(rc2, req2). (if rc2 < 0 then rc2 else rc1 + rc2, req2))
        (parse_result (req_parse req1 b2))"
proof (cases "hd ls2 = []")
  case True
  then show ?thesis using req_parse_empty_line [OF assms(2,6,12)] by simp
next
  case ne: False
  have "parse_result (req_parse req b1) = parse_spec req ls1"
    by (rule req_parse_lines) (use assms in auto)
  moreover have "parse_result (req_parse req1 b2) = parse_spec req1 ls2"
    by (rule req_parse_lines) (use assms ne in auto)
  moreover have "parse_result (req_parse req b12) = parse_spec req (ls1 @ ls2)"
    by (rule req_parse_lines) (use assms in auto)
  moreover have "parse_spec req ls1 = Some (rc1, req1)" using assms(10) calculation(1) by simp
  note parse_spec_append [OF this assms(11,12,9,5), of ls2]
  moreover have "shift_rc (nat rc1) = (\<lambda>(rc2, req2). (if rc2 < 0 then rc2 else rc1 + rc2, req2))"
    using assms(11) by (auto simp: shift_rc_def)
  ultimately show ?thesis using ne by simp
qed

lemma ex_first_line:
  "map_option (\<lambda>(rc, req). (rc, req_phase req)) (parse_result (req_parse req_new (ex_buf [hd ex_lines])))
    = Some (25, REQ_HEADER)"
  "LF \<notin> set (hd ex_lines)"
  by code_simp+

theorem req_parse_chunks_witness:
  "\<exists>req1. parse_result (req_parse req_new (ex_buf [hd ex_lines])) = Some (25, req1)
    \<and> parse_result (req_parse req_new (ex_buf ex_lines)) =
      map_option (\<lambda>(rc2, req2). (if rc2 < 0 then rc2 else 25 + rc2, req2))
        (parse_result (req_parse req1 (ex_buf (tl ex_lines))))"
proof -
  obtain req1 where r: "parse_result (req_parse req_new (ex_buf [hd ex_lines])) = Some (25, req1)"
      "req_phase req1 = REQ_HEADER"
    using ex_first_line by auto
  have "if hd (tl ex_lines) = [] then req_parse req1 (ex_buf (tl ex_lines)) = None
      else parse_result (req_parse req_new (ex_buf ([hd ex_lines] @ tl ex_lines))) =
        map_option (\<lambda>(rc2, req2). (if rc2 < 0 then rc2 else 25 + rc2, req2))
          (parse_result (req_parse req1 (ex_buf (tl ex_lines))))"
    by (rule req_parse_chunks [OF ex_buf_view ex_buf_view ex_buf_view _ _ _ _ _ _ r(1) _ r(2)])
      (use ex_lines_ok in \<open>auto simp: ex_lines_def\<close>)
  with r(1) show ?thesis by (auto simp: ex_lines_def)
qed

text \<open>
  C5: statuses and phases agree, for every buffer. A negative return value is one of -400, -411
  and -501 and leaves the request aborted; -411 is reported for a POST without a usable
  \<open>Content-Length\<close> only. Otherwise the value is the number of bytes consumed and the request is
  in the header phase, or in the body phase with the body size set. The phase never moves back.
\<close>

theorem req_parse_status:
  assumes "req_parse req buf = Some (rc, req', buf')" "req_phase req \<le> REQ_HEADER"
  shows "req_phase req \<le> req_phase req' \<and> (rc < 0 \<longleftrightarrow> req_phase req' = REQ_ABORT)
    \<and> (rc < 0 \<longrightarrow> rc = - 400 \<or> rc = - 501
      \<or> rc = - 411 \<and> req_meth req' = M_POST \<and> req_clen req' < 0)
    \<and> (0 \<le> rc \<longrightarrow> rc = int (data_p buf') \<and> (req_phase req' = REQ_HEADER
      \<or> req_phase req' = REQ_BODY \<and> 0 \<le> req_clen req' \<and> req_rsize req' = req_clen req'))"
  using req_parse_exit [OF assms] assms(2) by (auto simp: parse_exit_def split: if_splits)

theorem req_parse_status_witness:
  "\<exists>rc req' buf'. req_parse req_new (ex_buf [''PUT / HTTP/1.1'' @ [CR]]) = Some (rc, req', buf')
    \<and> rc = - 501 \<and> req_phase req' = REQ_ABORT"
proof -
  have "map_option fst (req_parse req_new (ex_buf [''PUT / HTTP/1.1'' @ [CR]])) = Some (- 501)"
    by code_simp
  then obtain req' buf' where
    "req_parse req_new (ex_buf [''PUT / HTTP/1.1'' @ [CR]]) = Some (- 501, req', buf')" by auto
  with req_parse_status [OF this] ex_lines_ok(4) show ?thesis by simp
qed

end
