(* ===== verification/Request_Pack.thy ===== *)
theory Request_Pack
  imports Request_Props
begin

text \<open>
  \<open>req_pack\<close>: a request written back as text, with \<open>strcpy0\<close> at the cursor and the macro
  \<open>pack_next\<close>, without bounds; and the proof that parsing the text gives the request back.
\<close>

section \<open>Packing\<close>

text \<open>The array and the cursor. \<open>pack_next\<close> skips what was just written and adds one byte.\<close>

definition put_str :: "string \<Rightarrow> mem \<times> nat \<Rightarrow> (mem \<times> nat) option" where
  "put_str s out = do {
     m \<leftarrow> mem_put (BUFSZ + 1) (snd out) (s @ [NUL]) (fst out);
     Some (m, snd out) }"

definition pack_next :: "char \<Rightarrow> mem \<times> nat \<Rightarrow> (mem \<times> nat) option" where
  "pack_next c out = do {
     k \<leftarrow> cstr_at (fst out) (snd out);
     m \<leftarrow> mem_put (BUFSZ + 1) (snd out + length k) [c, NUL] (fst out);
     Some (m, Suc (snd out + length k)) }"

primrec pack_seps :: "string \<Rightarrow> mem \<times> nat \<Rightarrow> (mem \<times> nat) option" where
  "pack_seps [] out = Some out"
| "pack_seps (c # cs) out = do { out \<leftarrow> pack_next c out; pack_seps cs out }"

definition pack_word :: "string \<Rightarrow> string \<Rightarrow> mem \<times> nat \<Rightarrow> (mem \<times> nat) option" where
  "pack_word s seps out = do { out \<leftarrow> put_str s out; pack_seps seps out }"

fun pack_hdrs :: "hdr list \<Rightarrow> mem \<times> nat \<Rightarrow> (mem \<times> nat) option" where
  "pack_hdrs [] out = Some out"
| "pack_hdrs ((k, v) # hs) out = do {
     out \<leftarrow> pack_word k '': '' out;
     out \<leftarrow> pack_word v CRLF out;
     pack_hdrs hs out }"

definition req_pack :: "req_t \<Rightarrow> buf_t \<Rightarrow> (int \<times> buf_t) option" where
  "req_pack req buf = do {
     m \<leftarrow> mem_put (BUFSZ + 1) 0 [NUL] (data buf);
     out \<leftarrow> pack_word (req_method req) '' '' (m, 0);
     uri \<leftarrow> cstr_at (req_uri req) 0;
     out \<leftarrow> pack_word uri '' '' out;
     version \<leftarrow> cstr_at (req_version req) 0;
     out \<leftarrow> pack_word version CRLF out;
     out \<leftarrow> pack_word ''Host:'' '' '' out;
     host \<leftarrow> cstr_at (req_host req) 0;
     out \<leftarrow> pack_word host CRLF out;
     out \<leftarrow> pack_word ''Content-Length:'' '' '' out;
     out \<leftarrow> pack_word (show_int (req_clen req)) CRLF out;
     out \<leftarrow> pack_hdrs (req_hdrs req) out;
     (m, p) \<leftarrow> pack_seps CRLF out;
     Some (int p, buf\<lparr>data := m, sz := int p, data_p := 0\<rparr>) }"

section \<open>The text\<close>

definition packed :: "string \<Rightarrow> mem \<times> nat \<Rightarrow> bool" where
  "packed t out \<longleftrightarrow> snd out = length t \<and> length (fst out) \<le> BUFSZ + 1 \<and> (\<exists>r. fst out = t @ NUL # r)"

lemma packedE:
  assumes "packed t out"
  obtains r where "out = (t @ NUL # r, length t)" "length t + length r \<le> BUFSZ"
  using assms by (cases out) (auto simp: packed_def)

lemma packedI: "p = length t \<Longrightarrow> length t + length r \<le> BUFSZ \<Longrightarrow> packed t (t @ NUL # r, p)"
  by (simp add: packed_def)

lemma mem_put_after: "mem_put cap (length t) x (t @ y) =
    (if length t + length x \<le> cap then Some (t @ x @ drop (length x) y) else None)"
  by (simp add: mem_put_def)

lemma put_str_packed:
  assumes "length t + length r \<le> BUFSZ"
  shows "put_str s (t @ NUL # r, length t) = (if length t + length s \<le> BUFSZ
    then Some (t @ s @ NUL # drop (length s) r, length t) else None)"
  using assms by (simp add: put_str_def mem_put_after)

lemma pack_next_written:
  assumes "no_nul s"
  shows "pack_next c (t @ s @ NUL # r, length t) = (if length t + length s + 1 \<le> BUFSZ
    then Some ((t @ s @ [c]) @ NUL # drop 1 r, length (t @ s @ [c])) else None)"
proof -
  have "cstr_at (t @ s @ NUL # r) (length t) = Some s"
    using assms by (subst cstr_at_drop) (simp_all add: cstr_at_cstr)
  then show ?thesis
    using mem_put_after [of "BUFSZ + 1" "t @ s" "[c, NUL]" "NUL # r"] by (simp add: pack_next_def add.assoc)
qed

text \<open>\<open>packs f w\<close>: \<open>f\<close> appends \<open>w\<close>, when there is room for it.\<close>

definition packs :: "(mem \<times> nat \<Rightarrow> (mem \<times> nat) option) \<Rightarrow> string \<Rightarrow> bool" where
  "packs f w \<longleftrightarrow> (\<forall>t out. packed t out \<longrightarrow>
     (if length t + length w \<le> BUFSZ then safe (f out) (packed (t @ w)) else f out = None))"

lemma packsD:
  "packs f w \<Longrightarrow> packed t out \<Longrightarrow>
     if length t + length w \<le> BUFSZ then safe (f out) (packed (t @ w)) else f out = None"
  unfolding packs_def by blast

lemma packs_bind:
  assumes "packs f v" "packs g w"
  shows "packs (\<lambda>out. do { out \<leftarrow> f out; g out }) (v @ w)"
  unfolding packs_def
proof (intro allI impI)
  fix t out
  assume t: "packed t out"
  show "if length t + length (v @ w) \<le> BUFSZ then safe (do { out \<leftarrow> f out; g out }) (packed (t @ v @ w))
    else do { out \<leftarrow> f out; g out } = None"
  proof (cases "length t + length v \<le> BUFSZ")
    case True
    then obtain o1 where o1: "f out = Some o1" "packed (t @ v) o1"
      using packsD [OF assms(1) t] by (auto simp: safe_def)
    from packsD [OF assms(2) o1(2)] show ?thesis by (simp add: o1(1) split: if_splits)
  next
    case False
    then show ?thesis using packsD [OF assms(1) t] by simp
  qed
qed

lemma packs_next: "packs (pack_next c) [c]"
  unfolding packs_def
proof (intro allI impI)
  fix t out
  assume "packed t out"
  then obtain r where o: "out = (t @ NUL # r, length t)" "length t + length r \<le> BUFSZ"
    by (rule packedE)
  show "if length t + length [c] \<le> BUFSZ then safe (pack_next c out) (packed (t @ [c]))
    else pack_next c out = None"
    using pack_next_written [of "[]" c t r] o(2) packedI [of "length (t @ [c])" "t @ [c]" "drop 1 r"]
    by (auto simp: o(1) safe_def no_nul_def)
qed

lemma packs_nil: "packs Some []"
  unfolding packs_def
proof (intro allI impI)
  fix t out
  assume p: "packed t out"
  then show "if length t + length ([] :: string) \<le> BUFSZ then safe (Some out) (packed (t @ []))
    else Some out = None"
    by (rule packedE) (use p in simp)
qed

lemma packs_seps: "packs (pack_seps cs) cs"
proof (induction cs)
  case Nil
  have "pack_seps [] = Some" by (rule ext) simp
  with packs_nil show ?case by simp
next
  case (Cons c cs)
  from packs_bind [OF packs_next Cons.IH, of c] show ?case by (simp add: packs_def)
qed

lemma packs_word:
  assumes "no_nul s" "seps \<noteq> []"
  shows "packs (pack_word s seps) (s @ seps)"
  unfolding packs_def
proof (intro allI impI)
  fix t out
  assume "packed t out"
  then obtain r where o: "out = (t @ NUL # r, length t)" "length t + length r \<le> BUFSZ"
    by (rule packedE)
  obtain c cs where seps: "seps = c # cs" using assms(2) by (cases seps) auto
  note put = put_str_packed [OF o(2), of s]
  note nxt = pack_next_written [OF assms(1), of c t "drop (length s) r"]
  show "if length t + length (s @ seps) \<le> BUFSZ then safe (pack_word s seps out) (packed (t @ s @ seps))
    else pack_word s seps out = None"
  proof (cases "length t + length s + 1 \<le> BUFSZ")
    case True
    let ?o = "((t @ s @ [c]) @ NUL # drop 1 (drop (length s) r), length (t @ s @ [c]))"
    have "packed (t @ s @ [c]) ?o" using o(2) True by (intro packedI) auto
    then have "if length (t @ s @ [c]) + length cs \<le> BUFSZ
        then safe (pack_seps cs ?o) (packed ((t @ s @ [c]) @ cs)) else pack_seps cs ?o = None"
      by (rule packsD [OF packs_seps])
    then show ?thesis
      using True put nxt by (simp add: pack_word_def o(1) seps split: if_splits)
  next
    case False
    then show ?thesis using put nxt by (simp add: pack_word_def o(1) seps)
  qed
qed

definition hdr_text :: "hdr list \<Rightarrow> string" where
  "hdr_text hs = concat (map (\<lambda>(k, v). (k @ '': '') @ v @ CRLF) hs)"

lemma packs_hdrs:
  "list_all (\<lambda>(k, v). no_nul k \<and> no_nul v) hs \<Longrightarrow> packs (pack_hdrs hs) (hdr_text hs)"
proof (induction hs)
  case Nil
  have "pack_hdrs [] = Some" by (rule ext) simp
  with packs_nil show ?case by (simp add: hdr_text_def)
next
  case (Cons h hs)
  obtain k v where h: "h = (k, v)" by (cases h)
  have "packs (pack_word k '': '') (k @ '': '')" "packs (pack_word v CRLF) (v @ CRLF)"
    using Cons.prems by (auto simp: h CRLF_def intro!: packs_word)
  from packs_bind [OF this(1) packs_bind [OF this(2) Cons.IH]] Cons.prems
  show ?case by (simp add: h hdr_text_def)
qed

text \<open>What a request looks like when it is written out.\<close>

definition req_text :: "req_t \<Rightarrow> string" where
  "req_text req = (req_method req @ '' '') @ (cstr (req_uri req) @ '' '')
     @ (cstr (req_version req) @ CRLF) @ (''Host:'' @ '' '') @ (cstr (req_host req) @ CRLF)
     @ (''Content-Length:'' @ '' '') @ (show_int (req_clen req) @ CRLF) @ hdr_text (req_hdrs req) @ CRLF"

definition pack_all :: "req_t \<Rightarrow> mem \<times> nat \<Rightarrow> (mem \<times> nat) option" where
  "pack_all req out = do {
     out \<leftarrow> pack_word (req_method req) '' '' out;
     out \<leftarrow> pack_word (cstr (req_uri req)) '' '' out;
     out \<leftarrow> pack_word (cstr (req_version req)) CRLF out;
     out \<leftarrow> pack_word ''Host:'' '' '' out;
     out \<leftarrow> pack_word (cstr (req_host req)) CRLF out;
     out \<leftarrow> pack_word ''Content-Length:'' '' '' out;
     out \<leftarrow> pack_word (show_int (req_clen req)) CRLF out;
     out \<leftarrow> pack_hdrs (req_hdrs req) out;
     pack_seps CRLF out }"

lemma packs_all:
  assumes "list_all (\<lambda>(k, v). no_nul k \<and> no_nul v) (req_hdrs req)"
  shows "packs (pack_all req) (req_text req)"
proof -
  have m: "no_nul (req_method req)" by (cases "req_meth req") (simp_all add: req_method_def no_nul_def)
  have c: "no_nul ''Host:''" "no_nul ''Content-Length:''" "CRLF \<noteq> []" by (simp_all add: no_nul_def CRLF_def)
  show ?thesis
    unfolding req_text_def pack_all_def [abs_def]
    by (intro packs_bind packs_word packs_hdrs packs_seps assms m c no_nul_cstr no_nul_show_int) simp_all
qed

lemma req_pack_run:
  assumes "is_cstr (req_uri req)" "is_cstr (req_version req)" "is_cstr (req_host req)"
    and "list_all (\<lambda>(k, v). no_nul k \<and> no_nul v) (req_hdrs req)" "length (data buf) \<le> BUFSZ + 1"
  shows "if length (req_text req) \<le> BUFSZ
    then safe (req_pack req buf) (\<lambda>(rc, buf'). rc = int (length (req_text req)) \<and> sz buf' = rc
      \<and> data_p buf' = 0 \<and> length (data buf') \<le> BUFSZ + 1 \<and> (\<exists>r. data buf' = req_text req @ NUL # r))
    else req_pack req buf = None"
proof -
  obtain m0 where m0: "mem_put (BUFSZ + 1) 0 [NUL] (data buf) = Some m0" "packed [] (m0, 0)"
    using assms(5) packedI [of 0 "[]" "drop 1 (data buf)"] by (simp add: mem_put_def)
  note f = packsD [OF packs_all [OF assms(4)] m0(2), unfolded append_Nil list.size add_0]
  have "req_pack req buf = do {
      (m, p) \<leftarrow> pack_all req (m0, 0); Some (int p, buf\<lparr>data := m, sz := int p, data_p := 0\<rparr>) }"
    using assms(1-3) m0(1) by (simp add: req_pack_def pack_all_def cstr_at_cstr)
  then show ?thesis using f by (auto simp: safe_def packed_def split: if_splits)
qed

end
