(* ===== verification/Pack_Props.thy ===== *)
theory Pack_Props
  imports Request_Pack
begin

text \<open>
  Writing a request out and parsing it again.
\<close>

section \<open>Decimal numbers\<close>

lemma of_char_digit_int: "d < 10 \<Longrightarrow> (of_char (digit_char d) :: int) = 48 + int d"
  using of_char_digit [of d] by (metis of_nat_add of_nat_numeral of_nat_of_char)

lemma digits_val_snoc: "digits_val (s @ [c]) = 10 * digits_val s + (of_char c - 48)"
  by (simp add: digits_val_def)

lemma digits_val_show_nat: "digits_val (show_nat n) = int n"
proof (induction n rule: show_nat.induct)
  case (1 n)
  show ?case
  proof (cases "n < 10")
    case True
    then show ?thesis
      using digits_val_snoc [of "[]"] by (subst show_nat.simps) (simp add: of_char_digit_int digits_val_def)
  next
    case False
    then have "digits_val (show_nat n) = 10 * int (n div 10) + int (n mod 10)"
      using 1 by (subst show_nat.simps) (simp add: digits_val_snoc of_char_digit_int)
    also have "\<dots> = int n" by presburger
    finally show ?thesis .
  qed
qed

lemma sint_word_of_int_small:
  "- (2 ^ 31) \<le> z \<Longrightarrow> z < 2 ^ 31 \<Longrightarrow> sint (word_of_int z :: 32 word) = z"
  by transfer (simp add: signed_take_bit_int_eq_self)

lemma atoi_show_nat:
  assumes "n < 2 ^ 31"
  shows "atoi (show_nat n) = int n"
proof -
  have d: "list_all isdigit (show_nat n)" "show_nat n \<noteq> []" using show_nat_digits [of n] by simp_all
  then obtain c cs where cs: "show_nat n = c # cs" "isdigit c" by (cases "show_nat n") auto
  have c: "\<not> isspace c" "c \<noteq> CHR ''-''" "c \<noteq> CHR ''+''"
    using cs(2) isdigit_imp [of c] by (auto simp: isdigit_def)
  have "takeWhile isdigit (show_nat n) = show_nat n"
    using d(1) by (simp add: takeWhile_eq_all_conv list_all_iff)
  then have "atoi (show_nat n) = sint (word_of_int (min (2 ^ 63 - 1) (digits_val (show_nat n))) :: 32 word)"
    using c by (simp add: atoi_def cs(1))
  also have "\<dots> = sint (word_of_int (int n) :: 32 word)"
    using assms by (simp add: digits_val_show_nat)
  also have "\<dots> = int n" by (rule sint_word_of_int_small) (use assms in auto)
  finally show ?thesis .
qed

section \<open>The lines of the text\<close>

definition req_lines :: "req_t \<Rightarrow> string list" where
  "req_lines req =
     [req_method req @ '' '' @ cstr (req_uri req) @ '' '' @ cstr (req_version req) @ [CR],
      ''Host: '' @ cstr (req_host req) @ [CR],
      ''Content-Length: '' @ show_int (req_clen req) @ [CR]]
     @ map (\<lambda>(k, v). k @ '': '' @ v @ [CR]) (req_hdrs req) @ [[CR]]"

lemma hdr_text_lines: "hdr_text hs = join_lines (map (\<lambda>(k, v). k @ '': '' @ v @ [CR]) hs)"
  by (induction hs) (auto simp: hdr_text_def join_lines_def CRLF_def)

lemma req_text_lines: "req_text req = join_lines (req_lines req)"
  by (simp add: req_text_def req_lines_def hdr_text_lines) (simp add: join_lines_def CRLF_def)

text \<open>
  Requests that survive: the tokens of the first line hold no white space, the values carry none at
  their ends, and the header names are not those the parser acts on.
\<close>

definition word_ok :: "string \<Rightarrow> bool" where
  "word_ok s \<longleftrightarrow> s \<noteq> [] \<and> list_all (\<lambda>c. \<not> isspace c) s"

definition field_ok :: "hdr \<Rightarrow> bool" where
  "field_ok h \<longleftrightarrow> (case h of (k, v) \<Rightarrow> no_nul k \<and> no_nul v \<and> LF \<notin> set k \<and> LF \<notin> set v
     \<and> k \<noteq> [] \<and> CHR '':'' \<notin> set k \<and> strip k = k \<and> strip v = v
     \<and> length k \<le> HDR_KEYSZ \<and> length v < HDR_VALSZ
     \<and> map tolower k \<notin> {''host'', ''content-length'', ''connection''})"

definition packable :: "req_t \<Rightarrow> bool" where
  "packable req \<longleftrightarrow> req_ok req \<and> req_meth req \<noteq> M_OTHER
     \<and> word_ok (cstr (req_uri req)) \<and> CHR ''?'' \<notin> set (cstr (req_uri req)) \<and> plain_uri (cstr (req_uri req))
     \<and> word_ok (cstr (req_version req))
     \<and> strip (cstr (req_host req)) = cstr (req_host req) \<and> LF \<notin> set (cstr (req_host req))
     \<and> 0 \<le> req_clen req \<and> req_clen req < 2 ^ 31
     \<and> list_all field_ok (req_hdrs req)"

lemma strip_pad:
  assumes "list_all isspace a" "list_all isspace b"
  shows "strip (a @ s @ b) = strip s"
proof -
  have a: "dropWhile isspace (a @ s @ b) = dropWhile isspace (s @ b)"
    using assms(1) by (simp add: dropWhile_append2 list_all_iff)
  show ?thesis
  proof (cases "list_all isspace s")
    case True
    then show ?thesis using assms strip_all_space [of s] strip_all_space [of "a @ s @ b"] by simp
  next
    case False
    then have "dropWhile isspace (s @ b) = dropWhile isspace s @ b"
      by (auto simp: list_all_iff intro: dropWhile_append1)
    moreover have "dropWhile isspace (rev (t @ b)) = dropWhile isspace (rev t)" for t
      using assms(2) dropWhile_append2 [of "rev b" isspace "rev t"] by (simp add: list_all_iff)
    ultimately show ?thesis by (simp only: strip_def a)
  qed
qed

lemma strip_word: "list_all (\<lambda>c. \<not> isspace c) s \<Longrightarrow> strip s = s"
  using strip_split [of "[]" "[]" s]
  by (cases s) (auto simp: strip_def list_all_iff)

lemma strip_hd:
  assumes "strip s = s" "s \<noteq> []"
  shows "\<not> isspace (hd s)"
proof
  assume h: "isspace (hd s)"
  then have "length (dropWhile isspace s) < length s"
    using assms(2) length_dropWhile_le [of isspace "tl s"] by (cases s) auto
  moreover have "length (strip s) \<le> length (dropWhile isspace s)"
    using length_dropWhile_le [of isspace "rev (dropWhile isspace s)"] by (simp add: strip_def)
  ultimately show False using assms(1) by simp
qed

lemma cstr_no_nul: "no_nul s \<Longrightarrow> cstr s = s"
  by (auto simp: cstr_def no_nul_def takeWhile_eq_all_conv)

lemma trim_value:
  assumes "no_nul v" "strip v = v" "length v < HDR_VALSZ"
  shows "trim HDR_VALSZ ('' '' @ v @ [CR]) = v"
proof -
  obtain b where b: "take HDR_VALSZ ('' '' @ v @ [CR]) = '' '' @ v @ b" "list_all isspace b" "no_nul b"
  proof (cases "Suc (length v) < HDR_VALSZ")
    case True
    then show ?thesis using that [of "[CR]"] by (simp add: isspace_def no_nul_def)
  next
    case False
    then have e: "HDR_VALSZ = Suc (length v)" using assms(3) by simp
    have "take HDR_VALSZ ('' '' @ v @ [CR]) = '' '' @ v @ []" unfolding e by simp
    then show ?thesis using that by (simp add: no_nul_def)
  qed
  have "no_nul ('' '' @ v @ b)" using assms(1) b(3) by (simp add: no_nul_def)
  then have "trim HDR_VALSZ ('' '' @ v @ [CR]) = strip ('' '' @ v @ b)"
    by (simp only: trim_def b(1) cstr_no_nul)
  also have "\<dots> = v" using strip_pad [of "'' ''" b v] b(2) assms(2) by (simp add: isspace_def)
  finally show ?thesis .
qed

lemma split_header_field:
  assumes k: "k \<noteq> []" "CHR '':'' \<notin> set k" "strip k = k" "no_nul k" "length k \<le> HDR_KEYSZ"
    and v: "no_nul v" "strip v = v" "length v < HDR_VALSZ"
  shows "split_header (k @ '': '' @ v @ [CR]) = HField k v"
proof -
  obtain c cs where c: "k = c # cs" using k(1) by (cases k) auto
  have "\<not> issp c" using strip_hd [OF k(3,1)] by (simp add: c issp_isspace)
  then have d: "dropWhile issp (k @ '': '' @ v @ [CR]) = k @ '': '' @ v @ [CR]" by (simp add: c)
  have t: "takeWhile (\<lambda>c. c \<noteq> CHR '':'') (k @ '': '' @ v @ [CR]) = k"
    using k(2) by (subst takeWhile_append2) auto
  have "trim HDR_KEYSZ k = k" using k by (simp add: trim_def cstr_no_nul)
  moreover have "drop (Suc (length k)) (k @ '': '' @ v @ [CR]) = '' '' @ v @ [CR]" by simp
  ultimately show ?thesis
    using k(1) trim_value [OF v] by (simp only: split_header_def d t Let_def) simp
qed


section \<open>Parsing the text\<close>

lemma next_tok_word:
  assumes "word_ok w" "a \<in> {[], '' ''}" "isspace (hd r)" "r \<noteq> []"
  shows "next_tok (a @ w @ r) = (w, r)"
proof -
  obtain c cs where w: "w = c # cs" "\<not> isspace c" "\<forall>c \<in> set w. \<not> isspace c"
    using assms(1) by (cases w) (auto simp: word_ok_def list_all_iff)
  have d: "dropWhile issp (a @ w @ r) = w @ r"
    using assms(2) w(2) by (auto simp: w(1) issp_isspace) (auto simp: issp_def)
  obtain q qs where r: "r = q # qs" using assms(4) by (cases r) auto
  have "takeWhile (\<lambda>c. \<not> isspace c) (w @ r) = w" "dropWhile (\<lambda>c. \<not> isspace c) (w @ r) = r"
    using assms(3) w(3) by (simp_all add: takeWhile_append2 dropWhile_append2 r)
  then show ?thesis by (simp only: next_tok_def d Let_def)
qed

lemma uri_of_req_line:
  "word_ok m \<Longrightarrow> word_ok u \<Longrightarrow> next_tok (m @ '' '' @ u @ '' '' @ w) = (m, '' '' @ u @ '' '' @ w)
     \<and> next_tok ('' '' @ u @ '' '' @ w) = (u, '' '' @ w)"
  using next_tok_word [of m "[]" "'' '' @ u @ '' '' @ w"] next_tok_word [of u "'' ''" "'' '' @ w"]
  by (simp add: isspace_def)

lemma cstr_store_str [simp]: "no_nul s \<Longrightarrow> cstr (store_str s m) = s"
  by (simp add: store_str_def cstr_append_NUL)

lemma apply_field_other:
  "field_ok (k, v) \<Longrightarrow> apply_field req k v = Some (Next, req\<lparr>req_hdrs := (k, v) # req_hdrs req\<rparr>)"
  by (simp add: field_ok_def apply_field_def)

lemma parse_hdr_lines:
  "list_all field_ok hs \<Longrightarrow> 0 \<le> req_clen req \<Longrightarrow>
     parse_lines req (map (\<lambda>(k, v). k @ '': '' @ v @ [CR]) hs @ [[CR]]) n =
       Some (int (n + length (hdr_text hs) + 2),
         req\<lparr>req_hdrs := rev hs @ req_hdrs req, req_phase := REQ_BODY, req_rsize := req_clen req\<rparr>)"
proof (induction hs arbitrary: req n)
  case Nil
  have "split_header [CR] = HEnd" by (simp add: split_header_def issp_def)
  then show ?case using Nil.prems by (simp add: line_step_def finish_header_def hdr_text_def)
next
  case (Cons h hs)
  obtain k v where h: "h = (k, v)" by (cases h)
  have "split_header (k @ '': '' @ v @ [CR]) = HField k v"
    using Cons.prems by (intro split_header_field) (auto simp: h field_ok_def)
  then have "line_step req (k @ '': '' @ v @ [CR]) = Some (Next, req\<lparr>req_hdrs := (k, v) # req_hdrs req\<rparr>)"
    using Cons.prems apply_field_other [of k v req] by (simp add: line_step_def h)
  then show ?case
    using Cons.IH [of "req\<lparr>req_hdrs := (k, v) # req_hdrs req\<rparr>"] Cons.prems
    by (simp add: h hdr_text_def CRLF_def)
qed


lemma method_text:
  assumes "req_meth req \<noteq> M_OTHER"
  shows "word_ok (req_method req)" "cstr (take 8 (req_method req)) \<noteq> []"
    "method_of (req_method req) ('' '' @ r) = Some (req_meth req)"
proof -
  have w: "word_ok ''GET''" "word_ok ''HEAD''" "word_ok ''POST''" by code_simp+
  have t: "map tolower ''GET'' = ''get''" "map tolower ''HEAD'' = ''head''" "map tolower ''POST'' = ''post''"
    by code_simp+
  show "word_ok (req_method req)" using assms w by (cases "req_meth req") (simp_all add: req_method_def)
  show "cstr (take 8 (req_method req)) \<noteq> []"
    using assms by (cases "req_meth req") (simp_all add: req_method_def cstr_def)
  show "method_of (req_method req) ('' '' @ r) = Some (req_meth req)"
    using assms by (cases "req_meth req") (simp_all only: req_method_def method_of_def t http_method.case, simp_all)
qed

lemma key_facts:
  "strip ''Host'' = ''Host''" "strip ''Content-Length'' = ''Content-Length''"
  "map tolower ''Host'' = ''host''" "map tolower ''Content-Length'' = ''content-length''"
  "no_nul ''Host''" "no_nul ''Content-Length''" "HDR_KEYSZ = 512"
  by (code_simp, code_simp, code_simp, code_simp, code_simp, code_simp, simp add: HDR_KEYSZ_def)

lemma req_new_phase: "req_phase req_new = REQ_START" "req_type req_new = REQ_STATIC" "req_hdrs req_new = []"
  by (simp_all add: req_new_def req_reset_def hdrs_reset_def)

lemma apply_field_own:
  "length v \<le> REQ_HOSTSZ \<Longrightarrow>
     apply_field req ''Host'' v = Some (Next, req\<lparr>req_host := store_str v (req_host req)\<rparr>)"
  "list_all isdigit v \<Longrightarrow> apply_field req ''Content-Length'' v = Some (Next, req\<lparr>req_clen := atoi v\<rparr>)"
  unfolding apply_field_def key_facts by simp_all

lemma packable_lines:
  assumes "packable req"
  shows "(\<forall>l \<in> set (req_lines req). LF \<notin> set l) \<and> plain_uri (uri_of_line (hd (req_lines req)))"
proof
  have p: "req_meth req \<noteq> M_OTHER" "word_ok (cstr (req_uri req))" "word_ok (cstr (req_version req))"
      "LF \<notin> set (cstr (req_host req))" "list_all field_ok (req_hdrs req)" "plain_uri (cstr (req_uri req))"
    using assms by (simp_all add: packable_def)
  have w: "LF \<notin> set s" if "word_ok s" for s using that by (auto simp: word_ok_def list_all_iff)
  have "list_all isdigit (show_int (req_clen req))"
    using assms show_nat_digits by (simp add: packable_def show_int_def)
  then have "LF \<notin> set (show_int (req_clen req))" using isdigit_imp by (fastforce simp: list_all_iff)
  then show "\<forall>l \<in> set (req_lines req). LF \<notin> set l"
    using p(4,5) w [OF p(2)] w [OF p(3)] w [OF method_text(1) [OF p(1)]]
    by (auto simp: req_lines_def field_ok_def list_all_iff)
  have "length (cstr (req_uri req)) \<le> REQ_URISZ"
    using assms length_cstr [of "req_uri req"] by (auto simp: packable_def req_ok_def str_ok_def)
  then show "plain_uri (uri_of_line (hd (req_lines req)))"
    using p(6) uri_of_req_line [OF method_text(1) [OF p(1)] p(2), of "cstr (req_version req) @ [CR]"]
    by (simp add: uri_of_line_def req_lines_def cstr_no_nul)
qed

definition same_request :: "req_t \<Rightarrow> req_t \<Rightarrow> bool" where
  "same_request req req' \<longleftrightarrow>
     req_meth req' = req_meth req \<and> cstr (req_uri req') = cstr (req_uri req)
     \<and> cstr (req_version req') = cstr (req_version req) \<and> cstr (req_host req') = cstr (req_host req)
     \<and> req_clen req' = req_clen req \<and> req_hdrs req' = rev (req_hdrs req)"

text \<open>What the text does not carry is as in a new request.\<close>

definition lost_fields :: "req_t \<Rightarrow> bool" where
  "lost_fields req \<longleftrightarrow> req_params req = None \<and> req_alive req \<and> req_scheme req = HTTP
     \<and> req_addr req = req_addr req_new \<and> req_port req = req_port req_new \<and> sz (req_last_buf req) = 0"

lemma parse_req_lines:
  assumes "packable req"
  shows "\<exists>req'. parse_spec req_new (req_lines req) = Some (int (length (req_text req)), req')
    \<and> same_request req req' \<and> lost_fields req' \<and> req_phase req' = REQ_BODY
    \<and> req_type req' = (if take 5 (cstr (req_uri req)) = ''/cgi/'' then REQ_DYNAMIC else REQ_STATIC)"
proof -
  let ?m = "req_method req" and ?u = "cstr (req_uri req)" and ?w = "cstr (req_version req)"
    and ?h = "cstr (req_host req)" and ?c = "show_int (req_clen req)"
  let ?l1 = "?m @ '' '' @ ?u @ '' '' @ ?w @ [CR]"
  have p: "req_ok req" "req_meth req \<noteq> M_OTHER" "word_ok ?u" "CHR ''?'' \<notin> set ?u" "word_ok ?w"
      "strip ?h = ?h" "0 \<le> req_clen req" "req_clen req < 2 ^ 31" "list_all field_ok (req_hdrs req)"
    using assms by (simp_all add: packable_def)
  have len: "length ?u \<le> REQ_URISZ" "length ?w \<le> REQ_VERSZ" "length ?h \<le> REQ_HOSTSZ"
    using p(1) length_cstr [of "req_uri req"] length_cstr [of "req_version req"] length_cstr [of "req_host req"]
    by (auto simp: req_ok_def str_ok_def)
  note m = method_text [OF p(2)]
  let ?req1 = "(store_uri (req_new\<lparr>req_meth := req_meth req\<rparr>) ?u)"
  let ?req2 = "?req1\<lparr>req_version := store_str ?w (req_version ?req1), req_phase := REQ_HEADER\<rparr>"
  have toks: "next_tok ?l1 = (?m, '' '' @ ?u @ '' '' @ ?w @ [CR])"
      "next_tok ('' '' @ ?u @ '' '' @ ?w @ [CR]) = (?u, '' '' @ ?w @ [CR])"
      "next_tok ('' '' @ ?w @ [CR]) = (?w, [CR])"
    using uri_of_req_line [OF m(1) p(3)] next_tok_word [OF p(5), of "'' ''" "[CR]"]
    by (simp_all add: isspace_def)
  have l1: "request_line req_new ?l1 = (None, ?req2)"
    using len by (simp only: request_line_def toks Let_def prod.case m(2,3) if_False option.case
        take_all cstr_no_nul no_nul_cstr) (simp add: issp_def)
  let ?req3 = "?req2\<lparr>req_host := store_str ?h (req_host ?req2)\<rparr>"
  let ?req4 = "?req3\<lparr>req_clen := req_clen req\<rparr>"
  have sp: "split_header (''Host'' @ '': '' @ ?h @ [CR]) = HField ''Host'' ?h"
    using p(6) len(3) by (intro split_header_field) (simp_all add: key_facts REQ_HOSTSZ_def HDR_VALSZ_def)
  have l2: "line_step ?req2 (''Host: '' @ ?h @ [CR]) = Some (Next, ?req3)"
    using sp apply_field_own(1) [OF len(3)] by (simp add: line_step_def)
  have c: "?c = show_nat (nat (req_clen req))" "list_all isdigit ?c" "length ?c \<le> 10"
      "atoi ?c = req_clen req"
    using p(7,8) show_nat_digits [of "nat (req_clen req)"] atoi_show_nat [of "nat (req_clen req)"]
      length_show_nat [of "nat (req_clen req)" 10] by (simp_all add: show_int_def)
  have "strip ?c = ?c"
    using c(2) isdigit_imp by (intro strip_word) (auto simp: list_all_iff)
  then have sp: "split_header (''Content-Length'' @ '': '' @ ?c @ [CR]) = HField ''Content-Length'' ?c"
    using c(3) by (intro split_header_field) (simp_all add: key_facts HDR_VALSZ_def)
  have l3: "line_step ?req3 (''Content-Length: '' @ ?c @ [CR]) = Some (Next, ?req4)"
    using sp apply_field_own(2) [OF c(2)] c(4) by (simp add: line_step_def)
  let ?ls = "map (\<lambda>(k, v). k @ '': '' @ v @ [CR]) (req_hdrs req) @ [[CR]]"
  have "parse_spec req_new (req_lines req) = parse_lines ?req2
      ((''Host: '' @ ?h @ [CR]) # (''Content-Length: '' @ ?c @ [CR]) # ?ls) (Suc (length ?l1))"
    by (simp only: parse_spec_def req_lines_def req_new_phase append.simps list.sel l1 [unfolded append.simps] req_phase_t.case prod.case
        option.case)
  also have "\<dots> = parse_lines ?req4 ?ls (Suc (length ?l1) + Suc (length (''Host: '' @ ?h @ [CR]))
      + Suc (length (''Content-Length: '' @ ?c @ [CR])))"
    by (simp only: parse_lines.simps l2 l3 option.case prod.case hdr_step.case)
  also have "\<dots> = Some (int (length (req_text req)), ?req4\<lparr>req_hdrs := rev (req_hdrs req),
      req_phase := REQ_BODY, req_rsize := req_clen req\<rparr>)"
    using parse_hdr_lines [OF p(9), of ?req4] p(7)
    by (simp add: req_text_def CRLF_def store_uri_def Let_def req_new_phase)
  finally show ?thesis
    using p(4) by (simp add: same_request_def lost_fields_def store_uri_def Let_def req_new_phase)
      (simp add: req_new_def req_reset_def buf_new_def)
qed


section \<open>The properties\<close>

text \<open>\<open>req_pack\<close> writes exactly the text of the request (request line, host, length, headers, empty
  line), with its terminator, when they fit the buffer; otherwise it writes past the end of the array.\<close>

lemma req_pack_text:
  assumes "req_ok req" "list_all (\<lambda>(k, v). no_nul k \<and> no_nul v) (req_hdrs req)" "length (data buf) \<le> BUFSZ + 1"
  shows "if length (req_text req) \<le> BUFSZ
    then \<exists>buf'. req_pack req buf = Some (int (length (req_text req)), buf')
      \<and> sz buf' = int (length (req_text req)) \<and> data_p buf' = 0 \<and> length (data buf') \<le> BUFSZ + 1
      \<and> (\<exists>r. data buf' = req_text req @ NUL # r)
    else req_pack req buf = None"
proof (cases "length (req_text req) \<le> BUFSZ")
  case True
  have i: "is_cstr (req_uri req)" "is_cstr (req_version req)" "is_cstr (req_host req)"
    using assms(1) by (simp_all add: req_ok_def str_ok_def)
  from req_pack_run [OF i assms(2,3)] True obtain buf' r where
    b: "req_pack req buf = Some (int (length (req_text req)), buf')" "sz buf' = int (length (req_text req))"
      "data_p buf' = 0" "length (data buf') \<le> BUFSZ + 1" "data buf' = req_text req @ NUL # r"
    by (auto simp: safe_def)
  then show ?thesis using True by auto
next
  case False
  have i: "is_cstr (req_uri req)" "is_cstr (req_version req)" "is_cstr (req_host req)"
    using assms(1) by (simp_all add: req_ok_def str_ok_def)
  from req_pack_run [OF i assms(2,3)] False show ?thesis by simp
qed

definition ex_post :: req_t where
  "ex_post = req_new\<lparr>req_meth := M_POST, req_uri := lit ''/cgi/a'', req_version := lit ''HTTP/1.1'',
     req_host := lit ''liso'', req_clen := 5, req_hdrs := [(''A'', ''b''), (''C'', ''d e'')]\<rparr>"

lemma ex_post_ok: "req_ok ex_post"
  using req_ok_new by (simp add: ex_post_def req_ok_def str_ok_def lit_def is_cstr_def REQ_URISZ_def
      REQ_VERSZ_def REQ_HOSTSZ_def hdr_ok_def HDR_KEYSZ_def HDR_VALSZ_def no_nul_def req_new_def req_reset_def)

lemma ex_post_text: "req_text ex_post = ''POST /cgi/a HTTP/1.1'' @ CRLF @ ''Host: liso'' @ CRLF
    @ ''Content-Length: 5'' @ CRLF @ ''A: b'' @ CRLF @ ''C: d e'' @ CRLF @ CRLF"
proof -
  have "show_int 5 = ''5''" by code_simp
  then show ?thesis
    by (simp add: req_text_def ex_post_def req_method_def lit_def cstr_def hdr_text_def)
qed

text \<open>C38: parsing what \<open>req_pack\<close> wrote gives back what \<open>req_pack\<close> writes: method, path, version,
  host, length and the kind of request that the path says, and the header list in reverse order,
  when the tokens hold no white space, the values carry none at their ends, and no header bears a
  name the parser acts on. The rest of the request is lost, whatever it was: the query string, a
  \<open>Connection: close\<close>, the scheme, the client's address and port, and the bytes put aside are those
  of a new request.\<close>

theorem pack_parse_roundtrip:
  assumes "packable req" "length (req_text req) \<le> BUFSZ" "length (data buf) \<le> BUFSZ + 1"
  shows "\<exists>n buf' req' buf''. req_pack req buf = Some (n, buf') \<and> req_parse req_new buf' = Some (n, req', buf'')
    \<and> same_request req req' \<and> lost_fields req' \<and> req_phase req' = REQ_BODY
    \<and> req_type req' = (if take 5 (cstr (req_uri req)) = ''/cgi/'' then REQ_DYNAMIC else REQ_STATIC)"
proof -
  have ok: "req_ok req" "list_all field_ok (req_hdrs req)" using assms(1) by (simp_all add: packable_def)
  then have i: "is_cstr (req_uri req)" "is_cstr (req_version req)" "is_cstr (req_host req)"
      "list_all (\<lambda>(k, v). no_nul k \<and> no_nul v) (req_hdrs req)"
    by (auto simp: req_ok_def str_ok_def field_ok_def list_all_iff)
  from req_pack_run [OF this assms(3)] assms(2) obtain buf' r where
    b: "req_pack req buf = Some (int (length (req_text req)), buf')" "sz buf' = int (length (req_text req))"
      "data_p buf' = 0" "data buf' = req_text req @ NUL # r"
    by (auto simp: safe_def)
  have v: "view buf' [] (join_lines (req_lines req))"
    using b by (simp add: view_def req_text_lines [symmetric])
  have lf: "\<forall>l \<in> set (req_lines req). LF \<notin> set l" using packable_lines [OF assms(1)] by simp
  have pl: "plain_uri (uri_of_line (hd (req_lines req)))" using packable_lines [OF assms(1)] by simp
  have "parse_result (req_parse req_new buf') = parse_spec req_new (req_lines req)"
    by (rule req_parse_lines [OF v lf _ pl]) (simp_all add: req_lines_def req_new_phase)
  with parse_req_lines [OF assms(1)] b(1) show ?thesis
    by (auto simp: parse_result_def)
qed


lemma ex_post_packable: "packable ex_post"
proof -
  have "word_ok ''/cgi/a''" "word_ok ''HTTP/1.1''" "plain_uri ''/cgi/a''" "strip ''liso'' = ''liso''"
    "list_all field_ok [(''A'', ''b''), (''C'', ''d e'')]"
    by code_simp+
  then show ?thesis using ex_post_ok by (simp add: packable_def ex_post_def lit_def cstr_def)
qed

theorem pack_parse_roundtrip_witness:
  "\<exists>n buf' req' buf''. req_pack ex_post buf_new = Some (n, buf') \<and> req_parse req_new buf' = Some (n, req', buf'')
    \<and> cstr (req_uri req') = ''/cgi/a'' \<and> req_params req' = None \<and> req_alive req' \<and> req_clen req' = 5 \<and> req_hdrs req' = [(''C'', ''d e''), (''A'', ''b'')]
    \<and> req_type req' = REQ_DYNAMIC"
proof -
  have l: "length (req_text ex_post) \<le> BUFSZ" by (simp add: ex_post_text CRLF_def BUFSZ_def)
  have b: "length (data buf_new) \<le> BUFSZ + 1" by (simp add: buf_new_def)
  have e: "cstr (req_uri ex_post) = ''/cgi/a''" "req_clen ex_post = 5" "req_hdrs ex_post = [(''A'', ''b''), (''C'', ''d e'')]"
    by (simp_all add: ex_post_def lit_def cstr_def)
  obtain n buf' req' buf'' where r: "req_pack ex_post buf_new = Some (n, buf')"
      "req_parse req_new buf' = Some (n, req', buf'')" "same_request ex_post req'" "lost_fields req'"
      "req_type req' = (if take 5 (cstr (req_uri ex_post)) = ''/cgi/'' then REQ_DYNAMIC else REQ_STATIC)"
    using pack_parse_roundtrip [OF ex_post_packable l b] by blast
  have "req_type req' = REQ_DYNAMIC" using r(5) by (simp add: e)
  with r(1-4) show ?thesis by (auto simp: same_request_def lost_fields_def e)
qed

end
