(* ===== verification/Testers.thy ===== *)
theory Testers
  imports Utils Buffer
begin

text \<open>
  The two programs beside the server: \<open>test_driver.c\<close>, the unit tests of the string helpers, and
  \<open>client.c\<close>, a client that sends one line and prints the reply.
\<close>

section \<open>The unit tests\<close>

text \<open>\<open>assert\<close> aborts the program (\<open>Inl\<close>) or goes on; \<open>None\<close> is undefined behaviour.\<close>

type_synonym 'a tested = "(unit + 'a) option"

definition assert_that :: "bool option \<Rightarrow> 'a tested \<Rightarrow> 'a tested" where
  "assert_that b k = do { b \<leftarrow> b; if b then k else Some (Inl ()) }"

definition and_then :: "'a tested \<Rightarrow> 'b tested \<Rightarrow> 'b tested" where
  "and_then t k = do { r \<leftarrow> t; (case r of Inl _ \<Rightarrow> Some (Inl ()) | Inr _ \<Rightarrow> k) }"

definition passed :: "unit tested" where
  "passed = Some (Inr ())"

definition test_one_strip :: "mem \<Rightarrow> mem \<Rightarrow> bool option" where
  "test_one_strip str tgt = do {
     x \<leftarrow> cstr_at str 0;
     s \<leftarrow> str_put 128 x (replicate 128 NUL);
     s \<leftarrow> strstrip s;
     y \<leftarrow> cstr_at s 0;
     t \<leftarrow> cstr_at tgt 0;
     Some (t = y) }"

definition test_strstrip :: "unit tested" where
  "test_strstrip =
     assert_that (test_one_strip (lit '' abc  '') (lit ''abc''))
     (assert_that (test_one_strip (lit ([TAB, CR] @ ''abc'' @ [LF])) (lit ''abc''))
     (assert_that (test_one_strip (lit [TAB, CR, LF]) (lit []))
     passed))"

definition test_isnum :: "unit tested" where
  "test_isnum =
     assert_that (isnum (lit ''1234567890''))
     (assert_that (isnum (lit []))
     (assert_that (map_option Not (isnum (lit ''92x'')))
     passed))"

definition test_strstartswith :: "unit tested" where
  "test_strstartswith =
     assert_that (strstartswith (lit ''abc'') (lit ''a''))
     (assert_that (map_option Not (strstartswith (lit ''b'') (lit ''bc'')))
     (assert_that (map_option Not (strstartswith (lit ''bc'') (lit ''cd'')))
     (assert_that (strstartswith (lit ''abc'') (lit ''abc''))
     passed)))"

definition test_main :: "int tested" where
  "test_main = and_then test_strstrip (and_then test_isnum (and_then test_strstartswith (Some (Inr 0))))"

section \<open>The client\<close>

text \<open>
  What the network and the terminal answer: a status of \<open>getaddrinfo\<close>, results of \<open>socket\<close> and
  \<open>connect\<close>, a line (\<open>None\<close> at the end of the input: the array is then not initialised), and a
  reply to it (\<open>None\<close> for an error). The record of calls is in the order they are made.
\<close>

definition CLIENT_BUF_SIZE :: nat where
  "CLIENT_BUF_SIZE = 4096"

record net =
  nt_addrinfo :: "string \<Rightarrow> string \<Rightarrow> int"
  nt_socket :: int
  nt_connect :: "int \<Rightarrow> int"
  nt_gets :: "string option"
  nt_recv :: "string \<Rightarrow> char list option"

datatype ccall =
    CcAddrinfo string string int
  | CcSocket int
  | CcConnect int int
  | CcPrint string
  | CcSend int string
  | CcRecv int "char list option"
  | CcFreeaddrinfo
  | CcClose int

definition client_reply :: "char list option \<Rightarrow> ccall list option" where
  "client_reply r =
     (case r of
        None \<Rightarrow> Some []
      | Some bs \<Rightarrow>
          if 1 < length bs then do {
            buf \<leftarrow> mem_put CLIENT_BUF_SIZE 0 bs [];
            buf \<leftarrow> mem_put CLIENT_BUF_SIZE (length bs) [NUL] buf;
            t \<leftarrow> cstr_at buf 0;
            Some [CcPrint (''Received '' @ t)] }
          else Some [])"

definition client_main :: "net \<Rightarrow> mem list \<Rightarrow> (int \<times> ccall list) option" where
  "client_main net argv =
     (if length argv \<noteq> 3 then Some (1, [])
      else do {
        host \<leftarrow> cstr_at (argv ! 1) 0;
        port \<leftarrow> cstr_at (argv ! 2) 0;
        let st = nt_addrinfo net host port;
        let cs = [CcAddrinfo host port st];
        if st \<noteq> 0 then Some (1, cs)
        else do {
          let sock = nt_socket net;
          let cs = cs @ [CcSocket sock];
          if sock = - 1 then Some (1, cs)
          else do {
            let rc = nt_connect net sock;
            let cs = cs @ [CcConnect sock rc];
            if rc = - 1 then Some (1, cs)
            else do {
              line \<leftarrow> nt_gets net;
              buf \<leftarrow> mem_put CLIENT_BUF_SIZE 0 (line @ [NUL]) [];
              msg \<leftarrow> cstr_at buf 0;
              let r = nt_recv net msg;
              out \<leftarrow> client_reply r;
              Some (0, cs @ [CcPrint (''Sending '' @ msg), CcSend sock msg, CcRecv sock r] @ out
                @ [CcFreeaddrinfo, CcClose sock]) } } } })"

end
