(* ===== verification/Tool_Props.thy ===== *)
theory Tool_Props
  imports Testers Logging Header
begin

text \<open>
  The string helpers, their unit tests, the header list, the log lines and the client.
\<close>

section \<open>The string helpers\<close>

text \<open>C37: \<open>strstrip\<close>, which works in place with three cursors, is the trimming of strings: what it
  leaves is the string without the white space around it, and the array keeps its size. So it never
  reads or writes outside a terminated array, not even on a string of white space only.\<close>

theorem strstrip_is_strip:
  assumes "is_cstr m"
  shows "\<exists>m' a b. strstrip m = Some m' \<and> length m' = length m \<and> is_cstr m'
    \<and> cstr m = a @ cstr m' @ b \<and> list_all isspace a \<and> list_all isspace b
    \<and> (cstr m' \<noteq> [] \<longrightarrow> \<not> isspace (hd (cstr m')) \<and> \<not> isspace (last (cstr m')))"
proof -
  obtain m' where m': "strstrip m = Some m'" "cstr m' = strip (cstr m)" "is_cstr m'" "length m' = length m"
    using strstrip_strip [OF assms] by blast
  show ?thesis
  proof (cases "list_all isspace (cstr m)")
    case True
    then show ?thesis
      using m' strip_all_space [OF True]
      by (intro exI [of _ m'] exI [of _ "cstr m"] exI [of _ "[]"]) simp
  next
    case False
    then obtain a t b where st: "cstr m = a @ t @ b" "\<forall>c \<in> set a. isspace c" "\<forall>c \<in> set b. isspace c"
        "t \<noteq> []" "\<not> isspace (hd t)" "\<not> isspace (last t)"
      by (rule obtain_trim)
    then have "strip (cstr m) = t" using strip_split [of a b t] by auto
    then show ?thesis
      using m' st by (intro exI [of _ m'] exI [of _ a] exI [of _ b]) (simp add: list_all_iff)
  qed
qed

theorem strstrip_is_strip_witness:
  "\<exists>m' a b. strstrip (lit ''  a b '') = Some m' \<and> length m' = 7
    \<and> ''  a b '' = a @ cstr m' @ b \<and> list_all isspace a \<and> list_all isspace b"
proof -
  have i: "is_cstr (lit ''  a b '')" "cstr (lit ''  a b '') = ''  a b ''" "length (lit ''  a b '') = 7"
    by (simp_all add: is_cstr_def lit_def cstr_def)
  from strstrip_is_strip [OF i(1), unfolded i(2,3)] show ?thesis by blast
qed

text \<open>The unit tests pass, the empty string being a number among them.\<close>

lemma test_main_passes: "test_main = Some (Inr 0)"
proof -
  have s: "test_one_strip (lit x) (lit y) = Some (strip x = y)" if "no_nul x" "no_nul y" "length x < 128" for x y
  proof -
    let ?m = "x @ NUL # drop (Suc (length x)) (replicate 128 NUL)"
    have i: "is_cstr ?m" "cstr ?m = x" using that(1) by (simp_all add: is_cstr_def cstr_append_NUL)
    obtain m' where "strstrip ?m = Some m'" "cstr m' = strip x" "is_cstr m'"
      using strstrip_strip [OF i(1)] unfolding i(2) by blast
    then show ?thesis using that by (auto simp: test_one_strip_def str_put_None cstr_at_cstr)
  qed
  have t: "strip '' abc  '' = ''abc''" "strip ([TAB, CR] @ ''abc'' @ [LF]) = ''abc''" "strip [TAB, CR, LF] = []"
    by code_simp+
  have p: "test_strstrip = passed"
    using t by (simp add: test_strstrip_def assert_that_def s no_nul_def del: append.simps)
  have q: "test_isnum = passed" "test_strstartswith = passed" by code_simp+
  show ?thesis unfolding test_main_def and_then_def p q passed_def by simp
qed

section \<open>The header list\<close>

text \<open>C34: the linked list of headers implements the list of pairs. Inserting new nodes into a new
  list leaves the pairs, cut to the sizes of a node, with the last one in front; resetting the list
  ends, and frees every node but the guard, once: no access to a freed node, and nothing leaks.\<close>

theorem header_list_refines:
  assumes "distinct (map fst es)" "\<forall>(p, k, v) \<in> set es. p \<noteq> g \<and> is_cstr k \<and> is_cstr v"
  shows "\<exists>h s s'. hdr_new Map.empty g None None = Some h \<and> obj_add_all es (h, g) = Some s
    \<and> obj_repr s (rev (map fst es))
        (rev (map (\<lambda>(p, k, v). (take HDR_KEYSZ (cstr k), take HDR_VALSZ (cstr v))) es))
    \<and> obj_clear s = Some s' \<and> obj_repr s' [] [] \<and> dom (fst s') = {g}"
proof -
  obtain h where h: "hdr_new Map.empty g None None = Some h" "obj_repr (h, g) [] []" "dom h = {g}"
    using guard_repr by blast
  have e: "\<forall>(p, k, v) \<in> set es. obj_fresh (h, g) p \<and> is_cstr k \<and> is_cstr v"
    using assms(2) h(3) by (auto simp: obj_fresh_def)
  have m: "map (\<lambda>(p, k, v). the (hdr_pair k v)) es =
      map (\<lambda>(p, k, v). (take HDR_KEYSZ (cstr k), take HDR_VALSZ (cstr v))) es"
    using assms(2) by (auto simp: hdr_pair_cstr)
  obtain s where s: "obj_add_all es (h, g) = Some s"
      "obj_repr s (rev (map fst es)) (rev (map (\<lambda>(p, k, v). the (hdr_pair k v)) es))"
    using hl.add_run [OF h(2) assms(1) e] by (auto simp: obj_add_all_def)
  obtain s' where "obj_clear s = Some s'" "obj_repr s' [] []" "\<forall>q. obj_fresh s' q \<longleftrightarrow> obj_fresh (h, g) q"
    using hl.add_clear [OF h(2) assms(1) e s(1) [unfolded obj_add_all_def]] by blast
  moreover from this(3) have "dom (fst s') = {g}" using h(3) by (auto simp: obj_fresh_def set_eq_iff)
  ultimately show ?thesis using h(1) s unfolding m by blast
qed

theorem header_list_refines_witness:
  "\<exists>h s s'. hdr_new Map.empty 0 None None = Some h
    \<and> obj_add_all [(1, lit ''A'', lit ''b''), (2, lit ''C'', lit ''d'')] (h, 0) = Some s
    \<and> obj_repr s [2, 1] [(''C'', ''d''), (''A'', ''b'')]
    \<and> obj_clear s = Some s' \<and> obj_repr s' [] [] \<and> dom (fst s') = {0}"
  using header_list_refines [of "[(1, lit ''A'', lit ''b''), (2, lit ''C'', lit ''d'')]" 0]
  by (simp add: lit_def is_cstr_def cstr_def HDR_KEYSZ_def HDR_VALSZ_def)

section \<open>Log lines\<close>

text \<open>The history at which a line gets its date, and what is written.\<close>

definition log_locked :: "log_os \<Rightarrow> log_t \<Rightarrow> log_call list" where
  "log_locked lo l = log_calls l @ [LogLockf (log_fd l) F_LOCK (lo_lockf lo (log_calls l) (log_fd l) F_LOCK)]"

definition log_text :: "log_os \<Rightarrow> string \<Rightarrow> string \<Rightarrow> log_t \<Rightarrow> string" where
  "log_text lo mark s l = lo_date lo (log_locked lo l) @ mark @ s @ [LF]"

definition log_written :: "log_os \<Rightarrow> string \<Rightarrow> log_t \<Rightarrow> log_t \<Rightarrow> bool" where
  "log_written lo out l l' \<longleftrightarrow> log_fd l' = log_fd l
     \<and> (\<exists>r. log_calls l' = log_locked lo l @ [LogWrite (log_fd l) out, LogLockf (log_fd l) F_ULOCK r])"

lemma log_marked_written:
  assumes "log_os_ok lo" "log_format fmt as = Some s" "no_nul s" "no_nul mark"
  shows "if length s \<le> LINESZ \<and> length (log_text lo mark s l) < LINESZ + LOG_DATESZ + 10
    then \<exists>l'. log_marked mark lo fmt as l = Some l' \<and> log_written lo (log_text lo mark s l) l l'
    else log_marked mark lo fmt as l = None"
  using log_marked_run [OF assms, of l]
  by (simp only: Let_def log_text_def log_locked_def log_written_def) (auto simp: Let_def)

text \<open>C39: a log line is written whole, between locking and unlocking, with its date in front. An
  information line needs only fit \<open>line\<close>. An error line must also fit \<open>wrapped\<close>, which is sized for
  the shorter mark: a line that fits \<open>line\<close> runs over \<open>wrapped\<close> when it and its date have 8250
  bytes or more.\<close>

theorem log_lines:
  assumes "log_os_ok lo" "log_format fmt as = Some s" "no_nul s"
  shows "(if length s \<le> LINESZ
      then \<exists>l'. log_line lo fmt as l = Some l' \<and> log_written lo (log_text lo '' - '' s l) l l'
      else log_line lo fmt as l = None)
    \<and> (if length s \<le> LINESZ \<and> length (lo_date lo (log_locked lo l)) + length s < 8250
      then \<exists>l'. log_errln lo fmt as l = Some l' \<and> log_written lo (log_text lo '' !!! ERROR !!! '' s l) l l'
      else log_errln lo fmt as l = None)"
proof -
  have d: "length (lo_date lo cs) < LOG_DATESZ" for cs using assms(1) by (simp add: log_os_ok_def)
  have m: "no_nul '' - ''" "no_nul '' !!! ERROR !!! ''" by (simp_all add: no_nul_def)
  have n: "LINESZ + LOG_DATESZ + 10 = 8266" "LOG_DATESZ = 64" "LINESZ = 8192"
    by (simp_all add: LINESZ_def LOG_DATESZ_def BUFSZ_def)
  have "length (log_text lo '' - '' s l) < LINESZ + LOG_DATESZ + 10" if "length s \<le> LINESZ"
    using that d [of "log_locked lo l"] by (simp add: log_text_def n)
  moreover have "length (log_text lo '' !!! ERROR !!! '' s l) < LINESZ + LOG_DATESZ + 10 \<longleftrightarrow>
      length (lo_date lo (log_locked lo l)) + length s < 8250"
    by (simp add: log_text_def n)
  ultimately show ?thesis
    using log_marked_written [OF assms m(1), of l] log_marked_written [OF assms m(2), of l]
    by (auto simp: log_line_def log_errln_def split: if_splits)
qed

theorem log_lines_witness:
  "\<exists>l' r. log_errln \<lparr>lo_open = (\<lambda>_ _. 6), lo_lockf = (\<lambda>_ _ _. 0), lo_date = (\<lambda>_. ''now'')\<rparr>
      ''lost %s (%d)'' [ArgS ''liso'', ArgI 7] log_state0 = Some l'
    \<and> log_calls l' = [LogLockf (- 1) F_LOCK 0, LogWrite (- 1) (''now !!! ERROR !!! lost liso (7)'' @ [LF]),
        LogLockf (- 1) F_ULOCK r]"
proof -
  let ?lo = "\<lparr>lo_open = (\<lambda>_ _. 6), lo_lockf = (\<lambda>_ _ _. 0), lo_date = (\<lambda>_. ''now'')\<rparr>"
  have f: "log_format ''lost %s (%d)'' [ArgS ''liso'', ArgI 7] = Some ''lost liso (7)''" by code_simp
  have o: "log_os_ok ?lo" "no_nul ''lost liso (7)''" by (simp_all add: log_os_ok_def no_nul_def LOG_DATESZ_def)
  have "length ''lost liso (7)'' \<le> LINESZ" "length (lo_date ?lo (log_locked ?lo log_state0)) + length ''lost liso (7)'' < 8250"
    by (simp_all add: LINESZ_def BUFSZ_def)
  then have "\<exists>l'. log_errln ?lo ''lost %s (%d)'' [ArgS ''liso'', ArgI 7] log_state0 = Some l'
      \<and> log_written ?lo (log_text ?lo '' !!! ERROR !!! '' ''lost liso (7)'' log_state0) log_state0 l'"
    using log_lines [OF o(1) f o(2), of log_state0] by (simp only: simp_thms if_True)
  moreover have "log_fd log_state0 = - 1" "log_calls log_state0 = []" by (simp_all add: log_state0_def)
  ultimately show ?thesis
    by (auto simp: log_written_def log_text_def log_locked_def)
qed

section \<open>The client\<close>

text \<open>C40: once connected, the client sends its line and prints the reply, up to the first null byte,
  when it has two bytes or more. A reply that fills the buffer is undefined behaviour: its terminator
  is written one past the end of the array.\<close>

theorem client_prints_reply:
  assumes "length argv = 3" "is_cstr (argv ! 1)" "is_cstr (argv ! 2)"
    and "nt_addrinfo net (cstr (argv ! 1)) (cstr (argv ! 2)) = 0" "nt_socket net \<noteq> - 1"
    and "nt_connect net (nt_socket net) \<noteq> - 1"
    and "nt_gets net = Some line" "no_nul line" "length line < CLIENT_BUF_SIZE"
    and "nt_recv net line = Some bs" "length bs \<le> CLIENT_BUF_SIZE"
  shows "if length bs = CLIENT_BUF_SIZE then client_main net argv = None
    else \<exists>cs. client_main net argv = Some (0, cs) \<and> CcSend (nt_socket net) line \<in> set cs
      \<and> last cs = CcClose (nt_socket net)
      \<and> (CcPrint (''Received '' @ cstr bs) \<in> set cs \<longleftrightarrow> 1 < length bs)"
proof -
  have line: "mem_put CLIENT_BUF_SIZE 0 (line @ [NUL]) [] = Some (line @ [NUL])"
      "cstr_at (line @ [NUL]) 0 = Some line"
    using assms(8,9) by (simp_all add: mem_put_def cstr_at_cstr cstr_append_NUL is_cstr_def)
  have main: "client_main net argv = do {
      out \<leftarrow> client_reply (Some bs);
      Some (0, [CcAddrinfo (cstr (argv ! 1)) (cstr (argv ! 2)) 0, CcSocket (nt_socket net),
        CcConnect (nt_socket net) (nt_connect net (nt_socket net)), CcPrint (''Sending '' @ line),
        CcSend (nt_socket net) line, CcRecv (nt_socket net) (Some bs)] @ out
        @ [CcFreeaddrinfo, CcClose (nt_socket net)]) }"
    using assms(1-7,10) line by (simp add: client_main_def Let_def cstr_at_cstr)
  have "cstr (bs @ [NUL]) = cstr bs" by (induction bs) (simp_all add: cstr_def)
  then have bs: "cstr_at (bs @ [NUL]) 0 = Some (cstr bs)"
    using cstr_at_cstr [of "bs @ [NUL]"] by (simp add: is_cstr_def)
  have reply: "client_reply (Some bs) = (if 1 < length bs then
      (if length bs < CLIENT_BUF_SIZE then Some [CcPrint (''Received '' @ cstr bs)] else None) else Some [])"
    using assms(11) bs by (simp add: client_reply_def mem_put_def)
  have "length bs < CLIENT_BUF_SIZE \<longleftrightarrow> length bs \<noteq> CLIENT_BUF_SIZE" using assms(11) by linarith
  then show ?thesis unfolding main reply by (simp add: CLIENT_BUF_SIZE_def)
qed

definition ex_net :: net where
  "ex_net = \<lparr>nt_addrinfo = (\<lambda>_ _. 0), nt_socket = 3, nt_connect = (\<lambda>_. 0), nt_gets = Some ''hello'',
     nt_recv = (\<lambda>_. Some ''HELLO'')\<rparr>"

theorem client_prints_reply_witness:
  "\<exists>cs. client_main ex_net (map lit [''client'', ''localhost'', ''80'']) = Some (0, cs)
     \<and> CcPrint ''Received HELLO'' \<in> set cs"
proof -
  have c: "cstr ''HELLO'' = ''HELLO''" "is_cstr (lit x)" for x by (simp_all add: cstr_def is_cstr_def lit_def)
  show ?thesis
    using client_prints_reply [of "map lit [''client'', ''localhost'', ''80'']" ex_net "''hello''" "''HELLO''"]
    by (auto simp: ex_net_def c no_nul_def CLIENT_BUF_SIZE_def)
qed

end
