(* ===== verification/Spec2Isabelle.thy ===== *)
theory Spec2Isabelle
  imports Flow_Props Descriptors Cgi_Props Pack_Props Tool_Props
begin

text \<open>
  Liso, a web server: a verification development.

  \<^bold>\<open>The program.\<close> Liso serves HTTP and HTTPS from one thread. \<open>main\<close> (\<open>lisod.c\<close>) opens two
  listeners, becomes a daemon, makes an SSL context, and loops over \<open>select\<close>. A turn of the loop
  accepts at most one client per listener into a pool of connections, and then visits every
  connection: it receives and parses (\<open>conn.c\<close>, \<open>request.c\<close>), builds a static response or starts a
  CGI program (\<open>response.c\<close>, \<open>cgi.c\<close>), passes the body to the program, and sends what is due. A
  handler reports by calling back into \<open>lisod.c\<close>: success (reset the connection for the next
  request, or close it), an error (answer with a page), or a fatal error (drop the connection).

  \<^bold>\<open>How C is modelled.\<close> A byte array is the list of its initialised bytes, and every access is
  checked against the capacity the code gave the array; \<open>FD_SET\<close> and its like are checked against
  \<open>FD_SETSIZE\<close>. An access out of bounds, of an uninitialised byte, or of a freed object is undefined
  behaviour and the value \<open>None\<close>; so a theorem that an operation returns \<open>Some\<close> says that it has
  none. \<open>safe\<close> and \<open>post\<close> state that an operation returns with a postcondition, or that the
  postcondition holds if it returns. Conversions between \<open>int\<close> and \<open>size_t\<close> that matter are written
  out on words (\<open>atoi\<close>, \<open>idx_in_pool\<close>, the result of \<open>resp_build\<close>). Sizes that may become negative
  are \<open>int\<close>.

  \<^bold>\<open>The outside world.\<close> System calls and libraries are the record \<open>os\<close> of \<open>OS\<close> (\<open>recv\<close>, \<open>send\<close>,
  \<open>read\<close>, \<open>write\<close>, \<open>accept\<close>, \<open>pipe\<close>, \<open>fork\<close>, \<open>stat\<close>, \<open>mmap\<close>, SSL, \<open>select\<close>, the clock), the record
  \<open>sys\<close> of \<open>Startup\<close> and the record \<open>log_os\<close> of \<open>Logging\<close>. Their answers may depend on everything
  that happened before: the history is a list of events, so that no two calls need to agree. Its
  events also keep the account of what is mapped, opened, sent and written.
  \<open>os_ok\<close>, \<open>sys_ok\<close> and \<open>log_os_ok\<close> state the documented bounds of the answers only; \<open>Examples\<close>
  has an environment that meets them all.

  \<^bold>\<open>Theories and sources.\<close>
  \<^item> \<open>Prelude\<close>, \<open>Utils\<close>: the C library functions that the program uses; \<open>utils.c\<close>.
  \<^item> \<open>Buffer\<close>: \<open>buffer.c\<close>, and \<open>buf_next\<close>, the bytes a \<open>send\<close> or \<open>write\<close> of the handlers is given (a
    negative size would be a huge one, and is undefined behaviour). \<open>Header\<close>: \<open>header.c\<close>, once as nodes on a store and once as a list of
    pairs; the locale \<open>hdr_list\<close> is the contract, interpreted on the nodes.
  \<^item> \<open>Request\<close>, \<open>Request_Pack\<close>: \<open>request.c\<close>. \<open>Request_Lines\<close> is a reference parser on lists of lines,
    \<open>Request_Inv\<close> the invariant of a request.
  \<^item> \<open>Response\<close>: \<open>response.c\<close> and \<open>config.h\<close>; \<open>Response_Inv\<close>: its bounds. \<open>Cgi\<close>: \<open>cgi.c\<close>.
  \<^item> \<open>Conn\<close>: \<open>conn.c\<close>, with the connections on a heap and the callbacks as arguments, whose types are
    \<open>SuccCb\<close>, \<open>ErrCb\<close> and \<open>FatCb\<close> as in \<open>conn.h\<close>. \<open>Conn_Inv\<close>: the
    invariant of a connection. \<open>Conn_Handlers\<close>: the contracts between the handlers and the server as
    the locales \<open>conn_base\<close>, \<open>conn_callbacks\<close> and \<open>cgi_callbacks\<close>; every handler is proved once under
    them.
  \<^item> \<open>Pool\<close>: \<open>pool.c\<close>, the array of connections and the descriptor sets; \<open>Pool_Inv\<close>: its invariant.
  \<^item> \<open>Lisod\<close>: the callbacks, the macros that hand them to the handlers (\<open>liso_recv\<close> and the like),
    accepting, and a turn of the loop of \<open>lisod.c\<close>. \<open>Lisod_Inv\<close> interprets the three locales on the
    callbacks of the server and carries the invariant through a turn.
  \<^item> \<open>Waiting\<close>: what the server watches for a connection, followed through the steps of a turn.
    \<open>Turn_Fds\<close>: the descriptors within a turn, with which a pipe made in it is told from what \<open>select\<close>
    reported. \<open>Served\<close> and \<open>Served_Cgi\<close>: a static and a dynamic request from its bytes to the last byte of its
    answer, the components composed.
  \<^item> \<open>Accounts\<close>: what a history has opened and mapped against what the connections hold, as the locale
    \<open>ledger\<close> over the weights of a descriptor and of a mapped byte. \<open>Account_Handlers\<close> and \<open>Account_Run\<close>
    carry it through every step of a run, once. \<open>Mappings\<close> interprets it with mapped bytes alone,
    \<open>Descriptors\<close> with a single descriptor.
  \<^item> \<open>Logging\<close>: \<open>logging.c\<close>. \<open>Startup\<close>: \<open>daemon.c\<close> and the rest of \<open>lisod.c\<close> (start-up, signals,
    tear-down), and the running server as a step relation. \<open>Startup_Inv\<close>: its invariant.
  \<^item> \<open>Testers\<close>: \<open>test_driver.c\<close> and \<open>client.c\<close>.
  \<^item> \<open>Request_Props\<close>, \<open>Server_Props\<close>, \<open>Conn_Props\<close>, \<open>Send_Props\<close>, \<open>Response_Props\<close>, \<open>Cgi_Props\<close>,
    \<open>Pack_Props\<close>, \<open>Tool_Props\<close>, \<open>Flow_Props\<close> and the ends of \<open>Descriptors\<close>, \<open>Served\<close> and \<open>Served_Cgi\<close>: the properties C1 to C40,
    each with a witness.

  \<^bold>\<open>What is shown.\<close>
  \<^item> The request parser computes the reference parser, has no undefined behaviour unless a \<open>Host\<close>
    value is too long, a buffer that continues a header begins with an empty line, or the URI is a
    bare scheme (the case left open); but for these it does not care how lines are split over
    buffers, and it agrees with its own statuses (C1 to C5). What \<open>req_pack\<close> writes is parsed back,
    and what it does not write is lost (C38).
  \<^item> The server keeps its invariant in every reachable state; the loop over the connections ends,
    although dropping a connection makes it visit a slot again; start-up either exits or leaves a
    well-formed server; SIGTERM frees everything; dropping a connection removes that one alone (C6 to C8, C10, C12, C32). In every reachable state
    the three state machines of a connection agree (C11). A turn of one connection touches no other
    (C16), and the server goes on watching the descriptor that its own connection needs, as long as
    the descriptors reported in the turn are still held and no request waits behind the answer of a
    CGI program (C9).
  \<^item> From the request to the next: a complete GET request is parsed, its file found, mapped and sent,
    and the connection waits for the next request, in at most 310 turns and one per byte of the file
    (C19). When nothing fails and no transfer is partial, a complete request for a program starts
    it, hands it its body and relays what it writes, in two turns for each chunk and two for the end
    (C22).
  \<^item> Bytes: body and next request are told apart and nothing is lost (C14, C15); a static response
    other than to HEAD arrives whole and once however sends are split (C18); files are looked up in order and served with their own data (C24 to C28, C30).
  \<^item> Resources: every descriptor a connection holds is open and has no other owner, none is closed
    twice, and none is lost unless \<open>pipe\<close> or \<open>mmap\<close> fails (C13); what is mapped is held by a
    connection, and all of it is given back at the end (C29); a CGI program gets fresh pipes (C33), header names are converted as the table \<open>env_char\<close> says, and the environment is built exactly when
    the names and the entries fit (C35, C36), the
    header list frees its nodes once (C34), log lines and trimmed strings stay in their arrays (C37,
    C39).
  \<^item> Where the code does not do what it means to, the property says what happens: partial writes and
    sends (C17, C21, C23), an overlong \<open>Host\<close> (C3), large files (C27), a request behind the answer of
    a CGI program (C31), the full environment (C36), a long error line (C39), a reply that fills the client's buffer (C40).

  \<^bold>\<open>Fuel.\<close> \<open>serve_loop\<close> runs on as much fuel as there are connections, which C7 shows to be enough:
  every visit moves on or removes a connection. The drivers \<open>deliver\<close> and \<open>relay\<close> of the sending
  handlers are called with bounds that the number of bytes and of chunks gives (C18), \<open>ready_turns\<close> with those of
  C19 (a header has at most 310 bytes) and C22. \<open>reap\<close>, the loop over \<open>waitpid\<close>, may
  run for ever, and is a partial function. All other loops are structural or have a measure.

  \<^bold>\<open>Not modelled.\<close> Output to the terminal and calls of the log inside the handlers (no other part
  reads what they write; those under \<open>DEBUG\<close> are not compiled, for it is 0); the destructors that only free memory
  (\<open>buf_free\<close>, \<open>req_free\<close>, \<open>cgi_free\<close>); failure of \<open>malloc\<close>. In the child
  of \<open>fork\<close> only the calls up to \<open>execve\<close> are modelled. Signals arrive between two turns of the
  loop, not within one.
\<close>

end
